(* ===== verification/Velorix_Prelude.thy ===== *)
theory Velorix_Prelude
  imports Main "HOL-Library.Multiset" "HOL-Library.Char_ord" "HOL-Library.List_Lexorder"
    "HOL-Library.Product_Lexorder"
begin

text \<open>
  Shared vocabulary of the development: Rust's \<open>Result\<close> with its \<open>?\<close> operator and
  \<open>collect\<close>, the ranges and checked operations of the fixed-width integers that the
  sources use (\<open>i64\<close>, \<open>i128\<close>, \<open>u64\<close>), \<open>BTreeMap\<close> as an association list sorted by
  key behind the interface \<open>ordered_map\<close>, blank texts, and the generic lemmas on lists and sums that
  the component theories share.
\<close>

section \<open>Results\<close>

text \<open>\<open>Result<T, E>\<close> is \<open>'e + 'a\<close> with the error on the left; \<open>rbind\<close> is \<open>?\<close>.\<close>

type_synonym ('e, 'a) result = "'e + 'a"

definition rbind :: "('e, 'a) result \<Rightarrow> ('a \<Rightarrow> ('e, 'b) result) \<Rightarrow> ('e, 'b) result" where
  "rbind m f = (case m of Inl e \<Rightarrow> Inl e | Inr x \<Rightarrow> f x)"

definition rmap_err :: "('e \<Rightarrow> 'f) \<Rightarrow> ('e, 'a) result \<Rightarrow> ('f, 'a) result" where
  "rmap_err f m = (case m of Inl e \<Rightarrow> Inl (f e) | Inr x \<Rightarrow> Inr x)"

text \<open>\<open>ok_or\<close>: an option becomes a result.\<close>

definition ok_or :: "'e \<Rightarrow> 'a option \<Rightarrow> ('e, 'a) result" where
  "ok_or e m = (case m of None \<Rightarrow> Inl e | Some x \<Rightarrow> Inr x)"

text \<open>\<open>iter().map(f).collect::<Result<Vec<_>, _>>()\<close>: the first error wins.\<close>

fun rmap_list :: "('a \<Rightarrow> ('e, 'b) result) \<Rightarrow> 'a list \<Rightarrow> ('e, 'b list) result" where
  "rmap_list f [] = Inr []"
| "rmap_list f (x # xs) = rbind (f x) (\<lambda>y. rbind (rmap_list f xs) (\<lambda>ys. Inr (y # ys)))"

text \<open>\<open>iter().filter_map(f).collect::<Result<Vec<_>, _>>()\<close>.\<close>

fun rfilter_map :: "('a \<Rightarrow> ('e, 'b option) result) \<Rightarrow> 'a list \<Rightarrow> ('e, 'b list) result" where
  "rfilter_map f [] = Inr []"
| "rfilter_map f (x # xs) =
     rbind (f x) (\<lambda>y. rbind (rfilter_map f xs) (\<lambda>ys.
       Inr (case y of None \<Rightarrow> ys | Some z \<Rightarrow> z # ys)))"

text \<open>A \<open>for\<close> loop whose body may leave with \<open>?\<close>.\<close>

fun rfold :: "('a \<Rightarrow> 's \<Rightarrow> ('e, 's) result) \<Rightarrow> 'a list \<Rightarrow> 's \<Rightarrow> ('e, 's) result" where
  "rfold f [] s = Inr s"
| "rfold f (x # xs) s = rbind (f x s) (rfold f xs)"

named_theorems res_simps \<open>rewriting of the result combinators\<close>

text \<open>Nested \<open>for\<close> loops that push onto one output vector.\<close>

definition rflat_map :: "('a \<Rightarrow> ('e, 'b list) result) \<Rightarrow> 'a list \<Rightarrow> ('e, 'b list) result" where
  "rflat_map f xs = rbind (rmap_list f xs) (\<lambda>yss. Inr (concat yss))"

lemma rbind_Inl [simp]: "rbind (Inl e) f = Inl e"
  by (simp add: rbind_def)

lemma rbind_Inr [simp]: "rbind (Inr x) f = f x"
  by (simp add: rbind_def)

lemma rbind_eq_Inr [res_simps]: "rbind m f = Inr y \<longleftrightarrow> (\<exists>x. m = Inr x \<and> f x = Inr y)"
  by (cases m) auto

lemma rbind_eq_Inl [res_simps]:
  "rbind m f = Inl e \<longleftrightarrow> m = Inl e \<or> (\<exists>x. m = Inr x \<and> f x = Inl e)"
  by (cases m) auto

lemma rmap_err_simps [simp]: "rmap_err f (Inl e) = Inl (f e)" "rmap_err f (Inr x) = Inr x"
  by (simp_all add: rmap_err_def)

lemma rmap_err_eq_Inr [res_simps]: "rmap_err f m = Inr y \<longleftrightarrow> m = Inr y"
  by (cases m) auto

lemma rmap_err_eq_Inl [res_simps]: "rmap_err f m = Inl e \<longleftrightarrow> (\<exists>e'. m = Inl e' \<and> e = f e')"
  by (cases m) auto

lemma ok_or_simps [simp]: "ok_or e None = Inl e" "ok_or e (Some x) = Inr x"
  by (simp_all add: ok_or_def)

lemma ok_or_eq_Inr [res_simps]: "ok_or e m = Inr y \<longleftrightarrow> m = Some y"
  by (cases m) auto

lemma ok_or_eq_Inl [res_simps]: "ok_or e m = Inl e' \<longleftrightarrow> m = None \<and> e' = e"
  by (cases m) auto

lemma not_isl_pair: "isl (snd p) = False \<Longrightarrow> \<exists>s x. p = (s, Inr x)"
  by (cases p; cases "snd p") auto

lemma rmap_list_eq_Inr:
  "rmap_list f xs = Inr ys \<longleftrightarrow> list_all2 (\<lambda>x y. f x = Inr y) xs ys"
  by (induction xs arbitrary: ys) (auto simp: res_simps list_all2_Cons1)

lemma rflat_map_simps [simp]:
  "rflat_map f [] = Inr []"
  "rflat_map f (x # xs) = rbind (f x) (\<lambda>ys. rbind (rflat_map f xs) (\<lambda>zs. Inr (ys @ zs)))"
  by (simp_all add: rflat_map_def)
     (cases "f x"; cases "rmap_list f xs"; simp)

lemma rmap_list_Inr_map: "rmap_list (\<lambda>x. Inr (g x)) xs = Inr (map g xs)"
  by (induction xs) auto

lemma rmap_list_total: "(\<And>x. x \<in> set xs \<Longrightarrow> \<exists>y. f x = Inr y) \<Longrightarrow> \<exists>ys. rmap_list f xs = Inr ys"
proof (induction xs)
  case (Cons x xs)
  obtain y where y: "f x = Inr y" using Cons.prems by auto
  obtain ys where "rmap_list f xs = Inr ys" using Cons by auto
  with y show ?case by auto
qed auto

lemma rfold_append: "rfold f (xs @ ys) s = rbind (rfold f xs s) (rfold f ys)"
  by (induction xs arbitrary: s) (auto simp: rbind_def split: sum.splits)

lemma rfold_invariant:
  assumes "rfold f xs s = Inr t" and "P s"
    and "\<And>x s s'. x \<in> set xs \<Longrightarrow> P s \<Longrightarrow> f x s = Inr s' \<Longrightarrow> P s'"
  shows "P t"
  using assms by (induction xs arbitrary: s) (auto simp: res_simps)

section \<open>Fixed-width integers\<close>

text \<open>
  The signed counters of the sources are modelled as \<open>int\<close>, the unsigned ones as \<open>nat\<close>;
  every operation that Rust checks goes through one of the functions below.
\<close>

definition i64_range :: "int \<Rightarrow> bool" where
  "i64_range x \<longleftrightarrow> - 9223372036854775808 \<le> x \<and> x \<le> 9223372036854775807"

definition i128_range :: "int \<Rightarrow> bool" where
  "i128_range x \<longleftrightarrow> - 170141183460469231731687303715884105728 \<le> x
     \<and> x \<le> 170141183460469231731687303715884105727"

definition i64_checked :: "int \<Rightarrow> int option" where
  "i64_checked x = (if i64_range x then Some x else None)"

definition i128_checked :: "int \<Rightarrow> int option" where
  "i128_checked x = (if i128_range x then Some x else None)"

definition u64_max :: nat where
  "u64_max = 18446744073709551615"

definition u64_checked :: "nat \<Rightarrow> nat option" where
  "u64_checked n = (if n \<le> u64_max then Some n else None)"

text \<open>A \<open>u64\<close> counter kept as an integer, advanced with \<open>wrapping_add\<close> or \<open>checked_add\<close>.\<close>

definition u64_wrapping_inc :: "int \<Rightarrow> int" where
  "u64_wrapping_inc x = (x + 1) mod 2 ^ 64"

definition u64_checked_inc :: "int \<Rightarrow> int option" where
  "u64_checked_inc x = (if x + 1 < 2 ^ 64 then Some (x + 1) else None)"

lemma u64_wrapping_inc_neq: "u64_wrapping_inc x \<noteq> x"
proof
  assume "u64_wrapping_inc x = x"
  then have "(x + 1) mod 2 ^ 64 = x mod 2 ^ 64"
    unfolding u64_wrapping_inc_def by (metis mod_mod_trivial)
  then have "(2 ^ 64 :: int) dvd 1" by (simp add: mod_eq_dvd_iff)
  then show False by simp
qed

lemma i64_checked_eq_Some [simp]: "i64_checked x = Some y \<longleftrightarrow> i64_range x \<and> y = x"
  by (auto simp: i64_checked_def)

lemma i64_checked_eq_None [simp]: "i64_checked x = None \<longleftrightarrow> \<not> i64_range x"
  by (auto simp: i64_checked_def)

lemma i128_checked_eq_Some [simp]: "i128_checked x = Some y \<longleftrightarrow> i128_range x \<and> y = x"
  by (auto simp: i128_checked_def)

lemma i128_checked_eq_None [simp]: "i128_checked x = None \<longleftrightarrow> \<not> i128_range x"
  by (auto simp: i128_checked_def)

lemma u64_checked_eq_Some [simp]: "u64_checked n = Some m \<longleftrightarrow> n \<le> u64_max \<and> m = n"
  by (auto simp: u64_checked_def)

lemma u64_checked_eq_None [simp]: "u64_checked n = None \<longleftrightarrow> u64_max < n"
  by (auto simp: u64_checked_def)

lemma i64_range_i128: "i64_range x \<Longrightarrow> i128_range x"
  by (simp add: i64_range_def i128_range_def)

lemma i64_range_add_i128: "i64_range x \<Longrightarrow> i64_range y \<Longrightarrow> i128_range (x + y)"
  by (simp add: i64_range_def i128_range_def)

lemma i64_range_0 [simp]: "i64_range 0"
  by (simp add: i64_range_def)

lemma i64_range_1 [simp]: "i64_range 1" "i64_range (- 1)"
  by (simp_all add: i64_range_def)

lemma i128_range_0 [simp]: "i128_range 0"
  by (simp add: i128_range_def)

section \<open>Ordered maps\<close>

text \<open>
  The interface of \<open>BTreeMap\<close>: point lookup, insertion, removal, and the entries in
  ascending key order. The laws are what its documentation promises; the lemmas below are
  all that the components use of it.
\<close>

locale ordered_map =
  fixes empty :: 'm
    and get :: "'m \<Rightarrow> 'k::linorder \<Rightarrow> 'v option"
    and put :: "'k \<Rightarrow> 'v \<Rightarrow> 'm \<Rightarrow> 'm"
    and del :: "'k \<Rightarrow> 'm \<Rightarrow> 'm"
    and entries :: "'m \<Rightarrow> ('k \<times> 'v) list"
    and ok :: "'m \<Rightarrow> bool"
  assumes get_empty: "get empty k = None"
    and get_put: "ok m \<Longrightarrow> get (put k v m) k' = (if k' = k then Some v else get m k')"
    and get_del: "ok m \<Longrightarrow> get (del k m) k' = (if k' = k then None else get m k')"
    and get_entries: "ok m \<Longrightarrow> get m k = map_of (entries m) k"
    and entries_sorted: "ok m \<Longrightarrow> sorted_wrt (<) (map fst (entries m))"
    and ok_empty: "ok empty"
    and ok_put: "ok m \<Longrightarrow> ok (put k v m)"
    and ok_del: "ok m \<Longrightarrow> ok (del k m)"
begin

lemma entries_distinct: "ok m \<Longrightarrow> distinct (map fst (entries m))"
  using entries_sorted strict_sorted_iff by blast

lemma in_entries_iff: "ok m \<Longrightarrow> (k, v) \<in> set (entries m) \<longleftrightarrow> get m k = Some v"
  using entries_distinct get_entries map_of_eq_Some_iff by metis

lemma entries_ext:
  assumes "ok m" and "ok n" and "\<And>k. get m k = get n k"
  shows "entries m = entries n"
proof (rule map_sorted_distinct_set_unique [where f = fst])
  show "set (entries m) = set (entries n)"
    using assms in_entries_iff by (auto simp: set_eq_iff)
  show "inj_on fst (set (entries m) \<union> set (entries n))"
    using entries_distinct assms(1,2) \<open>set (entries m) = set (entries n)\<close>
    by (simp add: distinct_map)
qed (use assms entries_sorted entries_distinct strict_sorted_imp_sorted in blast)+

lemma sum_entries:
  fixes f :: "'k \<Rightarrow> 'v \<Rightarrow> int"
  assumes "ok m"
  shows "(\<Sum>(k, v)\<leftarrow>entries m. f k v) = (\<Sum>(k, v) \<in> set (entries m). f k v)"
proof -
  have "distinct (entries m)"
    using entries_distinct [OF assms] by (simp add: distinct_map)
  then show ?thesis by (simp add: sum_list_distinct_conv_sum_set)
qed

end

text \<open>\<open>BTreeMap<K, V>\<close> as the list of its entries in ascending key order.\<close>

type_synonym ('k, 'v) btree_map = "('k \<times> 'v) list"

fun bt_insert :: "'k::linorder \<Rightarrow> 'v \<Rightarrow> ('k, 'v) btree_map \<Rightarrow> ('k, 'v) btree_map" where
  "bt_insert k v [] = [(k, v)]"
| "bt_insert k v (e # m) =
     (if k < fst e then (k, v) # e # m
      else if fst e < k then e # bt_insert k v m
      else (k, v) # m)"

fun bt_remove :: "'k::linorder \<Rightarrow> ('k, 'v) btree_map \<Rightarrow> ('k, 'v) btree_map" where
  "bt_remove k [] = []"
| "bt_remove k (e # m) = (if fst e = k then m else e # bt_remove k m)"

abbreviation (input) bt_get :: "('k, 'v) btree_map \<Rightarrow> 'k \<Rightarrow> 'v option" where
  "bt_get \<equiv> map_of"

abbreviation (input) bt_values :: "('k, 'v) btree_map \<Rightarrow> 'v list" where
  "bt_values m \<equiv> map snd m"

text \<open>\<open>iter().collect::<BTreeMap<_, _>>()\<close>: later entries replace earlier ones.\<close>

definition bt_collect :: "('k::linorder \<times> 'v) list \<Rightarrow> ('k, 'v) btree_map" where
  "bt_collect es = fold (\<lambda>(k, v). bt_insert k v) es []"

definition bt_wf :: "('k::linorder, 'v) btree_map \<Rightarrow> bool" where
  "bt_wf m \<longleftrightarrow> sorted_wrt (<) (map fst m)"

lemma bt_get_insert [simp]: "bt_get (bt_insert k v m) k' = (if k' = k then Some v else bt_get m k')"
  by (induction m) (auto split: if_splits)

lemma bt_insert_keys: "fst ` set (bt_insert k v m) = insert k (fst ` set m)"
  by (induction m) (auto split: if_splits)

lemma bt_remove_subset: "set (bt_remove k m) \<subseteq> set m"
  by (induction m) auto

lemma bt_wf_Nil [simp]: "bt_wf []"
  by (simp add: bt_wf_def)

lemma bt_wf_Cons: "bt_wf (e # m) \<longleftrightarrow> (\<forall>x \<in> set m. fst e < fst x) \<and> bt_wf m"
  by (auto simp: bt_wf_def)

lemma bt_wf_insert [simp]: "bt_wf m \<Longrightarrow> bt_wf (bt_insert k v m)"
proof (induction m)
  case (Cons e m)
  have "x \<in> set (bt_insert k v m) \<Longrightarrow> fst x = k \<or> fst x \<in> fst ` set m" for x
    using bt_insert_keys [of k v m] by (metis image_eqI insert_iff)
  with Cons show ?case by (fastforce simp: bt_wf_Cons)
qed (simp add: bt_wf_Cons)

lemma bt_wf_remove [simp]: "bt_wf m \<Longrightarrow> bt_wf (bt_remove k m)"
proof (induction m)
  case (Cons e m)
  then show ?case using bt_remove_subset [of k m] by (auto simp: bt_wf_Cons)
qed simp

lemma bt_get_remove: "bt_wf m \<Longrightarrow> bt_get (bt_remove k m) k' = (if k' = k then None else bt_get m k')"
proof (induction m)
  case (Cons e m)
  have "bt_get m (fst e) = None"
    using Cons.prems by (auto simp: bt_wf_Cons map_of_eq_None_iff)
  with Cons show ?case by (cases e) (auto simp: bt_wf_Cons)
qed simp

interpretation bt: ordered_map "[]" map_of bt_insert bt_remove "\<lambda>m. m" bt_wf
  by unfold_locales (simp_all add: bt_get_remove bt_wf_def [symmetric])

lemma bt_wf_collect [simp]: "bt_wf (bt_collect es)"
proof -
  have "bt_wf m \<Longrightarrow> bt_wf (fold (\<lambda>(k, v). bt_insert k v) es m)" for m :: "('a \<times> 'b) list"
    by (induction es arbitrary: m) auto
  then show ?thesis by (simp add: bt_collect_def)
qed

lemma bt_get_fold_insert:
  "bt_get (fold (\<lambda>(k, v). bt_insert k v) es m) = map_of m ++ map_of (rev es)"
proof (induction es arbitrary: m)
  case (Cons e es)
  obtain k v where e: "e = (k, v)" by (cases e)
  have "map_of (bt_insert k v m) = (map_of m)(k \<mapsto> v)" by (auto simp: fun_eq_iff)
  with Cons.IH show ?case by (simp add: e map_add_upd_left fun_eq_iff map_add_def split: option.splits)
qed simp

lemma bt_get_collect: "bt_get (bt_collect es) = map_of (rev es)"
  by (simp add: bt_collect_def bt_get_fold_insert)

lemma bt_insert_sum:
  fixes f :: "'k::linorder \<Rightarrow> 'v \<Rightarrow> int"
  assumes "bt_wf m"
  shows "(\<Sum>(k, v)\<leftarrow>bt_insert k v m. f k v) =
    (\<Sum>(k, v)\<leftarrow>m. f k v) + f k v - (case bt_get m k of None \<Rightarrow> 0 | Some u \<Rightarrow> f k u)"
  using assms
proof (induction m)
  case (Cons e m)
  obtain a b where e: "e = (a, b)" by (cases e)
  have "k < a \<Longrightarrow> bt_get m k = None"
    using Cons.prems by (auto simp: e bt_wf_Cons map_of_eq_None_iff)
  with Cons show ?case by (auto simp: e bt_wf_Cons)
qed simp

lemma bt_remove_sum:
  fixes f :: "'k::linorder \<Rightarrow> 'v \<Rightarrow> int"
  shows "(\<Sum>(k, v)\<leftarrow>bt_remove k m. f k v) =
    (\<Sum>(k, v)\<leftarrow>m. f k v) - (case bt_get m k of None \<Rightarrow> 0 | Some u \<Rightarrow> f k u)"
  by (induction m) auto

lemma bt_insert_not_Nil [simp]: "bt_insert k v m \<noteq> []"
  by (cases m) auto

lemma bt_insert_map:
  "bt_insert k (f v) (map (\<lambda>(k, v). (k, f v)) m) = map (\<lambda>(k, v). (k, f v)) (bt_insert k v m)"
  by (induction m) auto

lemma bt_get_map: "bt_get (map (\<lambda>(k, v). (k, f v)) m) k = map_option f (bt_get m k)"
  by (induction m) auto

lemma bt_insert_snoc: "(\<And>x. x \<in> set m \<Longrightarrow> fst x < k) \<Longrightarrow> bt_insert k v m = m @ [(k, v)]"
proof (induction m)
  case (Cons e m)
  then have "fst e < k" by simp
  then have "\<not> k < fst e" by (rule less_not_sym)
  with \<open>fst e < k\<close> Cons show ?case by simp
qed simp

section \<open>Texts\<close>

text \<open>
  \<open>value.trim().is_empty()\<close> on the UTF-8 bytes of a text: white space only. The multi-byte cases
  are U+0085, U+00A0, U+1680, U+2000 to U+200A, U+2028, U+2029, U+202F, U+205F and U+3000.
\<close>

fun blank :: "string \<Rightarrow> bool" where
  "blank [] = True"
| "blank (a # cs) \<longleftrightarrow>
     (a \<in> {CHR 0x09, CHR 0x0A, CHR 0x0B, CHR 0x0C, CHR 0x0D, CHR 0x20} \<and> blank cs)
   \<or> (case cs of b # ds \<Rightarrow>
        (a = CHR 0xC2 \<and> b \<in> {CHR 0x85, CHR 0xA0} \<and> blank ds)
      \<or> (case ds of c # es \<Rightarrow>
           ((a = CHR 0xE1 \<and> b = CHR 0x9A \<and> c = CHR 0x80)
          \<or> (a = CHR 0xE2 \<and> b = CHR 0x80 \<and>
              c \<in> {CHR 0x80, CHR 0x81, CHR 0x82, CHR 0x83, CHR 0x84, CHR 0x85, CHR 0x86, CHR 0x87, CHR 0x88,
                    CHR 0x89, CHR 0x8A, CHR 0xA8, CHR 0xA9, CHR 0xAF})
          \<or> (a = CHR 0xE2 \<and> b = CHR 0x81 \<and> c = CHR 0x9F)
          \<or> (a = CHR 0xE3 \<and> b = CHR 0x80 \<and> c = CHR 0x80)) \<and> blank es
        | [] \<Rightarrow> False)
      | [] \<Rightarrow> False)"

section \<open>Sorting\<close>

lemma insort_key_map: "insort_key f (g x) (map g xs) = map g (insort_key (\<lambda>y. f (g y)) x xs)"
  by (induction xs) auto

lemma sort_key_map: "sort_key f (map g xs) = map g (sort_key (\<lambda>y. f (g y)) xs)"
  by (induction xs) (simp_all add: insort_key_map)

lemma sort_map: "sort (map f xs) = map f (sort_key f xs)"
  by (rule sort_key_map)

lemma sort_key_mset_eq:
  assumes "mset xs = mset ys" and "distinct (map f xs)"
  shows "sort_key f xs = sort_key f ys"
proof (rule sort_key_eq_sort_key)
  show "mset xs = mset ys" by (fact assms(1))
  show "inj_on f (set xs)" using assms(2) by (simp add: distinct_map)
qed

lemma sort_mset_eq: "mset xs = mset ys \<Longrightarrow> sort xs = sort ys"
  unfolding sorted_list_of_multiset_mset [symmetric] by simp

end
