(* ===== verification/Json.thy ===== *)
theory Json
  imports Velorix_Prelude "HOL-Library.Word"
begin

text \<open>
  The JSON values that Velorix rows are made of (\<open>serde_json::Value\<close>), their equality, the
  accessors the sources call, and \<open>canonical_json\<close>, the text under which the operators of
  \<open>velorix-core\<close> index their state. \<open>serde_json\<close> is not part of the repository: how it
  prints a number and a string literal is the parameter \<open>serde\<close> of the definitions, and
  \<open>serde_ok\<close> states the documented behaviour that the proofs use. The interface
  \<open>json_printer\<close> collects what makes a printer of values self-delimiting; its main lemma
  is that printed texts agree exactly for equal values.
\<close>

section \<open>Values\<close>

text \<open>
  \<open>serde_json::Number\<close>: a \<open>u64\<close>, a negative \<open>i64\<close>, or a finite \<open>f64\<close> (its bit pattern).
  The object of a value is the list of its fields in iteration order.
\<close>

datatype number = PosInt nat | NegInt int | Float "64 word"

datatype json =
    JNull
  | JBool bool
  | JNumber number
  | JString string
  | JArray "json list"
  | JObject "(string \<times> json) list"

record serde =
  number_text :: "number \<Rightarrow> string"
  string_text :: "string \<Rightarrow> string"

text \<open>IEEE equality of finite values: equal bits, or both a zero (only the sign bit differs).\<close>

definition f64_zero :: "64 word \<Rightarrow> bool" where
  "f64_zero b \<longleftrightarrow> b = 0 \<or> b = 9223372036854775808"

definition f64_eq :: "64 word \<Rightarrow> 64 word \<Rightarrow> bool" where
  "f64_eq a b \<longleftrightarrow> a = b \<or> (f64_zero a \<and> f64_zero b)"

fun number_eq :: "number \<Rightarrow> number \<Rightarrow> bool" where
  "number_eq (PosInt a) (PosInt b) = (a = b)"
| "number_eq (NegInt a) (NegInt b) = (a = b)"
| "number_eq (Float a) (Float b) = f64_eq a b"
| "number_eq _ _ = False"

text \<open>\<open>PartialEq\<close> of values: objects compare as maps, whatever order their fields have.\<close>

fun json_eq :: "json \<Rightarrow> json \<Rightarrow> bool" where
  "json_eq JNull JNull = True"
| "json_eq (JBool a) (JBool b) = (a = b)"
| "json_eq (JNumber a) (JNumber b) = number_eq a b"
| "json_eq (JString a) (JString b) = (a = b)"
| "json_eq (JArray vs) (JArray ws) = list_all2 json_eq vs ws"
| "json_eq (JObject fs) (JObject gs) =
     (length fs = length gs \<and>
      list_all (\<lambda>(k, v). case map_of gs k of None \<Rightarrow> False | Some w \<Rightarrow> json_eq v w) fs)"
| "json_eq _ _ = False"

fun is_number :: "json \<Rightarrow> bool" where
  "is_number (JNumber _) = True"
| "is_number _ = False"

text \<open>\<open>Value::as_i64\<close>, \<open>Value::as_str\<close>, \<open>Value::as_array\<close>, \<open>Value::as_object\<close>, \<open>Value::get\<close>.\<close>

fun as_i64 :: "json \<Rightarrow> int option" where
  "as_i64 (JNumber (PosInt n)) = i64_checked (int n)"
| "as_i64 (JNumber (NegInt i)) = Some i"
| "as_i64 _ = None"

fun as_str :: "json \<Rightarrow> string option" where
  "as_str (JString s) = Some s"
| "as_str _ = None"

fun as_array :: "json \<Rightarrow> json list option" where
  "as_array (JArray vs) = Some vs"
| "as_array _ = None"

fun as_object :: "json \<Rightarrow> (string \<times> json) list option" where
  "as_object (JObject fs) = Some fs"
| "as_object _ = None"

definition json_get :: "json \<Rightarrow> string \<Rightarrow> json option" where
  "json_get v k = (case as_object v of None \<Rightarrow> None | Some fs \<Rightarrow> map_of fs k)"

text \<open>\<open>json!(i)\<close> for an \<open>i64\<close>.\<close>

definition json_of_i64 :: "int \<Rightarrow> json" where
  "json_of_i64 i = JNumber (if i < 0 then NegInt i else PosInt (nat i))"

text \<open>\<open>[a, b, c].join(",")\<close>.\<close>

fun join_comma :: "string list \<Rightarrow> string" where
  "join_comma [] = []"
| "join_comma [x] = x"
| "join_comma (x # y # zs) = x @ CHR '','' # join_comma (y # zs)"

text \<open>Decimal digits of an unsigned integer, as \<open>to_string\<close> prints them.\<close>

fun dec :: "nat \<Rightarrow> string" where
  "dec n = (if n < 10 then [char_of (48 + n)] else dec (n div 10) @ [char_of (48 + n mod 10)])"

declare dec.simps [simp del]

section \<open>Canonical text\<close>

text \<open>
  \<open>canonical_json\<close> (in \<open>operator.rs\<close> and again in \<open>native_operator.rs\<close>): scalars print as
  \<open>serde_json::to_string\<close>, the printed fields of an object are sorted.
\<close>

fun canonical_json :: "serde \<Rightarrow> json \<Rightarrow> string" where
  "canonical_json J JNull = ''null''"
| "canonical_json J (JBool b) = (if b then ''true'' else ''false'')"
| "canonical_json J (JNumber n) = number_text J n"
| "canonical_json J (JString s) = string_text J s"
| "canonical_json J (JArray vs) = CHR ''['' # join_comma (map (canonical_json J) vs) @ '']''"
| "canonical_json J (JObject fs) =
     CHR ''{'' # join_comma (sort (map (\<lambda>(k, v). string_text J k @ CHR '':'' # canonical_json J v) fs)) @ ''}''"

section \<open>Well-formed values and the behaviour of the printer\<close>

text \<open>
  A number as \<open>serde_json\<close> holds it, other than negative zero (which equals zero but prints
  differently); a value in which every object has distinct field names without a quote.
\<close>

fun number_wf :: "number \<Rightarrow> bool" where
  "number_wf (PosInt n) = (n \<le> u64_max)"
| "number_wf (NegInt i) = (i64_range i \<and> i < 0)"
| "number_wf (Float b) = (b \<noteq> 9223372036854775808)"

fun json_wf :: "json \<Rightarrow> bool" where
  "json_wf (JNumber n) = number_wf n"
| "json_wf (JArray vs) = list_all json_wf vs"
| "json_wf (JObject fs) =
     (distinct (map fst fs) \<and> list_all (\<lambda>(k, v). CHR 0x22 \<notin> set k \<and> json_wf v) fs)"
| "json_wf _ = True"

fun shape :: "json \<Rightarrow> char" where
  "shape JNull = CHR ''n''"
| "shape (JBool b) = (if b then CHR ''t'' else CHR ''f'')"
| "shape (JNumber _) = CHR ''0''"
| "shape (JString _) = CHR 0x22"
| "shape (JArray _) = CHR ''[''"
| "shape (JObject _) = CHR ''{''"

definition num_chars :: "char set" where
  "num_chars = set ''0123456789+-.eE''"

definition num_free :: "string \<Rightarrow> bool" where
  "num_free s \<longleftrightarrow> (case s of [] \<Rightarrow> True | c # _ \<Rightarrow> c \<notin> num_chars)"

text \<open>
  What the proofs use of \<open>serde_json\<close>: a number prints as a non-empty JSON number literal,
  integers in decimal, and different numbers print differently; a string prints as a quoted
  literal, and no literal is a proper prefix of another.
\<close>

definition serde_ok :: "serde \<Rightarrow> bool" where
  "serde_ok J \<longleftrightarrow>
     (\<forall>n. number_wf n \<longrightarrow> number_text J n \<noteq> [] \<and> set (number_text J n) \<subseteq> num_chars) \<and>
     (\<forall>m n. number_wf m \<longrightarrow> number_wf n \<longrightarrow> number_text J m = number_text J n \<longrightarrow> m = n) \<and>
     (\<forall>n. number_text J (PosInt n) = dec n) \<and>
     (\<forall>s. \<exists>t. string_text J s = CHR 0x22 # t) \<and>
     (\<forall>s t x y. string_text J s @ x = string_text J t @ y \<longrightarrow> s = t \<and> x = y)"

section \<open>Self-delimiting printers\<close>

lemma number_eq_wf: "number_wf m \<Longrightarrow> number_wf n \<Longrightarrow> number_eq m n \<longleftrightarrow> m = n"
  by (cases m; cases n) (auto simp: f64_eq_def f64_zero_def)

lemma json_eq_refl: "json_wf v \<Longrightarrow> json_eq v v"
proof (induction v)
  case (JNumber n)
  then show ?case by (simp add: number_eq_wf)
next
  case (JArray vs)
  then show ?case by (simp add: list_all2_same list_all_iff)
next
  case (JObject fs)
  have "json_eq v v" if "(k, v) \<in> set fs" for k v
    using JObject that by (auto simp: list_all_iff)
  with JObject.prems show ?case by (auto simp: list_all_iff)
qed auto

text \<open>
  Comma-separated items before a closing bracket: when the items are self-delimiting, equal
  texts come from equal lists.
\<close>

lemma join_comma_prefix:
  assumes "\<And>x y s t. x \<in> set xs \<Longrightarrow> y \<in> set ys \<Longrightarrow> f x @ s = f y @ t \<Longrightarrow>
      num_free s \<Longrightarrow> num_free t \<Longrightarrow> R x y \<and> s = t"
    and "\<And>x. x \<in> set xs \<union> set ys \<Longrightarrow> f x \<noteq> [] \<and> hd (f x) \<noteq> c"
    and "c \<notin> num_chars" and "c \<noteq> CHR '',''"
    and "join_comma (map f xs) @ c # s = join_comma (map f ys) @ c # t"
  shows "list_all2 R xs ys \<and> s = t"
  using assms
proof (induction xs arbitrary: ys)
  case Nil
  show ?case
  proof (cases ys)
    case (Cons y ys')
    have "hd (join_comma (map f ys) @ c # t) = hd (f y)"
      using Nil.prems(2) [of y] Cons by (cases ys') auto
    moreover have "hd (join_comma (map f ys) @ c # t) = c"
      using Nil.prems(5) by (metis append_Nil join_comma.simps(1) list.sel(1) list.simps(8))
    ultimately show ?thesis using Nil.prems(2) [of y] Cons by auto
  qed (use Nil in auto)
next
  case (Cons x xs)
  have x: "f x \<noteq> [] \<and> hd (f x) \<noteq> c" using Cons.prems(2) by auto
  obtain y ys' where ys: "ys = y # ys'"
  proof (cases ys)
    case Nil
    have "hd (join_comma (map f (x # xs)) @ c # s) = hd (f x)"
      using x by (cases xs) auto
    moreover have "hd (join_comma (map f (x # xs)) @ c # s) = c"
      using Nil Cons.prems(5) by (metis append_Nil join_comma.simps(1) list.sel(1) list.simps(8))
    ultimately show ?thesis using x by auto
  qed auto
  define rest where "rest zs u = (if zs = [] then c # u else CHR '','' # join_comma (map f zs) @ c # u)"
    for zs and u :: string
  have split: "join_comma (map f (z # zs)) @ c # u = f z @ rest zs u" for z zs u
    by (cases zs) (auto simp: rest_def)
  have free: "num_free (rest zs u)" for zs u
    using Cons.prems(3) by (auto simp: rest_def num_free_def num_chars_def)
  have "f x @ rest xs s = f y @ rest ys' t"
    using Cons.prems(5) unfolding ys split .
  then have R: "R x y" and rest: "rest xs s = rest ys' t"
    using Cons.prems(1) [of x y "rest xs s" "rest ys' t"] free ys by auto
  have tl: "join_comma (map f xs) @ c # s = join_comma (map f ys') @ c # t"
    using rest Cons.prems(4) by (auto simp: rest_def split: if_splits)
  have "list_all2 R xs ys' \<and> s = t"
    by (rule Cons.IH) (use Cons.prems tl ys in auto)
  with R ys show ?case by simp
qed

lemma json_eq_JObjectI:
  assumes "distinct (map fst gs)" and "mset fs' = mset fs" and "mset gs' = mset gs"
    and "list_all2 (\<lambda>(k, v) (l, w). k = l \<and> json_eq v w) fs' gs'"
  shows "json_eq (JObject fs) (JObject gs)"
proof -
  have len: "length fs = length gs"
    using assms(2-4) by (metis list_all2_lengthD size_mset)
  have "\<exists>w. map_of gs k = Some w \<and> json_eq v w" if "(k, v) \<in> set fs" for k v
  proof -
    from that have "(k, v) \<in> set fs'" using assms(2) by (metis set_mset_mset)
    then obtain i where i: "i < length fs'" "fs' ! i = (k, v)" by (auto simp: in_set_conv_nth)
    obtain l w where g: "gs' ! i = (l, w)" by (cases "gs' ! i")
    have "k = l \<and> json_eq v w" using list_all2_nthD [OF assms(4) i(1)] i(2) g by simp
    moreover have "(l, w) \<in> set gs"
      using i(1) g list_all2_lengthD [OF assms(4)] assms(3)
      by (metis nth_mem set_mset_mset)
    ultimately show ?thesis using assms(1) by auto
  qed
  with len show ?thesis by (fastforce simp: list_all_iff split: option.splits)
qed

lemma distinct_map_pairs: "distinct (map fst fs) \<Longrightarrow> distinct (map (\<lambda>(k, v). (k, h v)) fs)"
  by (induction fs) force+

lemma json_eq_JObject_mset:
  assumes "distinct (map fst fs)" and "distinct (map fst gs)"
    and "json_eq (JObject fs) (JObject gs)"
    and "\<And>k v w. (k, v) \<in> set fs \<Longrightarrow> (k, w) \<in> set gs \<Longrightarrow> json_eq v w \<Longrightarrow> h v = h w"
  shows "mset (map (\<lambda>(k, v). (k, h v)) fs) = mset (map (\<lambda>(k, v). (k, h v)) gs)"
    (is "mset ?f = mset ?g")
proof -
  have d: "distinct ?f" "distinct ?g"
    using assms(1,2) by (auto intro: distinct_map_pairs)
  have "set ?f \<subseteq> set ?g"
  proof (clarsimp simp: image_iff)
    fix k v assume kv: "(k, v) \<in> set fs"
    with assms(3) obtain w where w: "map_of gs k = Some w" "json_eq v w"
      by (auto simp: list_all_iff split: option.splits)
    then have "(k, w) \<in> set gs" by (auto dest: map_of_SomeD)
    with w(2) kv assms(4) show "\<exists>p \<in> set gs. (k, h v) = (case p of (k, v) \<Rightarrow> (k, h v))"
      by force
  qed
  moreover have "card (set ?f) = card (set ?g)"
    using distinct_card [OF d(1)] distinct_card [OF d(2)] assms(3) by simp
  ultimately have "set ?f = set ?g"
    by (simp add: card_subset_eq)
  with set_eq_iff_mset_eq_distinct [OF d] show ?thesis by blast
qed

locale json_printer =
  fixes pr :: "json \<Rightarrow> string"
    and nt :: "number \<Rightarrow> string"
    and st :: "string \<Rightarrow> string"
    and kt :: "string \<Rightarrow> string"
    and layout :: "(string \<times> string) list \<Rightarrow> string list"
  assumes pr_null: "pr JNull = ''null''"
    and pr_bool: "pr (JBool b) = (if b then ''true'' else ''false'')"
    and pr_number: "pr (JNumber n) = nt n"
    and pr_string: "pr (JString s) = st s"
    and pr_array: "pr (JArray vs) = CHR ''['' # join_comma (map pr vs) @ '']''"
    and pr_object: "pr (JObject fs) = CHR ''{'' # join_comma (layout (map (\<lambda>(k, v). (k, pr v)) fs)) @ ''}''"
    and nt_chars: "number_wf n \<Longrightarrow> nt n \<noteq> [] \<and> set (nt n) \<subseteq> num_chars"
    and nt_inj: "number_wf m \<Longrightarrow> number_wf n \<Longrightarrow> nt m = nt n \<Longrightarrow> m = n"
    and st_head: "\<exists>t. st s = CHR 0x22 # t"
    and st_prefix: "st s @ x = st s' @ y \<Longrightarrow> s = s' \<and> x = y"
    and kt_head: "\<exists>t. kt k = CHR 0x22 # t"
    and kt_prefix: "CHR 0x22 \<notin> set k \<Longrightarrow> CHR 0x22 \<notin> set l \<Longrightarrow> kt k @ CHR '':'' # x = kt l @ CHR '':'' # y \<Longrightarrow>
        k = l \<and> x = y"
    and layout_fields: "\<exists>gs. mset gs = mset fs \<and>
        layout (map (\<lambda>(k, v). (k, h v)) fs) = map (\<lambda>(k, v). kt k @ CHR '':'' # h v) gs"
    and layout_mset: "mset xs = mset ys \<Longrightarrow> distinct (map fst xs) \<Longrightarrow> layout xs = layout ys"
begin

lemma pr_head:
  assumes "json_wf v"
  obtains c t where "pr v = c # t" and "if is_number v then c \<in> num_chars else c = shape v"
proof (cases v)
  case (JNumber n)
  with assms have "nt n \<noteq> [] \<and> set (nt n) \<subseteq> num_chars" using nt_chars by simp
  with JNumber show ?thesis by (cases "nt n") (auto simp: pr_number intro: that)
next
  case (JString s)
  then show ?thesis using st_head [of s] by (auto simp: pr_string intro: that)
next
  case (JBool b)
  then show ?thesis by (cases b) (auto simp: pr_bool intro: that)
qed (auto simp: pr_null pr_array pr_object intro: that)

lemma pr_not_close: "json_wf v \<Longrightarrow> pr v \<noteq> [] \<and> hd (pr v) \<notin> {CHR '']'', CHR ''}''}"
  by (rule pr_head [of v], assumption) (cases v; auto simp: num_chars_def split: if_splits)

lemma pr_same_shape:
  assumes "json_wf v" and "json_wf w" and "pr v @ s = pr w @ t"
  shows "shape v = shape w"
proof -
  have num: "shape x \<in> num_chars \<longleftrightarrow> is_number x" for x
    by (cases x) (auto simp: num_chars_def)
  have zero: "shape x = CHR ''0''" if "is_number x" for x
    using that by (cases x) auto
  show ?thesis
    by (rule pr_head [OF assms(1)], rule pr_head [OF assms(2)])
      (use assms(3) num zero in \<open>auto split: if_splits\<close>)
qed

lemma nt_prefix:
  assumes "number_wf m" and "number_wf n" and "nt m @ s = nt n @ t" and "num_free s" and "num_free t"
  shows "m = n \<and> s = t"
proof -
  have take: "takeWhile (\<lambda>c. c \<in> num_chars) (nt k @ u) = nt k" if "number_wf k" "num_free u" for k u
  proof -
    have "takeWhile (\<lambda>c. c \<in> num_chars) u = []"
      using that(2) by (cases u) (auto simp: num_free_def)
    moreover have "\<forall>c \<in> set (nt k). c \<in> num_chars" using nt_chars [OF that(1)] by auto
    ultimately show ?thesis by simp
  qed
  have "nt m = nt n"
    using take [OF assms(1,4)] take [OF assms(2,5)] assms(3) by simp
  with assms nt_inj show ?thesis by auto
qed

lemma object_prefix:
  assumes IH: "\<And>k v w s t. (k, v) \<in> set fs \<Longrightarrow> json_wf w \<Longrightarrow> pr v @ s = pr w @ t \<Longrightarrow>
      num_free s \<Longrightarrow> num_free t \<Longrightarrow> json_eq v w \<and> s = t"
    and wf: "json_wf (JObject fs)" "json_wf (JObject gs)"
    and eq: "pr (JObject fs) @ s = pr (JObject gs) @ t"
  shows "json_eq (JObject fs) (JObject gs) \<and> s = t"
proof -
  let ?f = "\<lambda>(k, v). kt k @ CHR '':'' # pr v"
  obtain fs' where fs': "mset fs' = mset fs" "layout (map (\<lambda>(k, v). (k, pr v)) fs) = map ?f fs'"
    using layout_fields by blast
  obtain gs' where gs': "mset gs' = mset gs" "layout (map (\<lambda>(k, v). (k, pr v)) gs) = map ?f gs'"
    using layout_fields by blast
  have mem: "set fs' = set fs" "set gs' = set gs"
    using fs'(1) gs'(1) by (metis set_mset_mset)+
  have joined: "join_comma (map ?f fs') @ CHR ''}'' # s = join_comma (map ?f gs') @ CHR ''}'' # t"
    using eq by (simp add: pr_object fs'(2) gs'(2))
  have "list_all2 (\<lambda>(k, v) (l, w). k = l \<and> json_eq v w) fs' gs' \<and> s = t"
  proof (rule join_comma_prefix [where f = ?f and c = "CHR ''}''"])
    fix x y a b
    assume x: "x \<in> set fs'" and y: "y \<in> set gs'" and xy: "?f x @ a = ?f y @ b"
      and free: "num_free a" "num_free b"
    obtain k v l w where kv: "x = (k, v)" "y = (l, w)" by (cases x; cases y)
    have k: "CHR 0x22 \<notin> set k" "CHR 0x22 \<notin> set l" "json_wf w"
      using wf x y kv mem by (auto simp: list_all_iff)
    have "kt k @ CHR '':'' # pr v @ a = kt l @ CHR '':'' # pr w @ b" using xy kv by simp
    from kt_prefix [OF k(1,2) this] have "k = l" "pr v @ a = pr w @ b" by auto
    with IH [of k v w a b] k x kv mem free
    show "(case x of (k, v) \<Rightarrow> \<lambda>(l, w). k = l \<and> json_eq v w) y \<and> a = b" by auto
  next
    fix x
    show "?f x \<noteq> [] \<and> hd (?f x) \<noteq> CHR ''}''"
      using kt_head [of "fst x"] by (cases x) auto
  qed (use joined in \<open>auto simp: num_chars_def\<close>)
  with fs'(1) gs'(1) wf(2) show ?thesis using json_eq_JObjectI by auto
qed

lemma pr_prefix:
  assumes "json_wf v" and "json_wf w" and "pr v @ s = pr w @ t"
    and "\<not> is_number v \<or> (num_free s \<and> num_free t)"
  shows "json_eq v w \<and> s = t"
  using assms
proof (induction v arbitrary: w s t)
  case JNull
  then show ?case using pr_same_shape [OF JNull.prems(1-3)]
    by (cases w) (auto split: if_splits)
next
  case (JBool b)
  then show ?case using pr_same_shape [OF JBool.prems(1-3)]
    by (cases w) (auto split: if_splits)
next
  case (JNumber n)
  obtain m where m: "w = JNumber m"
    using pr_same_shape [OF JNumber.prems(1-3)] by (cases w) (auto split: if_splits)
  with JNumber nt_prefix [of n m s t] show ?case by (simp add: pr_number number_eq_wf)
next
  case (JString x)
  obtain y where w: "w = JString y"
    using pr_same_shape [OF JString.prems(1-3)] by (cases w) (auto split: if_splits)
  with JString.prems(3) st_prefix [of x s y t] show ?case by (simp add: pr_string)
next
  case (JArray vs)
  obtain ws where w: "w = JArray ws"
    using pr_same_shape [OF JArray.prems(1-3)] by (cases w) (auto split: if_splits)
  have "list_all2 json_eq vs ws \<and> s = t"
  proof (rule join_comma_prefix [where f = pr and c = "CHR '']''"])
    fix x y a b
    assume "x \<in> set vs" "y \<in> set ws" "pr x @ a = pr y @ b" "num_free a" "num_free b"
    with JArray w show "json_eq x y \<and> a = b" by (auto simp: list_all_iff)
  next
    fix x assume "x \<in> set vs \<union> set ws"
    with JArray.prems w have "json_wf x" by (auto simp: list_all_iff)
    then show "pr x \<noteq> [] \<and> hd (pr x) \<noteq> CHR '']''" using pr_not_close by auto
  qed (use JArray.prems w in \<open>auto simp: pr_array num_chars_def\<close>)
  with w show ?case by simp
next
  case (JObject fs)
  obtain gs where w: "w = JObject gs"
    using pr_same_shape [OF JObject.prems(1-3)] by (cases w) (auto split: if_splits)
  have "json_eq (JObject fs) (JObject gs) \<and> s = t"
  proof (rule object_prefix)
    fix k v w a b
    assume kv: "(k, v) \<in> set fs" and "json_wf w" "pr v @ a = pr w @ b" "num_free a" "num_free b"
    moreover have "json_wf v" using JObject.prems(1) kv by (auto simp: list_all_iff)
    ultimately show "json_eq v w \<and> a = b" using JObject.IH [of "(k, v)" v w a b] by auto
  next
    show "json_wf (JObject fs)" by (fact JObject.prems(1))
    show "json_wf (JObject gs)" using JObject.prems(2) unfolding w .
    show "pr (JObject fs) @ s = pr (JObject gs) @ t" using JObject.prems(3) unfolding w .
  qed
  with w show ?case by simp
qed

lemma pr_cong: "json_wf v \<Longrightarrow> json_wf w \<Longrightarrow> json_eq v w \<Longrightarrow> pr v = pr w"
proof (induction v arbitrary: w)
  case (JNumber n)
  then show ?case by (cases w) (auto simp: number_eq_wf)
next
  case (JArray vs)
  then obtain ws where w: "w = JArray ws" by (cases w) auto
  have "list_all2 json_eq vs ws" using JArray.prems(3) w by simp
  then have "list_all2 (\<lambda>x y. pr x = pr y) vs ws"
  proof (rule list.rel_mono_strong)
    fix x y assume "x \<in> set vs" "y \<in> set ws" "json_eq x y"
    with JArray.prems(1,2) w show "pr x = pr y"
      by (intro JArray.IH) (simp_all add: list_all_iff)
  qed
  then have "map pr vs = map pr ws"
    by (induction rule: list_all2_induct) simp_all
  with w show ?case by (simp add: pr_array)
next
  case (JObject fs)
  then obtain gs where w: "w = JObject gs" by (cases w) auto
  have "mset (map (\<lambda>(k, v). (k, pr v)) fs) = mset (map (\<lambda>(k, v). (k, pr v)) gs)"
  proof (rule json_eq_JObject_mset)
    fix k v x assume "(k, v) \<in> set fs" "(k, x) \<in> set gs" "json_eq v x"
    moreover from this JObject.prems(1,2) w have "json_wf v" "json_wf x"
      by (auto simp: list_all_iff)
    ultimately show "pr v = pr x" using JObject.IH [of "(k, v)" v x] by simp
  qed (use JObject.prems w in simp_all)
  moreover have "distinct (map fst (map (\<lambda>(k, v). (k, pr v)) fs))"
    using JObject.prems by (simp add: comp_def case_prod_unfold)
  ultimately have "layout (map (\<lambda>(k, v). (k, pr v)) fs) = layout (map (\<lambda>(k, v). (k, pr v)) gs)"
    by (rule layout_mset)
  with w show ?case by (simp only: pr_object)
next
  case JNull
  then show ?case by (cases w) simp_all
next
  case (JBool b)
  then show ?case by (cases w) simp_all
next
  case (JString s)
  then show ?case by (cases w) simp_all
qed

lemma pr_eq_iff: "json_wf v \<Longrightarrow> json_wf w \<Longrightarrow> pr v = pr w \<longleftrightarrow> json_eq v w"
  using pr_prefix [of v w "[]" "[]"] pr_cong [of v w] by (auto simp: num_free_def)

end

section \<open>Canonical text identifies values\<close>

text \<open>The documented behaviour of \<open>serde_json\<close> as an assumption on the parameter \<open>J\<close>.\<close>

locale serde_laws =
  fixes J :: serde
  assumes J_ok: "serde_ok J"
begin

lemma number_text_chars:
  "number_wf n \<Longrightarrow> number_text J n \<noteq> [] \<and> set (number_text J n) \<subseteq> num_chars"
  by (rule J_ok [unfolded serde_ok_def, THEN conjunct1, rule_format])

lemma number_text_inj:
  "number_wf m \<Longrightarrow> number_wf n \<Longrightarrow> number_text J m = number_text J n \<Longrightarrow> m = n"
  by (rule J_ok [unfolded serde_ok_def, THEN conjunct2, THEN conjunct1, rule_format])

lemma number_text_PosInt: "number_text J (PosInt n) = dec n"
  by (rule J_ok [unfolded serde_ok_def, THEN conjunct2, THEN conjunct2, THEN conjunct1, rule_format])

lemma string_text_head: "\<exists>t. string_text J s = CHR 0x22 # t"
  by (rule J_ok [unfolded serde_ok_def, THEN conjunct2, THEN conjunct2, THEN conjunct2,
        THEN conjunct1, rule_format])

lemma string_text_prefix: "string_text J s @ x = string_text J t @ y \<Longrightarrow> s = t \<and> x = y"
  by (rule J_ok [unfolded serde_ok_def, THEN conjunct2, THEN conjunct2, THEN conjunct2,
        THEN conjunct2, rule_format])

end

definition canonical_layout :: "serde \<Rightarrow> (string \<times> string) list \<Rightarrow> string list" where
  "canonical_layout J xs = sort (map (\<lambda>(k, t). string_text J k @ CHR '':'' # t) xs)"

lemma canonical_layout_fields:
  "canonical_layout J (map (\<lambda>(k, v). (k, h v)) fs) =
    map (\<lambda>(k, v). string_text J k @ CHR '':'' # h v)
      (sort_key (\<lambda>(k, v). string_text J k @ CHR '':'' # h v) fs)"
proof -
  have "map (\<lambda>(k, t). string_text J k @ CHR '':'' # t) (map (\<lambda>(k, v). (k, h v)) fs) =
      map (\<lambda>(k, v). string_text J k @ CHR '':'' # h v) fs"
    by (simp add: comp_def case_prod_unfold)
  then show ?thesis by (simp only: canonical_layout_def sort_map)
qed

sublocale serde_laws \<subseteq> canon: json_printer "canonical_json J" "number_text J" "string_text J"
    "string_text J" "canonical_layout J"
proof (unfold_locales, goal_cases)
  case (6 fs)
  show ?case by (simp add: canonical_layout_def comp_def case_prod_unfold)
next
  case (7 n)
  then show ?case by (rule number_text_chars)
next
  case (8 m n)
  then show ?case by (rule number_text_inj)
next
  case (9 s)
  show ?case by (rule string_text_head)
next
  case (10 s x s' y)
  then show ?case by (rule string_text_prefix)
next
  case (11 k l x y)
  from string_text_prefix [OF 11(3)] show ?case by simp
next
  case (12 fs h)
  show ?case
    by (rule exI [of _ "sort_key (\<lambda>(k, v). string_text J k @ CHR '':'' # h v) fs"])
      (rule conjI, rule mset_sort, rule canonical_layout_fields)
next
  case (13 xs ys)
  then show ?case unfolding canonical_layout_def by (intro sort_mset_eq) simp
qed simp_all

context serde_laws
begin

lemma canonical_json_eq_iff:
  "json_wf v \<Longrightarrow> json_wf w \<Longrightarrow> canonical_json J v = canonical_json J w \<longleftrightarrow> json_eq v w"
  by (rule canon.pr_eq_iff)

end

end
