(* ===== verification/Texts.thy ===== *)
theory Texts
  imports Json
begin

text \<open>
  Methods of Rust's \<open>str\<close> that the components share: splitting at a character, stripping a prefix or a
  suffix, decimal digits, and numbers printed with leading zeros to a fixed width. A text is the list of
  its bytes. Each method has one law that says exactly when it succeeds.
\<close>

section \<open>Digits\<close>

definition is_ascii_digit :: "char \<Rightarrow> bool" where
  "is_ascii_digit c \<longleftrightarrow> (of_char c :: nat) \<ge> 48 \<and> (of_char c :: nat) \<le> 57"

definition digit_val :: "char \<Rightarrow> int" where
  "digit_val c = int (of_char c) - 48"

definition digits_val :: "string \<Rightarrow> int" where
  "digits_val cs = foldl (\<lambda>a c. 10 * a + digit_val c) 0 cs"

text \<open>\<open>value.ilog10()\<close>.\<close>

fun ilog10 :: "nat \<Rightarrow> nat" where
  "ilog10 n = (if n < 10 then 0 else ilog10 (n div 10) + 1)"

declare ilog10.simps [simp del]

lemma digits_val_acc: "foldl (\<lambda>a c. 10 * a + digit_val c) n cs = n * 10 ^ length cs + digits_val cs"
proof (induction cs arbitrary: n)
  case (Cons c cs)
  from Cons.IH [of "10 * n + digit_val c"] Cons.IH [of "digit_val c"] show ?case
    by (simp add: digits_val_def algebra_simps)
qed (simp add: digits_val_def)

lemma digits_val_append: "digits_val (xs @ ys) = digits_val xs * 10 ^ length ys + digits_val ys"
  using digits_val_acc [of "digits_val xs" ys] by (simp add: digits_val_def)

lemma digits_val_zeros: "digits_val (replicate n CHR ''0'' @ cs) = digits_val cs"
  by (induction n) (simp_all add: digits_val_def digit_val_def)

lemma of_char_digit: "k < 10 \<Longrightarrow> (of_char (char_of (48 + k) :: char) :: nat) = 48 + k"
  by (simp add: take_bit_eq_mod)

lemma digit_val_digit: "k < 10 \<Longrightarrow> digit_val (char_of (48 + k)) = int k"
  using of_char_digit [of k] by (simp add: digit_val_def)

lemma digits_val_dec: "digits_val (dec n) = int n"
proof (induction n rule: dec.induct)
  case (1 n)
  show ?case
  proof (cases "n < 10")
    case True
    then show ?thesis by (subst dec.simps) (simp add: digits_val_def digit_val_digit)
  next
    case False
    with 1 have "digits_val (dec (n div 10)) = int (n div 10)" by simp
    moreover have "digits_val [char_of (48 + n mod 10)] = int (n mod 10)"
      using digit_val_digit [of "n mod 10"] by (simp add: digits_val_def)
    moreover have "int n = int (n div 10) * 10 + int (n mod 10)"
      using div_mult_mod_eq [of n 10] by linarith
    ultimately show ?thesis using False by (subst dec.simps) (simp add: digits_val_append)
  qed
qed

lemma dec_is_digit: "list_all is_ascii_digit (dec n)"
proof (induction n rule: dec.induct)
  case (1 n)
  have digit: "is_ascii_digit (char_of (48 + k))" if "k < 10" for k :: nat
    using of_char_digit [OF that] that unfolding is_ascii_digit_def by simp
  show ?case
    using 1 digit [of n] digit [of "n mod 10"] by (subst dec.simps) simp
qed

lemma length_dec: "length (dec n) = (if n = 0 then 1 else ilog10 n + 1)"
proof (induction n rule: dec.induct)
  case (1 n)
  show ?case
  proof (cases "n < 10")
    case True
    then show ?thesis by (subst dec.simps) (simp add: ilog10.simps [of n])
  next
    case False
    with 1 have "length (dec (n div 10)) = ilog10 (n div 10) + 1" by (simp add: div_eq_0_iff)
    with False show ?thesis by (subst dec.simps) (simp add: ilog10.simps [of n])
  qed
qed

lemma ilog10_bounds: "0 < n \<Longrightarrow> 10 ^ ilog10 n \<le> n \<and> n < 10 ^ (ilog10 n + 1)"
proof (induction n rule: ilog10.induct)
  case (1 n)
  show ?case
  proof (cases "n < 10")
    case True
    with 1 show ?thesis by (simp add: ilog10.simps [of n])
  next
    case False
    then have "0 < n div 10" by (simp add: div_greater_zero_iff)
    with 1 False have "10 ^ ilog10 (n div 10) \<le> n div 10" "n div 10 < 10 ^ (ilog10 (n div 10) + 1)" by auto
    then have "10 ^ (ilog10 (n div 10) + 1) \<le> n" "n < 10 ^ (ilog10 (n div 10) + 2)" by simp_all
    with False show ?thesis by (simp add: ilog10.simps [of n])
  qed
qed

lemma length_dec_le: "0 < p \<Longrightarrow> length (dec n) \<le> p \<longleftrightarrow> n < 10 ^ p"
proof (cases "n = 0")
  case False
  assume "0 < p"
  from False ilog10_bounds [of n] have b: "10 ^ ilog10 n \<le> n" "n < 10 ^ (ilog10 n + 1)" by simp_all
  show ?thesis
  proof
    assume "length (dec n) \<le> p"
    with False have "ilog10 n + 1 \<le> p" by (simp add: length_dec)
    then have "(10::nat) ^ (ilog10 n + 1) \<le> 10 ^ p" by (rule power_increasing) simp
    with b(2) show "n < 10 ^ p" by linarith
  next
    assume "n < 10 ^ p"
    with b(1) have "(10::nat) ^ ilog10 n < 10 ^ p" by linarith
    then have "ilog10 n < p" by simp
    with False show "length (dec n) \<le> p" by (simp add: length_dec)
  qed
qed (simp add: length_dec)

lemma digits_val_nonneg: "list_all is_ascii_digit cs \<Longrightarrow> 0 \<le> digits_val cs"
proof (induction cs rule: rev_induct)
  case (snoc c cs)
  then have "0 \<le> digits_val cs" "0 \<le> digit_val c" by (simp_all add: is_ascii_digit_def digit_val_def)
  then show ?case by (simp add: digits_val_append) (simp add: digits_val_def)
qed (simp add: digits_val_def)

lemma digit_of_val: "is_ascii_digit c \<Longrightarrow> c = char_of (48 + nat (digit_val c)) \<and> nat (digit_val c) < 10"
proof -
  assume "is_ascii_digit c"
  then have d: "48 + nat (digit_val c) = (of_char c :: nat)" "nat (digit_val c) < 10"
    by (auto simp: is_ascii_digit_def digit_val_def)
  then show ?thesis by (simp only: d(1)) simp
qed

lemma digits_val_bound: "list_all is_ascii_digit cs \<Longrightarrow> digits_val cs < 10 ^ length cs"
proof (induction cs rule: rev_induct)
  case (snoc c cs)
  then have "digits_val cs < 10 ^ length cs" "digit_val c \<le> 9" by (simp_all add: is_ascii_digit_def digit_val_def)
  then show ?case by (simp add: digits_val_append) (simp add: digits_val_def)
qed (simp add: digits_val_def)

lemma digits_val_inj:
  assumes "length xs = length ys" "list_all is_ascii_digit xs" "list_all is_ascii_digit ys" "digits_val xs = digits_val ys"
  shows "xs = ys"
  using assms
proof (induction xs ys rule: list_induct2)
  case (Cons x xs y ys)
  have split: "digits_val (c # cs) = digit_val c * 10 ^ length cs + digits_val cs" for c cs
    using digits_val_append [of "[c]" cs] by (simp add: digits_val_def)
  have bounds: "0 \<le> digits_val xs" "digits_val xs < 10 ^ length ys" "0 \<le> digits_val ys" "digits_val ys < 10 ^ length ys"
    using Cons digits_val_nonneg digits_val_bound [of xs] digits_val_bound [of ys] by simp_all
  have "digit_val x = (digit_val x * 10 ^ length ys + digits_val xs) div 10 ^ length ys" using bounds by simp
  also have "\<dots> = (digit_val y * 10 ^ length ys + digits_val ys) div 10 ^ length ys"
    using Cons.prems(3) Cons.hyps split [of x xs] split [of y ys] by simp
  also have "\<dots> = digit_val y" using bounds by simp
  finally have "digit_val x = digit_val y" .
  moreover from this have "xs = ys" using Cons split [of x xs] split [of y ys] by simp
  ultimately show ?case using digit_of_val [of x] digit_of_val [of y] Cons.prems by simp
qed simp

section \<open>Numbers of fixed width\<close>

text \<open>\<open>format!("{n:0width$}")\<close>.\<close>

definition pad :: "nat \<Rightarrow> nat \<Rightarrow> string" where
  "pad width n = replicate (width - length (dec n)) CHR ''0'' @ dec n"

definition is_fixed_width_digits :: "string \<Rightarrow> nat \<Rightarrow> bool" where
  "is_fixed_width_digits value width \<longleftrightarrow> length value = width \<and> list_all is_ascii_digit value"

text \<open>\<open>str::parse\<close> into an unsigned type, on a text that is known to be digits only.\<close>

definition parse_unsigned :: "nat \<Rightarrow> string \<Rightarrow> nat option" where
  "parse_unsigned max_value value =
     (if value = [] then None
      else if digits_val value \<le> int max_value then Some (nat (digits_val value)) else None)"

lemma pad_digits [simp]: "list_all is_ascii_digit (pad width n)"
  using dec_is_digit [of n] by (auto simp: pad_def list_all_iff is_ascii_digit_def)

lemma pad_val [simp]: "digits_val (pad width n) = int n"
  by (simp add: pad_def digits_val_zeros digits_val_dec)

lemma length_pad: "0 < width \<Longrightarrow> n < 10 ^ width \<Longrightarrow> length (pad width n) = width"
  using length_dec_le [of width n] by (simp add: pad_def)

lemma pad_not_Nil [simp]: "pad width n \<noteq> []"
  by (simp add: pad_def) (subst dec.simps, simp)

lemma pad_fresh: "c \<in> set (pad width n) \<Longrightarrow> is_ascii_digit c"
  using pad_digits [of width n] by (simp add: list_all_iff)

text \<open>The digit texts of a width are exactly the padded numbers.\<close>

lemma fixed_width_iff:
  assumes "0 < width"
  shows "is_fixed_width_digits value width \<and> digits_val value = int n \<longleftrightarrow> n < 10 ^ width \<and> value = pad width n"
proof
  assume a: "is_fixed_width_digits value width \<and> digits_val value = int n"
  then have "int n < 10 ^ width" using digits_val_bound [of "value"] by (auto simp: is_fixed_width_digits_def)
  then have n: "n < 10 ^ width" by (metis of_nat_less_iff of_nat_numeral of_nat_power)
  moreover have "value = pad width n"
    by (rule digits_val_inj) (use a n length_pad [OF assms] in \<open>auto simp: is_fixed_width_digits_def\<close>)
  ultimately show "n < 10 ^ width \<and> value = pad width n" by simp
qed (use assms length_pad in \<open>auto simp: is_fixed_width_digits_def\<close>)

lemma pad_inject: "0 < width \<Longrightarrow> m < 10 ^ width \<Longrightarrow> n < 10 ^ width \<Longrightarrow> pad width m = pad width n \<longleftrightarrow> m = n"
  by (metis pad_val of_nat_eq_iff)

section \<open>Stripping and splitting\<close>

definition strip_prefix :: "string \<Rightarrow> string \<Rightarrow> string option" where
  "strip_prefix prefix value = (if take (length prefix) value = prefix then Some (drop (length prefix) value) else None)"

definition strip_suffix :: "string \<Rightarrow> string \<Rightarrow> string option" where
  "strip_suffix suffix value = map_option rev (strip_prefix (rev suffix) (rev value))"

definition split_once :: "char \<Rightarrow> string \<Rightarrow> (string \<times> string) option" where
  "split_once c value = (case dropWhile (\<lambda>x. x \<noteq> c) value of
     [] \<Rightarrow> None | _ # rest \<Rightarrow> Some (takeWhile (\<lambda>x. x \<noteq> c) value, rest))"

text \<open>\<open>str::split(c)\<close>: a text without \<open>c\<close>, the empty one too, is one piece.\<close>

fun split_char :: "char \<Rightarrow> string \<Rightarrow> string list" where
  "split_char c [] = [[]]"
| "split_char c (x # xs) =
     (if x = c then [] # split_char c xs
      else (case split_char c xs of [] \<Rightarrow> [[x]] | seg # segs \<Rightarrow> (x # seg) # segs))"

fun join_char :: "char \<Rightarrow> string list \<Rightarrow> string" where
  "join_char c [] = []"
| "join_char c [seg] = seg"
| "join_char c (seg # segs) = seg @ c # join_char c segs"

lemma strip_prefix_iff: "strip_prefix p s = Some r \<longleftrightarrow> s = p @ r"
  by (auto simp: strip_prefix_def) (metis append_take_drop_id)

lemma strip_suffix_iff: "strip_suffix p s = Some r \<longleftrightarrow> s = r @ p"
  by (auto simp: strip_suffix_def strip_prefix_iff) (metis rev_append rev_rev_ident)

lemma split_once_iff: "split_once c s = Some (a, b) \<longleftrightarrow> s = a @ c # b \<and> c \<notin> set a"
proof
  assume "split_once c s = Some (a, b)"
  then obtain x where d: "dropWhile (\<lambda>x. x \<noteq> c) s = x # b" "a = takeWhile (\<lambda>x. x \<noteq> c) s"
    by (auto simp: split_once_def split: list.splits)
  then have "x = c" by (metis (full_types) dropWhile_eq_Cons_conv)
  with d show "s = a @ c # b \<and> c \<notin> set a"
    using takeWhile_dropWhile_id [of "\<lambda>x. x \<noteq> c" s] by (auto dest: set_takeWhileD)
qed (auto simp: split_once_def takeWhile_tail dropWhile_append)

lemma split_char_not_Nil [simp]: "split_char c s \<noteq> []"
  by (induction s) (auto split: list.splits)

lemma join_split: "join_char c (split_char c s) = s"
proof (induction s)
  case (Cons x s)
  obtain seg segs where s: "split_char c s = seg # segs" by (cases "split_char c s") auto
  with Cons show ?case by (cases segs) auto
qed simp

lemma split_char_fresh: "seg \<in> set (split_char c s) \<Longrightarrow> c \<notin> set seg"
  by (induction s arbitrary: seg) (auto split: list.splits if_splits)

lemma split_char_append: "c \<notin> set a \<Longrightarrow> split_char c (a @ c # s) = a # split_char c s"
  by (induction a) auto

lemma split_char_single: "c \<notin> set a \<Longrightarrow> split_char c a = [a]"
  by (induction a) auto

lemma split_char_iff:
  "split_char c s = segs \<longleftrightarrow> segs \<noteq> [] \<and> (\<forall>seg \<in> set segs. c \<notin> set seg) \<and> s = join_char c segs"
proof
  assume "segs \<noteq> [] \<and> (\<forall>seg \<in> set segs. c \<notin> set seg) \<and> s = join_char c segs"
  moreover have "segs \<noteq> [] \<Longrightarrow> \<forall>seg \<in> set segs. c \<notin> set seg \<Longrightarrow> split_char c (join_char c segs) = segs"
    by (induction c segs rule: join_char.induct) (auto simp: split_char_append split_char_single)
  ultimately show "split_char c s = segs" by simp
qed (auto simp: join_split dest: split_char_fresh)

end
