(* ===== verification/Delta.thy ===== *)
theory Delta
  imports Codec
begin

text \<open>
  Signed delta batches of \<open>velorix-core/src/delta.rs\<close>: records with an \<open>i64\<close> weight, the
  checked inverse and difference, and consolidation (\<open>net_rows\<close>, \<open>net_row_count\<close>), which sums
  the weights of equal rows in \<open>i128\<close> and fails when a sum does not fit \<open>i64\<close>. The abstract
  meaning of a batch is the signed multiset \<open>zw\<close>, a weight for every row identity; the lemmas
  say that consolidation keeps it and yields its unique sorted representation.
\<close>

section \<open>Definitions\<close>

datatype delta_error = DeltaWeightOverflow

record delta_record =
  rec_key :: json
  rec_value :: json
  rec_weight :: int

type_synonym delta_batch = "delta_record list"

definition delta_record_new :: "json \<Rightarrow> json \<Rightarrow> int \<Rightarrow> delta_record" where
  "delta_record_new k v w = \<lparr>rec_key = k, rec_value = v, rec_weight = w\<rparr>"

definition record_inverse :: "delta_record \<Rightarrow> (delta_error, delta_record) result" where
  "record_inverse r =
     rbind (ok_or DeltaWeightOverflow (i64_checked (- rec_weight r)))
       (\<lambda>w. Inr (delta_record_new (rec_key r) (rec_value r) w))"

definition batch_combine :: "delta_batch \<Rightarrow> delta_batch \<Rightarrow> delta_batch" where
  "batch_combine self other = self @ other"

definition batch_inverse :: "delta_batch \<Rightarrow> (delta_error, delta_batch) result" where
  "batch_inverse self = rmap_list record_inverse self"

definition batch_diff :: "delta_batch \<Rightarrow> delta_batch \<Rightarrow> (delta_error, delta_batch) result" where
  "batch_diff self other = rbind (rmap_list record_inverse self) (\<lambda>records. Inr (records @ other))"

text \<open>The identity under which \<open>net_rows\<close> consolidates.\<close>

definition enc :: "serde \<Rightarrow> delta_record \<Rightarrow> string" where
  "enc J r = encode_kv_ordered J (rec_key r) (rec_value r)"

text \<open>One iteration of the loop of \<open>net_rows\<close>: \<open>entry\<close>, \<open>or_insert_with\<close>, \<open>checked_add\<close>.\<close>

definition net_add :: "serde \<Rightarrow> delta_record \<Rightarrow> (string, json \<times> json \<times> int) btree_map \<Rightarrow>
    (delta_error, (string, json \<times> json \<times> int) btree_map) result" where
  "net_add J r net =
     (case (case bt_get net (enc J r) of None \<Rightarrow> (rec_key r, rec_value r, 0) | Some e \<Rightarrow> e) of
        (k, v, w) \<Rightarrow> rbind (ok_or DeltaWeightOverflow (i128_checked (w + rec_weight r)))
          (\<lambda>w'. Inr (bt_insert (enc J r) (k, v, w') net)))"

definition net_emit :: "string \<times> json \<times> json \<times> int \<Rightarrow> (delta_error, delta_record option) result" where
  "net_emit e = (case e of (_, k, v, w) \<Rightarrow>
     if w = 0 then Inr None
     else rbind (ok_or DeltaWeightOverflow (i64_checked w)) (\<lambda>w'. Inr (Some (delta_record_new k v w'))))"

definition net_rows :: "serde \<Rightarrow> delta_batch \<Rightarrow> (delta_error, delta_batch) result" where
  "net_rows J records = rbind (rfold (net_add J) records []) (rfilter_map net_emit)"

definition count_add :: "serde \<Rightarrow> delta_record \<Rightarrow> (string, int) btree_map \<Rightarrow>
    (delta_error, (string, int) btree_map) result" where
  "count_add J r weights =
     rbind (ok_or DeltaWeightOverflow
         (i128_checked ((case bt_get weights (enc J r) of None \<Rightarrow> 0 | Some w \<Rightarrow> w) + rec_weight r)))
       (\<lambda>w. Inr (bt_insert (enc J r) w weights))"

definition count_step :: "string \<times> int \<Rightarrow> nat \<Rightarrow> (delta_error, nat) result" where
  "count_step e n =
     (if snd e \<noteq> 0 then rbind (ok_or DeltaWeightOverflow (i64_checked (snd e))) (\<lambda>_. Inr (n + 1))
      else Inr n)"

definition net_row_count :: "serde \<Rightarrow> delta_batch \<Rightarrow> (delta_error, nat) result" where
  "net_row_count J records =
     rbind (rfold (count_add J) records []) (\<lambda>weights. rfold count_step weights 0)"

text \<open>\<open>canonical_record\<close> of \<open>native_operator.rs\<close>.\<close>

definition canonical_record :: "serde \<Rightarrow> delta_record \<Rightarrow> string \<times> string" where
  "canonical_record J r = (canonical_json J (rec_key r), canonical_json J (rec_value r))"

text \<open>A small batch for concrete runs.\<close>

definition sample_batch :: delta_batch where
  "sample_batch =
     [delta_record_new (JString ''a'') (JNumber (PosInt 12)) 3,
      delta_record_new (JString ''b'') (JObject [(''x'', JNull)]) 3,
      delta_record_new (JString ''a'') (JNumber (PosInt 12)) (- 1)]"

section \<open>The meaning of a batch\<close>

text \<open>
  The weight of a row identity in a batch, over the encodings of \<open>net_rows\<close> and over
  canonical texts. On well-formed rows both identities coincide.
\<close>

definition enc_weight :: "serde \<Rightarrow> delta_batch \<Rightarrow> string \<Rightarrow> int" where
  "enc_weight J rs e = (\<Sum>r\<leftarrow>rs. if enc J r = e then rec_weight r else 0)"

definition zw :: "serde \<Rightarrow> delta_batch \<Rightarrow> string \<times> string \<Rightarrow> int" where
  "zw J rs x = (\<Sum>r\<leftarrow>rs. if canonical_record J r = x then rec_weight r else 0)"

definition row_wf :: "delta_record \<Rightarrow> bool" where
  "row_wf r \<longleftrightarrow> pair_wf (rec_key r) (rec_value r) \<and> i64_range (rec_weight r)"

definition batch_wf :: "delta_batch \<Rightarrow> bool" where
  "batch_wf rs \<longleftrightarrow> list_all row_wf rs"

definition net_weight :: "(string, json \<times> json \<times> int) btree_map \<Rightarrow> string \<Rightarrow> int" where
  "net_weight net e = (case bt_get net e of None \<Rightarrow> 0 | Some (_, _, w) \<Rightarrow> w)"

lemma enc_weight_simps [simp]:
  "enc_weight J [] e = 0"
  "enc_weight J (r # rs) e = (if enc J r = e then rec_weight r else 0) + enc_weight J rs e"
  "enc_weight J (rs @ ss) e = enc_weight J rs e + enc_weight J ss e"
  by (simp_all add: enc_weight_def)

lemma zw_simps [simp]:
  "zw J [] x = 0"
  "zw J (r # rs) x = (if canonical_record J r = x then rec_weight r else 0) + zw J rs x"
  "zw J (rs @ ss) x = zw J rs x + zw J ss x"
  by (simp_all add: zw_def)

lemma batch_wf_simps [simp]:
  "batch_wf []" "batch_wf (r # rs) \<longleftrightarrow> row_wf r \<and> batch_wf rs"
  "batch_wf (rs @ ss) \<longleftrightarrow> batch_wf rs \<and> batch_wf ss"
  by (simp_all add: batch_wf_def)

lemma batch_wf_iff: "batch_wf rs \<longleftrightarrow> (\<forall>r \<in> set rs. row_wf r)"
  by (simp add: batch_wf_def list_all_iff)

lemma delta_record_new_simps [simp]:
  "rec_key (delta_record_new k v w) = k" "rec_value (delta_record_new k v w) = v"
  "rec_weight (delta_record_new k v w) = w"
  by (simp_all add: delta_record_new_def)

lemma delta_record_new_eta [simp]: "delta_record_new (rec_key r) (rec_value r) (rec_weight r) = r"
  by (simp add: delta_record_new_def)

lemma record_ids_cong:
  "rec_key r = rec_key s \<Longrightarrow> rec_value r = rec_value s \<Longrightarrow> enc J r = enc J s"
  "rec_key r = rec_key s \<Longrightarrow> rec_value r = rec_value s \<Longrightarrow> canonical_record J r = canonical_record J s"
  by (simp_all add: enc_def canonical_record_def)

lemma enc_weight_absent: "(\<And>r. r \<in> set rs \<Longrightarrow> enc J r \<noteq> e) \<Longrightarrow> enc_weight J rs e = 0"
  by (induction rs) auto

lemma zw_absent: "(\<And>r. r \<in> set rs \<Longrightarrow> canonical_record J r \<noteq> x) \<Longrightarrow> zw J rs x = 0"
  by (induction rs) auto

section \<open>Consolidation\<close>

text \<open>
  The accumulator after some records: sorted, every entry stems from one of them, and the
  weight under an encoding is the sum over the records with that encoding.
\<close>

definition net_inv :: "serde \<Rightarrow> delta_batch \<Rightarrow> (string, json \<times> json \<times> int) btree_map \<Rightarrow> bool" where
  "net_inv J rs net \<longleftrightarrow> bt_wf net \<and>
     (\<forall>e k v w. bt_get net e = Some (k, v, w) \<longrightarrow>
        (\<exists>r \<in> set rs. e = enc J r \<and> k = rec_key r \<and> v = rec_value r)) \<and>
     (\<forall>r \<in> set rs. bt_get net (enc J r) \<noteq> None) \<and>
     (\<forall>e. net_weight net e = enc_weight J rs e)"

lemma net_inv_step:
  assumes "net_inv J rs net" and "net_add J r net = Inr net'"
  shows "net_inv J (rs @ [r]) net'"
proof -
  obtain k v w where old: "(case bt_get net (enc J r) of None \<Rightarrow> (rec_key r, rec_value r, 0) | Some e \<Rightarrow> e) = (k, v, w)"
    by (metis prod_cases3)
  from assms(2) old have net': "net' = bt_insert (enc J r) (k, v, w + rec_weight r) net"
    by (auto simp: net_add_def res_simps)
  have w: "net_weight net (enc J r) = w"
    using old by (auto simp: net_weight_def split: option.splits)
  have kv: "\<exists>s \<in> set (rs @ [r]). enc J r = enc J s \<and> k = rec_key s \<and> v = rec_value s"
    using old assms(1) by (fastforce simp: net_inv_def split: option.splits)
  have "net_weight net' e = enc_weight J (rs @ [r]) e" for e
    using assms(1) w by (auto simp: net' net_inv_def net_weight_def)
  with assms(1) kv show ?thesis
    unfolding net_inv_def net' by auto
qed

lemma net_inv_fold: "net_inv J ss net \<Longrightarrow> rfold (net_add J) rs net = Inr net' \<Longrightarrow> net_inv J (ss @ rs) net'"
proof (induction rs arbitrary: ss net)
  case (Cons r rs)
  then obtain net1 where "net_add J r net = Inr net1" "rfold (net_add J) rs net1 = Inr net'"
    by (auto simp: res_simps)
  with Cons net_inv_step [of J ss net r net1] show ?case by fastforce
qed simp

lemma net_inv_Nil: "net_inv J [] []"
  by (simp add: net_inv_def net_weight_def)

lemma net_fold_inv: "rfold (net_add J) rs [] = Inr net \<Longrightarrow> net_inv J rs net"
  using net_inv_fold [OF net_inv_Nil] by fastforce

definition net_entry_record :: "string \<times> json \<times> json \<times> int \<Rightarrow> delta_record" where
  "net_entry_record e = (case e of (_, k, v, w) \<Rightarrow> delta_record_new k v w)"

definition net_live :: "string \<times> json \<times> json \<times> int \<Rightarrow> bool" where
  "net_live e \<longleftrightarrow> snd (snd (snd e)) \<noteq> 0"

lemma net_emit_filter_map:
  "rfilter_map net_emit net = Inr out \<longleftrightarrow>
    (\<forall>e \<in> set net. i64_range (snd (snd (snd e)))) \<and> out = map net_entry_record (filter net_live net)"
proof (induction net arbitrary: out)
  case (Cons e net)
  then show ?case
    by (cases e) (auto simp: res_simps net_emit_def net_entry_record_def net_live_def)
qed auto

lemma net_emit_error: "rfilter_map net_emit net = Inl err \<Longrightarrow> err = DeltaWeightOverflow"
  by (cases err) simp

lemma net_rows_Inr:
  assumes "net_rows J rs = Inr out"
  obtains net where "net_inv J rs net" and "out = map net_entry_record (filter net_live net)"
    and "\<forall>e \<in> set net. i64_range (snd (snd (snd e)))"
  using assms net_fold_inv net_emit_filter_map unfolding net_rows_def by (auto simp: res_simps)

lemma net_inv_entry:
  assumes "net_inv J rs net" and "e \<in> set net"
  shows "enc J (net_entry_record e) = fst e" and "rec_weight (net_entry_record e) = enc_weight J rs (fst e)"
    and "\<exists>r \<in> set rs. rec_key (net_entry_record e) = rec_key r \<and> rec_value (net_entry_record e) = rec_value r"
proof -
  obtain f k v w where e: "e = (f, k, v, w)" by (metis prod_cases4)
  have get: "bt_get net f = Some (k, v, w)"
    using assms bt.in_entries_iff [of net f "(k, v, w)"] by (simp add: net_inv_def e)
  with assms(1) obtain r where r: "r \<in> set rs" "f = enc J r" "k = rec_key r" "v = rec_value r"
    unfolding net_inv_def by blast
  show "enc J (net_entry_record e) = fst e"
    using r by (simp add: e net_entry_record_def enc_def)
  show "\<exists>r \<in> set rs. rec_key (net_entry_record e) = rec_key r \<and> rec_value (net_entry_record e) = rec_value r"
    using r by (auto simp: e net_entry_record_def)
  have "net_weight net f = enc_weight J rs f" using assms(1) by (simp add: net_inv_def)
  with get show "rec_weight (net_entry_record e) = enc_weight J rs (fst e)"
    by (simp add: e net_entry_record_def net_weight_def)
qed

text \<open>What \<open>net_rows\<close> returns, whatever the rows are.\<close>

definition net_of :: "serde \<Rightarrow> delta_batch \<Rightarrow> delta_batch \<Rightarrow> bool" where
  "net_of J rs out \<longleftrightarrow>
     sorted_wrt (<) (map (enc J) out) \<and>
     (\<forall>r \<in> set out. rec_weight r \<noteq> 0 \<and> i64_range (rec_weight r) \<and>
        (\<exists>s \<in> set rs. rec_key r = rec_key s \<and> rec_value r = rec_value s)) \<and>
     (\<forall>e. enc_weight J out e = enc_weight J rs e)"

lemma enc_weight_distinct:
  "distinct (map (enc J) out) \<Longrightarrow> r \<in> set out \<Longrightarrow> enc_weight J out (enc J r) = rec_weight r"
proof (induction out)
  case (Cons s out)
  show ?case
  proof (cases "r = s")
    case True
    have "enc_weight J out (enc J s) = 0"
      using Cons.prems(1) by (intro enc_weight_absent) (auto simp: image_iff)
    with True show ?thesis by simp
  next
    case False
    with Cons show ?thesis by auto
  qed
qed simp

lemma net_rows_sound:
  assumes "net_rows J rs = Inr out"
  shows "net_of J rs out"
proof -
  from assms obtain net where inv: "net_inv J rs net" and out: "out = map net_entry_record (filter net_live net)"
    and rng: "\<forall>e \<in> set net. i64_range (snd (snd (snd e)))"
    by (rule net_rows_Inr)
  have encs: "map (enc J) out = map fst (filter net_live net)"
    using net_inv_entry(1) [OF inv] by (auto simp: out)
  have "sorted_wrt (<) (map fst net)"
    using inv by (simp add: net_inv_def bt_wf_def)
  then have sorted: "sorted_wrt (<) (map (enc J) out)"
    by (simp add: encs sorted_wrt_map sorted_wrt_filter)
  have rows: "rec_weight r \<noteq> 0 \<and> i64_range (rec_weight r) \<and>
      (\<exists>s \<in> set rs. rec_key r = rec_key s \<and> rec_value r = rec_value s)" if "r \<in> set out" for r
  proof -
    from that out obtain e where e: "e \<in> set net" "net_live e" "r = net_entry_record e" by auto
    then have "rec_weight r = snd (snd (snd e))"
      by (simp add: net_entry_record_def case_prod_unfold)
    with e rng net_inv_entry(3) [OF inv e(1)] show ?thesis by (simp add: net_live_def)
  qed
  have "enc_weight J out e = enc_weight J rs e" for e
  proof (cases "\<exists>r \<in> set out. enc J r = e")
    case True
    then obtain r where r: "r \<in> set out" "enc J r = e" by blast
    from r(1) out obtain f where f: "f \<in> set net" "r = net_entry_record f" by auto
    have "enc_weight J out e = rec_weight r"
      using enc_weight_distinct [of J out r] sorted r by (simp add: strict_sorted_iff)
    also have "\<dots> = enc_weight J rs e"
      using net_inv_entry(1,2) [OF inv f(1)] f(2) r(2) by simp
    finally show ?thesis .
  next
    case False
    then have "enc_weight J out e = 0" by (intro enc_weight_absent) auto
    moreover have "enc_weight J rs e = 0"
    proof (cases "bt_get net e")
      case None
      with inv have "\<And>r. r \<in> set rs \<Longrightarrow> enc J r \<noteq> e" by (auto simp: net_inv_def)
      then show ?thesis by (rule enc_weight_absent)
    next
      case (Some kvw)
      then have mem: "(e, kvw) \<in> set net" using inv bt.in_entries_iff by (metis net_inv_def)
      have "net_entry_record (e, kvw) \<in> set out" if "net_live (e, kvw)"
        unfolding out using mem that by simp
      then have "\<not> net_live (e, kvw)"
        using False net_inv_entry(1) [OF inv mem] by auto
      moreover have "net_weight net e = enc_weight J rs e" using inv by (simp add: net_inv_def)
      ultimately show ?thesis using Some by (cases kvw) (simp add: net_weight_def net_live_def)
    qed
    ultimately show ?thesis by simp
  qed
  with sorted rows show ?thesis by (simp add: net_of_def)
qed

text \<open>The partial sums never leave \<open>i128\<close>: a batch has at most \<open>u64_max\<close> records.\<close>

definition net_bounded :: "nat \<Rightarrow> (string, json \<times> json \<times> int) btree_map \<Rightarrow> bool" where
  "net_bounded n net \<longleftrightarrow> (\<forall>e. \<bar>net_weight net e\<bar> \<le> int n * 9223372036854775808)"

lemma net_add_bounded:
  assumes "net_bounded n net" and "n < u64_max" and "i64_range (rec_weight r)"
  shows "\<exists>net'. net_add J r net = Inr net' \<and> net_bounded (Suc n) net'"
proof -
  obtain k v w where old: "(case bt_get net (enc J r) of None \<Rightarrow> (rec_key r, rec_value r, 0) | Some e \<Rightarrow> e) = (k, v, w)"
    by (metis prod_cases3)
  have w: "net_weight net (enc J r) = w"
    using old by (auto simp: net_weight_def split: option.splits)
  then have "\<bar>w\<bar> \<le> int n * 9223372036854775808" using assms(1) by (auto simp: net_bounded_def)
  with assms(3) have sum: "\<bar>w + rec_weight r\<bar> \<le> int (Suc n) * 9223372036854775808"
    by (auto simp: i64_range_def)
  have "int (Suc n) \<le> 18446744073709551615" using assms(2) by (simp add: u64_max_def)
  with sum have "i128_range (w + rec_weight r)" by (auto simp: i128_range_def)
  then have "net_add J r net = Inr (bt_insert (enc J r) (k, v, w + rec_weight r) net)"
    by (simp add: net_add_def old i128_checked_def)
  moreover have "net_bounded (Suc n) (bt_insert (enc J r) (k, v, w + rec_weight r) net)"
    using assms(1) sum unfolding net_bounded_def
    by (force simp: net_weight_def split: option.splits)
  ultimately show ?thesis by blast
qed

lemma net_fold_total:
  "net_bounded n net \<Longrightarrow> n + length rs \<le> u64_max \<Longrightarrow> \<forall>r \<in> set rs. i64_range (rec_weight r) \<Longrightarrow>
    \<exists>net'. rfold (net_add J) rs net = Inr net'"
proof (induction rs arbitrary: n net)
  case (Cons r rs)
  then obtain net1 where 1: "net_add J r net = Inr net1" "net_bounded (Suc n) net1"
    using net_add_bounded [of n net r J] by auto
  with Cons.IH [OF 1(2)] Cons.prems show ?case by auto
qed auto

lemma net_bounded_Nil: "net_bounded 0 []"
  by (simp add: net_bounded_def net_weight_def)

lemma net_rows_total:
  assumes "\<forall>r \<in> set rs. i64_range (rec_weight r)" and "length rs \<le> u64_max"
  shows "(\<exists>out. net_rows J rs = Inr out) \<longleftrightarrow> (\<forall>e. i64_range (enc_weight J rs e))"
proof -
  obtain net where net: "rfold (net_add J) rs [] = Inr net"
    using net_fold_total [OF net_bounded_Nil] assms by fastforce
  have inv: "net_inv J rs net" by (rule net_fold_inv [OF net])
  have "(\<exists>out. net_rows J rs = Inr out) \<longleftrightarrow> (\<forall>e \<in> set net. i64_range (snd (snd (snd e))))"
    by (simp add: net_rows_def net net_emit_filter_map)
  also have "\<dots> \<longleftrightarrow> (\<forall>e. i64_range (enc_weight J rs e))"
  proof
    assume rng: "\<forall>e \<in> set net. i64_range (snd (snd (snd e)))"
    show "\<forall>e. i64_range (enc_weight J rs e)"
    proof
      fix e
      have "net_weight net e = enc_weight J rs e" using inv by (simp add: net_inv_def)
      moreover have "i64_range (net_weight net e)"
      proof (cases "bt_get net e")
        case (Some kvw)
        then have "(e, kvw) \<in> set net" by (rule map_of_SomeD)
        with rng have "i64_range (snd (snd (snd (e, kvw))))" by (rule bspec)
        with Some show ?thesis by (simp add: net_weight_def case_prod_unfold)
      qed (simp add: net_weight_def)
      ultimately show "i64_range (enc_weight J rs e)" by simp
    qed
  next
    assume all: "\<forall>e. i64_range (enc_weight J rs e)"
    show "\<forall>e \<in> set net. i64_range (snd (snd (snd e)))"
    proof
      fix e assume "e \<in> set net"
      from net_inv_entry(2) [OF inv this] have "snd (snd (snd e)) = enc_weight J rs (fst e)"
        by (simp add: net_entry_record_def case_prod_unfold)
      with all show "i64_range (snd (snd (snd e)))" by simp
    qed
  qed
  finally show ?thesis .
qed

text \<open>Consolidated batches are determined by the weights: sorting leaves no choice.\<close>

lemma net_of_unique_ids:
  assumes "net_of J rs out" and "net_of J rs' out'" and "\<And>e. enc_weight J rs e = enc_weight J rs' e"
  shows "map (\<lambda>r. (enc J r, rec_weight r)) out = map (\<lambda>r. (enc J r, rec_weight r)) out'"
proof -
  have sub: "set (map (\<lambda>r. (enc J r, rec_weight r)) a) \<subseteq> set (map (\<lambda>r. (enc J r, rec_weight r)) b)"
    if "net_of J s a" "net_of J t b" "\<And>e. enc_weight J s e = enc_weight J t e" for s t a b
  proof (clarsimp simp: image_iff)
    fix r assume r: "r \<in> set a"
    have "enc_weight J a (enc J r) = rec_weight r"
      using that(1) r by (intro enc_weight_distinct) (simp_all add: net_of_def strict_sorted_iff)
    then have w: "enc_weight J b (enc J r) = rec_weight r"
      using that by (simp add: net_of_def)
    have "rec_weight r \<noteq> 0" using that(1) r by (simp add: net_of_def)
    with w obtain q where q: "q \<in> set b" "enc J q = enc J r"
      using enc_weight_absent [of b J "enc J r"] by metis
    have "enc_weight J b (enc J q) = rec_weight q"
      using that(2) q(1) by (intro enc_weight_distinct) (simp_all add: net_of_def strict_sorted_iff)
    with w q(2) have "enc J r = enc J q \<and> rec_weight r = rec_weight q" by simp
    with q(1) show "\<exists>x \<in> set b. enc J r = enc J x \<and> rec_weight r = rec_weight x" by blast
  qed
  have d: "distinct (map fst (map (\<lambda>r. (enc J r, rec_weight r)) a))"
    "sorted (map fst (map (\<lambda>r. (enc J r, rec_weight r)) a))" if "net_of J s a" for s a
    using that by (simp_all add: net_of_def strict_sorted_iff comp_def)
  have eq: "set (map (\<lambda>r. (enc J r, rec_weight r)) out) = set (map (\<lambda>r. (enc J r, rec_weight r)) out')"
    using sub [OF assms] sub [OF assms(2,1)] assms(3) by auto
  show ?thesis
  proof (rule map_sorted_distinct_set_unique [where f = fst])
    show "inj_on fst (set (map (\<lambda>r. (enc J r, rec_weight r)) out) \<union>
        set (map (\<lambda>r. (enc J r, rec_weight r)) out'))"
      unfolding eq using d(1) [OF assms(2)] distinct_map [of fst] by (metis Un_absorb)
  qed (fact d(2) [OF assms(1)] d(1) [OF assms(1)] d(2) [OF assms(2)] d(1) [OF assms(2)] eq)+
qed

section \<open>Counting rows, inverses, and consolidated batches\<close>

lemma count_add_sim:
  "count_add J r (map (\<lambda>(e, x). (e, snd (snd x))) net) =
    (case net_add J r net of Inl err \<Rightarrow> Inl err | Inr net' \<Rightarrow> Inr (map (\<lambda>(e, x). (e, snd (snd x))) net'))"
proof -
  obtain k v w where old: "(case bt_get net (enc J r) of None \<Rightarrow> (rec_key r, rec_value r, 0) | Some e \<Rightarrow> e) = (k, v, w)"
    by (metis prod_cases3)
  then have "(case bt_get (map (\<lambda>(e, x). (e, snd (snd x))) net) (enc J r) of None \<Rightarrow> 0 | Some w \<Rightarrow> w) = w"
    by (auto simp: bt_get_map split: option.splits)
  with old bt_insert_map [of "enc J r" "\<lambda>x. snd (snd x)" "(k, v, w + rec_weight r)" net] show ?thesis
    by (auto simp: count_add_def net_add_def i128_checked_def)
qed

lemma count_fold_sim:
  "rfold (count_add J) rs (map (\<lambda>(e, x). (e, snd (snd x))) net) =
    (case rfold (net_add J) rs net of Inl err \<Rightarrow> Inl err | Inr net' \<Rightarrow> Inr (map (\<lambda>(e, x). (e, snd (snd x))) net'))"
proof (induction rs arbitrary: net)
  case (Cons r rs)
  show ?case
  proof (cases "net_add J r net")
    case (Inl e)
    then show ?thesis by (simp add: count_add_sim)
  next
    case (Inr net1)
    then show ?thesis using Cons.IH [of net1] by (simp add: count_add_sim)
  qed
qed simp

lemma count_step_pair:
  "count_step (f, w) n = (if w = 0 then Inr n else if i64_range w then Inr (Suc n) else Inl DeltaWeightOverflow)"
  by (simp add: count_step_def i64_checked_def)

lemma net_emit_tuple:
  "net_emit (f, k, v, w) = (if w = 0 then Inr None else if i64_range w then Inr (Some (delta_record_new k v w))
     else Inl DeltaWeightOverflow)"
  by (simp add: net_emit_def i64_checked_def)

lemma count_step_sim:
  "rfold count_step (map (\<lambda>(e, x). (e, snd (snd x))) net) n =
    (case rfilter_map net_emit net of Inl err \<Rightarrow> Inl err | Inr out \<Rightarrow> Inr (n + length out))"
proof (induction net arbitrary: n)
  case (Cons e net)
  obtain f k v w where e: "e = (f, k, v, w)" by (metis prod_cases4)
  show ?case
    using Cons.IH [of n] Cons.IH [of "Suc n"]
    by (cases "rfilter_map net_emit net"; cases "i64_range w"; cases "w = 0")
      (simp_all add: e count_step_pair net_emit_tuple)
qed simp

lemma net_row_count_length:
  "net_row_count J rs = (case net_rows J rs of Inl err \<Rightarrow> Inl err | Inr out \<Rightarrow> Inr (length out))"
proof (cases "rfold (net_add J) rs []")
  case (Inl e)
  with count_fold_sim [of J rs "[]"] show ?thesis by (simp add: net_row_count_def net_rows_def)
next
  case (Inr net)
  with count_fold_sim [of J rs "[]"] count_step_sim [of net 0] show ?thesis
    by (simp add: net_row_count_def net_rows_def cong: sum.case_cong)
qed

lemma record_inverse_Inr:
  "record_inverse r = Inr s \<longleftrightarrow> i64_range (- rec_weight r) \<and>
    s = delta_record_new (rec_key r) (rec_value r) (- rec_weight r)"
  by (auto simp: record_inverse_def res_simps)

lemma batch_inverse_weights:
  assumes "rmap_list record_inverse rs = Inr neg"
  shows "enc_weight J neg e = - enc_weight J rs e" and "zw J neg x = - zw J rs x"
    and "length neg = length rs" and "batch_wf rs \<Longrightarrow> batch_wf neg"
proof -
  have "list_all2 (\<lambda>r s. record_inverse r = Inr s) rs neg"
    using assms by (simp add: rmap_list_eq_Inr)
  then have "enc_weight J neg e = - enc_weight J rs e \<and> zw J neg x = - zw J rs x \<and>
      length neg = length rs \<and> (batch_wf rs \<longrightarrow> batch_wf neg)"
    by (induction rule: list_all2_induct)
      (auto simp: record_inverse_Inr enc_def canonical_record_def row_wf_def)
  then show "enc_weight J neg e = - enc_weight J rs e" "zw J neg x = - zw J rs x"
    "length neg = length rs" "batch_wf rs \<Longrightarrow> batch_wf neg" by auto
qed

text \<open>A batch that is sorted, without zero weights, is its own consolidation.\<close>

definition consolidated :: "serde \<Rightarrow> delta_batch \<Rightarrow> bool" where
  "consolidated J rs \<longleftrightarrow> sorted_wrt (<) (map (enc J) rs) \<and>
     list_all (\<lambda>r. rec_weight r \<noteq> 0 \<and> i64_range (rec_weight r)) rs"

lemma net_fold_sorted:
  assumes "sorted_wrt (<) (map fst net @ map (enc J) rs)"
    and "list_all (\<lambda>r. rec_weight r \<noteq> 0 \<and> i64_range (rec_weight r)) rs"
  shows "rfold (net_add J) rs net = Inr (net @ map (\<lambda>r. (enc J r, rec_key r, rec_value r, rec_weight r)) rs)"
  using assms
proof (induction rs arbitrary: net)
  case (Cons r rs)
  let ?e = "(enc J r, rec_key r, rec_value r, rec_weight r)"
  have new: "fst x < enc J r" if "x \<in> set net" for x
    using Cons.prems(1) that by (auto simp: sorted_wrt_append)
  then have "bt_get net (enc J r) = None" by (fastforce simp: map_of_eq_None_iff)
  moreover have "i128_range (rec_weight r)" using Cons.prems(2) by (simp add: i64_range_i128)
  ultimately have "net_add J r net = Inr (bt_insert (enc J r) (rec_key r, rec_value r, rec_weight r) net)"
    by (simp add: net_add_def i128_checked_def)
  also have "bt_insert (enc J r) (rec_key r, rec_value r, rec_weight r) net = net @ [?e]"
    by (rule bt_insert_snoc [OF new])
  finally have "net_add J r net = Inr (net @ [?e])" .
  with Cons.IH [of "net @ [?e]"] Cons.prems show ?case by simp
qed simp

lemma consolidated_net_rows:
  assumes "consolidated J rs"
  shows "net_rows J rs = Inr rs"
proof -
  let ?net = "map (\<lambda>r. (enc J r, rec_key r, rec_value r, rec_weight r)) rs"
  have "rfold (net_add J) rs [] = Inr ?net"
    using net_fold_sorted [of "[]" J rs] assms by (simp add: consolidated_def)
  moreover have "rfilter_map net_emit ?net = Inr rs"
  proof -
    have "map net_entry_record (filter net_live ?net) = rs"
      using assms unfolding consolidated_def
      by (induction rs) (auto simp: net_live_def net_entry_record_def)
    then show ?thesis using assms by (auto simp: net_emit_filter_map consolidated_def list_all_iff)
  qed
  ultimately show ?thesis by (simp add: net_rows_def)
qed

lemma net_rows_consolidated: "net_rows J rs = Inr out \<Longrightarrow> consolidated J out"
  using net_rows_sound [of J rs out] by (simp add: net_of_def consolidated_def list_all_iff)

lemma consolidated_Nil [simp]: "consolidated J []"
  by (simp add: consolidated_def)

section \<open>Consolidation of well-formed rows\<close>

context serde_laws
begin

lemma enc_eq_iff_canonical:
  "row_wf r \<Longrightarrow> row_wf s \<Longrightarrow> enc J r = enc J s \<longleftrightarrow> canonical_record J r = canonical_record J s"
  unfolding row_wf_def enc_def canonical_record_def
  by (simp add: encode_kv_ordered_iff canonical_json_eq_iff pair_wf_def)

lemma key_eq_iff_canonical:
  "row_wf r \<Longrightarrow> row_wf s \<Longrightarrow>
    json_eq (rec_key r) (rec_key s) \<longleftrightarrow> canonical_json J (rec_key r) = canonical_json J (rec_key s)"
  by (simp add: row_wf_def pair_wf_def canonical_json_eq_iff)

lemma zw_enc_weight:
  "batch_wf rs \<Longrightarrow> row_wf r \<Longrightarrow> zw J rs (canonical_record J r) = enc_weight J rs (enc J r)"
  by (induction rs) (auto simp: enc_eq_iff_canonical)

lemma net_rows_wf: "batch_wf rs \<Longrightarrow> net_rows J rs = Inr out \<Longrightarrow> batch_wf out"
  using net_rows_sound [of J rs out] unfolding batch_wf_iff net_of_def row_wf_def by metis

lemma net_rows_zw:
  assumes "batch_wf rs" and "net_rows J rs = Inr out"
  shows "zw J out x = zw J rs x"
proof -
  have net: "net_of J rs out" by (rule net_rows_sound [OF assms(2)])
  have wf: "batch_wf out" by (rule net_rows_wf [OF assms])
  show ?thesis
  proof (cases "\<exists>r \<in> set rs. canonical_record J r = x")
    case True
    then obtain r where r: "row_wf r" "canonical_record J r = x"
      using assms(1) by (auto simp: batch_wf_iff)
    then show ?thesis
      using zw_enc_weight [OF assms(1) r(1)] zw_enc_weight [OF wf r(1)] net by (simp add: net_of_def)
  next
    case False
    then have "zw J rs x = 0" by (intro zw_absent) auto
    moreover have "zw J out x = 0"
    proof (rule zw_absent)
      fix r assume "r \<in> set out"
      then obtain s where "s \<in> set rs" "rec_key r = rec_key s" "rec_value r = rec_value s"
        using net unfolding net_of_def by blast
      with False record_ids_cong(2) [of r s J] show "canonical_record J r \<noteq> x" by auto
    qed
    ultimately show ?thesis by simp
  qed
qed

lemma consolidated_distinct:
  assumes "consolidated J rs" and "batch_wf rs"
  shows "distinct (map (canonical_record J) rs)"
proof -
  have "distinct (map (enc J) rs)"
    using assms(1) by (simp add: consolidated_def strict_sorted_iff)
  with assms(2) show ?thesis
    by (auto simp: distinct_map inj_on_def batch_wf_iff enc_eq_iff_canonical)
qed

lemma zw_consolidated:
  "consolidated J rs \<Longrightarrow> batch_wf rs \<Longrightarrow> r \<in> set rs \<Longrightarrow> zw J rs (canonical_record J r) = rec_weight r"
  using zw_enc_weight [of rs r] enc_weight_distinct [of J rs r]
  by (simp add: batch_wf_iff consolidated_def strict_sorted_iff)

end


section \<open>Batches without repeated rows\<close>

lemma net_fold_fresh:
  assumes "distinct (map (enc J) rs)" and "\<And>r. r \<in> set rs \<Longrightarrow> bt_get net (enc J r) = None \<and> i64_range (rec_weight r)"
    and "\<And>e. e \<in> set net \<Longrightarrow> i64_range (snd (snd (snd e)))" and "bt_wf net"
  shows "\<exists>net'. rfold (net_add J) rs net = Inr net' \<and> (\<forall>e \<in> set net'. i64_range (snd (snd (snd e))))"
  using assms
proof (induction rs arbitrary: net)
  case (Cons r rs)
  let ?net = "bt_insert (enc J r) (rec_key r, rec_value r, rec_weight r) net"
  have r: "bt_get net (enc J r) = None" "i64_range (rec_weight r)" using Cons.prems(2) [of r] by simp_all
  then have add: "net_add J r net = Inr ?net"
    by (simp add: net_add_def i128_checked_def i64_range_i128)
  have "\<exists>net'. rfold (net_add J) rs ?net = Inr net' \<and> (\<forall>e \<in> set net'. i64_range (snd (snd (snd e))))"
  proof (rule Cons.IH)
    show "bt_get ?net (enc J q) = None \<and> i64_range (rec_weight q)" if "q \<in> set rs" for q
    proof -
      have "enc J q \<noteq> enc J r" using Cons.prems(1) that by (metis distinct.simps(2) image_eqI list.set_map list.simps(9))
      with Cons.prems(2) [of q] that show ?thesis by simp
    qed
    show "i64_range (snd (snd (snd e)))" if "e \<in> set ?net" for e
    proof -
      have "bt_get ?net (fst e) = Some (snd e)"
        using that bt.in_entries_iff [of ?net "fst e" "snd e"] Cons.prems(4) by simp
      then have "snd e = (rec_key r, rec_value r, rec_weight r) \<or> bt_get net (fst e) = Some (snd e)"
        by (auto split: if_splits)
      then show ?thesis using r(2) Cons.prems(3) [of e] map_of_SomeD [of net "fst e" "snd e"] by auto
    qed
  qed (use Cons.prems in simp_all)
  with add show ?case by simp
qed simp

lemma net_rows_fresh:
  assumes "distinct (map (enc J) rs)" and "\<And>r. r \<in> set rs \<Longrightarrow> i64_range (rec_weight r)"
  shows "\<exists>out. net_rows J rs = Inr out"
proof -
  from net_fold_fresh [of J rs "[]"] assms obtain net where net: "rfold (net_add J) rs [] = Inr net"
    "\<forall>e \<in> set net. i64_range (snd (snd (snd e)))" by auto
  have "\<exists>out. rfilter_map net_emit net = Inr out" using net(2)
  proof (induction net)
    case (Cons e net)
    obtain f k v w where e: "e = (f, k, v, w)" by (metis prod_cases4)
    from Cons.IH Cons.prems obtain out where "rfilter_map net_emit net = Inr out" by auto
    with Cons.prems show ?case by (simp add: e net_emit_tuple)
  qed simp
  with net(1) show ?thesis by (simp add: net_rows_def)
qed

section \<open>Properties\<close>

lemma enc_weight_live:
  assumes "enc_weight J rs e \<noteq> 0"
  obtains r where "r \<in> set rs" "enc J r = e"
  using assms enc_weight_absent by blast

lemma net_rows_error: "net_rows J rs = Inl e \<Longrightarrow> e = DeltaWeightOverflow"
  by (cases e) simp

context serde_laws
begin

lemma net_rows_overflow:
  assumes "batch_wf rs" and "length rs \<le> u64_max" and "net_rows J rs = Inl err"
  shows "\<exists>x. \<not> i64_range (zw J rs x)"
proof -
  have "\<forall>r \<in> set rs. i64_range (rec_weight r)"
    using assms(1) by (simp add: batch_wf_iff row_wf_def)
  from net_rows_total [OF this assms(2), of J] assms(3) obtain e where e: "\<not> i64_range (enc_weight J rs e)"
    by auto
  then have "enc_weight J rs e \<noteq> 0" by auto
  then obtain r where r: "r \<in> set rs" "enc J r = e" by (rule enc_weight_live)
  have "zw J rs (canonical_record J r) = enc_weight J rs e"
    using zw_enc_weight [OF assms(1), of r] assms(1) r by (simp add: batch_wf_iff)
  with e show ?thesis by metis
qed

lemma net_rows_cases:
  assumes "batch_wf rs" and "length rs \<le> u64_max"
  shows "case net_rows J rs of
      Inr out \<Rightarrow> consolidated J out \<and> batch_wf out \<and> distinct (map (canonical_record J) out)
        \<and> (\<forall>x. zw J out x = zw J rs x)
    | Inl err \<Rightarrow> err = DeltaWeightOverflow \<and> (\<exists>x. \<not> i64_range (zw J rs x))"
proof (cases "net_rows J rs")
  case (Inl err)
  with net_rows_overflow [OF assms Inl] net_rows_error [OF Inl] show ?thesis by simp
next
  case (Inr out)
  have "batch_wf out" by (rule net_rows_wf [OF assms(1) Inr])
  moreover have "consolidated J out" by (rule net_rows_consolidated [OF Inr])
  ultimately show ?thesis
    using net_rows_zw [OF assms(1) Inr] consolidated_distinct [of out] by (simp add: Inr)
qed

end



text \<open>
  A batch followed by its inverse consolidates to nothing, whatever the rows are.
\<close>

theorem net_rows_inverse:
  assumes "batch_inverse rs = Inr neg" and "list_all (\<lambda>r. i64_range (rec_weight r)) rs"
    and "2 * length rs \<le> u64_max"
  shows "net_rows J (batch_combine rs neg) = Inr []"
proof -
  from assms(1) have inv: "rmap_list record_inverse rs = Inr neg" by (simp add: batch_inverse_def)
  have w: "\<forall>r \<in> set neg. i64_range (rec_weight r)"
  proof
    fix r assume "r \<in> set neg"
    with inv obtain s where "record_inverse s = Inr r"
      by (auto simp: rmap_list_eq_Inr list_all2_conv_all_nth in_set_conv_nth)
    then show "i64_range (rec_weight r)" by (simp add: record_inverse_Inr)
  qed
  have zero: "enc_weight J (rs @ neg) e = 0" for e
    using batch_inverse_weights(1) [OF inv] by simp
  then obtain out where out: "net_rows J (rs @ neg) = Inr out"
    using net_rows_total [of "rs @ neg" J] w assms(2,3) batch_inverse_weights(3) [OF inv]
    by (auto simp: list_all_iff)
  from net_rows_sound [OF out] have net: "net_of J (rs @ neg) out" .
  have "out = []"
  proof (rule ccontr)
    assume "out \<noteq> []"
    then obtain r where r: "r \<in> set out" by (cases out) auto
    have "distinct (map (enc J) out)" using net by (simp add: net_of_def strict_sorted_iff)
    from enc_weight_distinct [OF this r] net r zero show False by (auto simp: net_of_def)
  qed
  with out show ?thesis by (simp add: batch_combine_def)
qed

theorem net_rows_inverse_witness:
  "\<exists>neg. batch_inverse sample_batch = Inr neg \<and> net_rows serde_ref (batch_combine sample_batch neg) = Inr []"
proof -
  have "isl (batch_inverse sample_batch) = False" by code_simp
  then obtain neg where "batch_inverse sample_batch = Inr neg"
    by (cases "batch_inverse sample_batch") auto
  with net_rows_inverse [of sample_batch neg serde_ref] show ?thesis
    by (simp add: sample_batch_def i64_range_def u64_max_def)
qed

text \<open>
  \<open>net_row_count\<close>, which does not build the rows, returns on every input the number of
  rows \<open>net_rows\<close> returns, and the same error when it fails.
\<close>

theorem net_row_count_equals_net_rows:
  "net_row_count J rs = (case net_rows J rs of Inl err \<Rightarrow> Inl err | Inr out \<Rightarrow> Inr (length out))"
  by (rule net_row_count_length)

text \<open>
  Consolidation does not depend on the order of the records. Two batches with the same
  records in another order give the same row identities, with the same weights, in the same
  order. Consolidating again changes nothing.
\<close>

theorem net_rows_order_independent:
  assumes "net_rows J rs = Inr out" and "mset rs' = mset rs" and "net_rows J rs' = Inr out'"
  shows "map (\<lambda>r. (enc J r, rec_weight r)) out = map (\<lambda>r. (enc J r, rec_weight r)) out' \<and>
    net_rows J out = Inr out"
proof
  have "enc_weight J rs e = enc_weight J rs' e" for e
    unfolding enc_weight_def by (simp only: sum_mset_sum_list [symmetric] mset_map assms(2))
  then show "map (\<lambda>r. (enc J r, rec_weight r)) out = map (\<lambda>r. (enc J r, rec_weight r)) out'"
    by (rule net_of_unique_ids [OF net_rows_sound [OF assms(1)] net_rows_sound [OF assms(3)]])
  show "net_rows J out = Inr out"
    by (rule consolidated_net_rows [OF net_rows_consolidated [OF assms(1)]])
qed

theorem net_rows_order_independent_witness:
  "\<exists>out out'. net_rows serde_ref sample_batch = Inr out \<and> net_rows serde_ref (rev sample_batch) = Inr out' \<and>
     map (\<lambda>r. (enc serde_ref r, rec_weight r)) out = map (\<lambda>r. (enc serde_ref r, rec_weight r)) out'"
proof -
  have "isl (net_rows serde_ref sample_batch) = False" "isl (net_rows serde_ref (rev sample_batch)) = False"
    by code_simp+
  then obtain out out' where "net_rows serde_ref sample_batch = Inr out"
      "net_rows serde_ref (rev sample_batch) = Inr out'"
    by (cases "net_rows serde_ref sample_batch"; cases "net_rows serde_ref (rev sample_batch)") auto
  with net_rows_order_independent [of serde_ref sample_batch out "rev sample_batch" out'] show ?thesis by simp
qed

end
