(* ===== verification/Join_State.thy ===== *)
theory Join_State
  imports Delta
begin

text \<open>
  The retained input of one side of a join (\<open>SideState\<close> of
  \<open>velorix-core/src/operator.rs\<close>): a two-level ordered map from canonical key text and
  canonical value text to the row and its weight. Also the sparse replacement map
  (\<open>SideOverlay\<close>) in which an epoch is prepared, and the stateless filter and project
  operators. The lemmas say that a side state represents exactly the signed multiset of the
  rows applied to it, that its sorted representation is unique, and that reading through or
  committing an overlay is the same as applying the records to the base.
\<close>

section \<open>Definitions\<close>

datatype operator_error =
    OpDelta delta_error
  | OpWeightOverflow
  | NonIntegerAggregateValue
  | NonDecimalAggregateValue
  | DecimalPrecisionOverflow
  | InvalidAggregateStateValue

definition map_delta_batch :: "(delta_record \<Rightarrow> (operator_error, json \<times> json) result) \<Rightarrow>
    delta_batch \<Rightarrow> (operator_error, delta_batch) result" where
  "map_delta_batch transform input =
     rmap_list (\<lambda>record. rbind (transform record) (\<lambda>(key, value).
       Inr (delta_record_new key value (rec_weight record)))) input"

definition filter_delta_batch :: "(delta_record \<Rightarrow> (operator_error, bool) result) \<Rightarrow>
    delta_batch \<Rightarrow> (operator_error, delta_batch) result" where
  "filter_delta_batch predicate input =
     rfilter_map (\<lambda>record. rbind (predicate record) (\<lambda>keep.
       Inr (if keep then Some record else None))) input"

record side_state_record =
  ssr_key :: json
  ssr_value :: json
  ssr_weight :: int

type_synonym side_values = "(string, side_state_record) btree_map"
type_synonym side_state = "(string, side_values) btree_map"
type_synonym side_overlay = "(string, (string, side_state_record option) btree_map) btree_map"

definition to_record :: "side_state_record \<Rightarrow> delta_record" where
  "to_record e = delta_record_new (ssr_key e) (ssr_value e) (ssr_weight e)"

text \<open>The new weight of a cell: added in \<open>i128\<close>, then converted to \<open>i64\<close>.\<close>

definition cell_weight :: "int \<Rightarrow> int \<Rightarrow> (operator_error, int) result" where
  "cell_weight old delta =
     rbind (ok_or OpWeightOverflow (i128_checked (old + delta)))
       (\<lambda>w. ok_or OpWeightOverflow (i64_checked w))"

definition side_add :: "serde \<Rightarrow> delta_record \<Rightarrow> side_state \<Rightarrow> (operator_error, side_state) result" where
  "side_add J record next =
     (let key = canonical_json J (rec_key record);
          value = canonical_json J (rec_value record);
          values = (case bt_get next key of None \<Rightarrow> [] | Some vs \<Rightarrow> vs)
      in rbind (cell_weight (case bt_get values value of None \<Rightarrow> 0 | Some e \<Rightarrow> ssr_weight e) (rec_weight record))
        (\<lambda>weight.
          let values' = (if weight = 0 then bt_remove value values
                else bt_insert value \<lparr>ssr_key = rec_key record, ssr_value = rec_value record,
                  ssr_weight = weight\<rparr> values)
          in Inr (if values' = [] then bt_remove key next else bt_insert key values' next)))"

definition side_applied :: "serde \<Rightarrow> side_state \<Rightarrow> delta_batch \<Rightarrow> (operator_error, side_state) result" where
  "side_applied J self input = rfold (side_add J) input self"

definition side_batch :: "side_state \<Rightarrow> delta_batch" where
  "side_batch self = concat (map (\<lambda>values. map to_record (bt_values values)) (bt_values self))"

definition net_records_for_key :: "serde \<Rightarrow> side_state \<Rightarrow> json \<Rightarrow> delta_batch" where
  "net_records_for_key J self key =
     (case bt_get self (canonical_json J key) of
        None \<Rightarrow> []
      | Some records \<Rightarrow> map to_record (bt_values records))"

definition apply_replacement :: "string \<times> side_state_record option \<Rightarrow> side_values \<Rightarrow> side_values" where
  "apply_replacement c values = (case snd c of Some record \<Rightarrow> bt_insert (fst c) record values
     | None \<Rightarrow> bt_remove (fst c) values)"

definition merged_records_for_key :: "serde \<Rightarrow> side_state \<Rightarrow> side_overlay \<Rightarrow> json \<Rightarrow> delta_batch" where
  "merged_records_for_key J base overlay key =
     (let key_text = canonical_json J key;
          values = (case bt_get base key_text of None \<Rightarrow> [] | Some vs \<Rightarrow> vs);
          values' = (case bt_get overlay key_text of None \<Rightarrow> values
            | Some replacements \<Rightarrow> fold apply_replacement replacements values)
      in map to_record (bt_values values'))"

definition apply_overlay_record :: "serde \<Rightarrow> side_state \<Rightarrow> side_overlay \<Rightarrow> delta_record \<Rightarrow>
    (operator_error, side_overlay) result" where
  "apply_overlay_record J base overlay record =
     (let key = canonical_json J (rec_key record);
          value = canonical_json J (rec_value record);
          base_entry = (case bt_get base key of None \<Rightarrow> None | Some vs \<Rightarrow> bt_get vs value);
          previous = (case bt_get overlay key of None \<Rightarrow> base_entry
            | Some vs \<Rightarrow> (case bt_get vs value of None \<Rightarrow> base_entry | Some entry \<Rightarrow> entry))
      in rbind (cell_weight (case previous of None \<Rightarrow> 0 | Some e \<Rightarrow> ssr_weight e) (rec_weight record))
        (\<lambda>weight.
          let replacement = (if weight \<noteq> 0
                then Some \<lparr>ssr_key = rec_key record, ssr_value = rec_value record, ssr_weight = weight\<rparr>
                else None)
          in Inr (bt_insert key (bt_insert value replacement
               (case bt_get overlay key of None \<Rightarrow> [] | Some vs \<Rightarrow> vs)) overlay)))"

definition apply_overlay_key :: "string \<times> (string, side_state_record option) btree_map \<Rightarrow> side_state \<Rightarrow> side_state" where
  "apply_overlay_key c base =
     (let values = fold apply_replacement (snd c) (case bt_get base (fst c) of None \<Rightarrow> [] | Some vs \<Rightarrow> vs)
      in if values = [] then bt_remove (fst c) base else bt_insert (fst c) values base)"

definition apply_overlay :: "side_state \<Rightarrow> side_overlay \<Rightarrow> side_state" where
  "apply_overlay base overlay = fold apply_overlay_key overlay base"

section \<open>Side states as signed multisets\<close>

definition side_get :: "side_state \<Rightarrow> string \<times> string \<Rightarrow> side_state_record option" where
  "side_get s x = (case bt_get s (fst x) of None \<Rightarrow> None | Some vs \<Rightarrow> bt_get vs (snd x))"

definition side_weight :: "side_state \<Rightarrow> string \<times> string \<Rightarrow> int" where
  "side_weight s x = (case side_get s x of None \<Rightarrow> 0 | Some e \<Rightarrow> ssr_weight e)"

definition cell_wf :: "serde \<Rightarrow> string \<Rightarrow> string \<times> side_state_record \<Rightarrow> bool" where
  "cell_wf J k c \<longleftrightarrow> canonical_record J (to_record (snd c)) = (k, fst c) \<and>
     ssr_weight (snd c) \<noteq> 0 \<and> i64_range (ssr_weight (snd c))"

definition values_wf :: "serde \<Rightarrow> string \<Rightarrow> side_values \<Rightarrow> bool" where
  "values_wf J k vs \<longleftrightarrow> vs \<noteq> [] \<and> bt_wf vs \<and> list_all (cell_wf J k) vs"

definition side_wf :: "serde \<Rightarrow> side_state \<Rightarrow> bool" where
  "side_wf J s \<longleftrightarrow> bt_wf s \<and> list_all (\<lambda>(k, vs). values_wf J k vs) s"

lemma cell_weight_Inr: "cell_weight a b = Inr w \<longleftrightarrow> i128_range (a + b) \<and> i64_range (a + b) \<and> w = a + b"
  by (auto simp: cell_weight_def res_simps)

lemma cell_weight_i64: "i64_range (a + b) \<Longrightarrow> cell_weight a b = Inr (a + b)"
  by (simp add: cell_weight_Inr i64_range_i128)

lemma cell_weight_error: "cell_weight a b = Inl e \<longleftrightarrow> e = OpWeightOverflow \<and> \<not> i64_range (a + b)"
  by (auto simp: cell_weight_def res_simps dest: i64_range_i128)

lemma side_wf_get:
  assumes "side_wf J s" and "bt_get s k = Some vs"
  shows "values_wf J k vs"
  using assms map_of_SomeD [OF assms(2)] by (auto simp: side_wf_def list_all_iff)

lemma side_wf_cell:
  assumes "side_wf J s" and "side_get s x = Some e"
  shows "cell_wf J (fst x) (snd x, e)"
proof -
  from assms(2) obtain vs where vs: "bt_get s (fst x) = Some vs" "bt_get vs (snd x) = Some e"
    by (auto simp: side_get_def split: option.splits)
  from side_wf_get [OF assms(1) vs(1)] map_of_SomeD [OF vs(2)] show ?thesis
    by (auto simp: values_wf_def list_all_iff)
qed

lemma side_weight_nonzero:
  "side_wf J s \<Longrightarrow> side_get s x = Some e \<Longrightarrow> side_weight s x \<noteq> 0 \<and> i64_range (side_weight s x)"
  using side_wf_cell [of J s x e] by (simp add: side_weight_def cell_wf_def)

text \<open>Replacing the values under a key, dropping the key when none is left.\<close>

definition put_values :: "string \<Rightarrow> side_values \<Rightarrow> side_state \<Rightarrow> side_state" where
  "put_values k vs s = (if vs = [] then bt_remove k s else bt_insert k vs s)"

lemma side_wf_put_values:
  assumes "side_wf J s" and "vs \<noteq> [] \<Longrightarrow> values_wf J k vs"
  shows "side_wf J (put_values k vs s)"
proof -
  have "values_wf J k' vs'" if "(k', vs') \<in> set (put_values k vs s)" for k' vs'
  proof -
    have wf: "bt_wf (put_values k vs s)" using assms(1) by (simp add: side_wf_def put_values_def)
    from that have "bt_get (put_values k vs s) k' = Some vs'"
      using bt.in_entries_iff [OF wf] by blast
    then have "k' = k \<and> vs' = vs \<and> vs \<noteq> [] \<or> bt_get s k' = Some vs'"
      using assms(1) by (auto simp: put_values_def side_wf_def bt_get_remove split: if_splits)
    with assms side_wf_get [OF assms(1)] show ?thesis by blast
  qed
  with assms(1) show ?thesis by (auto simp: side_wf_def put_values_def list_all_iff)
qed

lemma side_get_put_values:
  "bt_wf s \<Longrightarrow> side_get (put_values k vs s) x = (if fst x = k then bt_get vs (snd x) else side_get s x)"
  by (auto simp: side_get_def put_values_def bt_get_remove)

lemma values_wf_insert:
  assumes "vs = [] \<or> values_wf J k vs" and "cell_wf J k (v, e)"
  shows "values_wf J k (bt_insert v e vs)"
proof -
  have wf: "bt_wf vs" using assms(1) by (auto simp: values_wf_def)
  have "cell_wf J k c" if "c \<in> set (bt_insert v e vs)" for c
  proof -
    obtain v' e' where c: "c = (v', e')" by (cases c)
    then have "bt_get (bt_insert v e vs) v' = Some e'"
      using that bt.in_entries_iff [of "bt_insert v e vs" v' e'] wf by simp
    then have "v' = v \<and> e' = e \<or> (v', e') \<in> set vs"
      using map_of_SomeD by (fastforce split: if_splits)
    with assms c show ?thesis by (auto simp: values_wf_def list_all_iff)
  qed
  with wf show ?thesis by (simp add: values_wf_def list_all_iff)
qed

lemma values_wf_remove: "values_wf J k vs \<Longrightarrow> bt_remove v vs \<noteq> [] \<Longrightarrow> values_wf J k (bt_remove v vs)"
  using bt_remove_subset [of v vs] by (auto simp: values_wf_def list_all_iff)


text \<open>One cell replaced: the common form of \<open>side_add\<close> and of an overlay commit.\<close>

definition put_cell :: "string \<times> string \<Rightarrow> side_state_record option \<Rightarrow> side_state \<Rightarrow> side_state" where
  "put_cell x eo s = put_values (fst x)
     (apply_replacement (snd x, eo) (case bt_get s (fst x) of None \<Rightarrow> [] | Some vs \<Rightarrow> vs)) s"

definition cell_of :: "delta_record \<Rightarrow> int \<Rightarrow> side_state_record option" where
  "cell_of r w = (if w \<noteq> 0 then Some \<lparr>ssr_key = rec_key r, ssr_value = rec_value r, ssr_weight = w\<rparr> else None)"

lemma to_record_simps [simp]:
  "rec_key (to_record e) = ssr_key e" "rec_value (to_record e) = ssr_value e" "rec_weight (to_record e) = ssr_weight e"
  by (simp_all add: to_record_def delta_record_new_def)

lemma cell_of_wf:
  "i64_range w \<Longrightarrow> cell_of r w = Some e \<Longrightarrow> cell_wf J (canonical_json J (rec_key r)) (canonical_json J (rec_value r), e)"
  by (auto simp: cell_of_def cell_wf_def canonical_record_def split: if_splits)

lemma cell_of_weight [simp]: "(case cell_of r w of None \<Rightarrow> 0 | Some e \<Rightarrow> ssr_weight e) = w"
  by (simp add: cell_of_def)

lemma side_wf_Nil [simp]: "side_wf J []"
  by (simp add: side_wf_def)

lemma side_values_wf: "side_wf J s \<Longrightarrow> bt_wf (case bt_get s k of None \<Rightarrow> [] | Some vs \<Rightarrow> vs)"
  using side_wf_get [of J s k] by (auto simp: values_wf_def split: option.split)

lemma side_wf_put_cell:
  assumes "side_wf J s" and "\<And>e. eo = Some e \<Longrightarrow> cell_wf J (fst x) (snd x, e)"
  shows "side_wf J (put_cell x eo s)"
proof -
  let ?vs = "case bt_get s (fst x) of None \<Rightarrow> [] | Some vs \<Rightarrow> vs"
  have vs: "?vs = [] \<or> values_wf J (fst x) ?vs"
    using side_wf_get [OF assms(1)] by (auto split: option.split)
  have "values_wf J (fst x) (apply_replacement (snd x, eo) ?vs)"
    if "apply_replacement (snd x, eo) ?vs \<noteq> []"
  proof (cases eo)
    case None
    with that vs show ?thesis by (auto simp: apply_replacement_def intro: values_wf_remove)
  next
    case (Some e)
    with values_wf_insert [OF vs assms(2)] show ?thesis by (simp add: apply_replacement_def)
  qed
  with assms(1) show ?thesis unfolding put_cell_def by (rule side_wf_put_values)
qed

lemma bt_get_replacement:
  "bt_wf vs \<Longrightarrow> bt_get (apply_replacement c vs) v = (if v = fst c then snd c else bt_get vs v)"
  by (auto simp: apply_replacement_def bt_get_remove split: option.split)

lemma side_get_put_cell:
  assumes "side_wf J s"
  shows "side_get (put_cell x eo s) y = (if y = x then eo else side_get s y)"
proof -
  have "bt_wf s" using assms by (simp add: side_wf_def)
  then show ?thesis
    by (simp add: put_cell_def side_get_put_values bt_get_replacement [OF side_values_wf [OF assms]] prod_eq_iff)
       (simp add: side_get_def split: option.split)
qed

lemma side_add_cell:
  "side_add J r s = rbind (cell_weight (side_weight s (canonical_record J r)) (rec_weight r))
     (\<lambda>w. Inr (put_cell (canonical_record J r) (cell_of r w) s))"
  by (auto simp: side_add_def put_cell_def put_values_def cell_of_def apply_replacement_def Let_def
      canonical_record_def side_weight_def side_get_def split: option.split intro!: arg_cong2 [where f = rbind])

lemma side_add_total:
  "i64_range (side_weight s (canonical_record J r) + rec_weight r) \<longleftrightarrow> (\<exists>s'. side_add J r s = Inr s')"
  by (auto simp: side_add_cell res_simps cell_weight_Inr i64_range_i128)

lemma side_add_error: "side_add J r s = Inl e \<Longrightarrow> e = OpWeightOverflow"
  by (auto simp: side_add_cell res_simps cell_weight_error)

lemma side_add_Inr:
  assumes "side_wf J s" and "side_add J r s = Inr s'"
  shows "side_wf J s'" and "side_weight s' x = side_weight s x + (if canonical_record J r = x then rec_weight r else 0)"
proof -
  let ?w = "side_weight s (canonical_record J r) + rec_weight r"
  from assms(2) have w: "i64_range ?w" and s': "s' = put_cell (canonical_record J r) (cell_of r ?w) s"
    by (auto simp: side_add_cell res_simps cell_weight_Inr)
  show "side_wf J s'" unfolding s'
    by (rule side_wf_put_cell [OF assms(1)]) (use cell_of_wf [OF w] in \<open>simp add: canonical_record_def\<close>)
  show "side_weight s' x = side_weight s x + (if canonical_record J r = x then rec_weight r else 0)"
    by (simp add: s' side_weight_def side_get_put_cell [OF assms(1)])
qed

lemma side_applied_simps [simp]:
  "side_applied J s [] = Inr s"
  "side_applied J s (r # rs) = rbind (side_add J r s) (\<lambda>s'. side_applied J s' rs)"
  by (simp_all add: side_applied_def)

lemma side_applied_append: "side_applied J s (xs @ ys) = rbind (side_applied J s xs) (\<lambda>s'. side_applied J s' ys)"
  by (simp add: side_applied_def rfold_append)

lemma side_applied_Inr:
  "side_wf J s \<Longrightarrow> side_applied J s rs = Inr s' \<Longrightarrow>
   side_wf J s' \<and> (\<forall>x. side_weight s' x = side_weight s x + zw J rs x)"
proof (induction rs arbitrary: s)
  case Nil
  then show ?case by (simp add: zw_def)
next
  case (Cons r rs)
  then obtain t where t: "side_add J r s = Inr t" "side_applied J t rs = Inr s'" by (auto simp: res_simps)
  from Cons.IH [OF side_add_Inr(1) [OF Cons.prems(1) t(1)] t(2)] side_add_Inr(2) [OF Cons.prems(1) t(1)]
  show ?case by (simp add: zw_def)
qed

lemmas side_applied_wf = side_applied_Inr [THEN conjunct1]
lemmas side_applied_weight = side_applied_Inr [THEN conjunct2, rule_format]

lemma side_ext:
  assumes "side_wf J s" "side_wf J t" "\<And>x. side_get s x = side_get t x"
  shows "s = t"
proof (rule bt.entries_ext)
  show "bt_wf s" "bt_wf t" using assms(1,2) by (simp_all add: side_wf_def)
  have *: "bt_get u k = Some vs \<Longrightarrow> bt_get v k = None \<Longrightarrow> side_wf J u \<Longrightarrow>
      (\<And>x. side_get u x = side_get v x) \<Longrightarrow> False" for u v k vs
  proof -
    assume a: "bt_get u k = Some vs" "bt_get v k = None" "side_wf J u" "\<And>x. side_get u x = side_get v x"
    from side_wf_get [OF a(3,1)] obtain e es where "vs = e # es" by (cases vs) (auto simp: values_wf_def)
    with a(1) have "side_get u (k, fst e) = Some (snd e)" by (simp add: side_get_def)
    then have "side_get v (k, fst e) = Some (snd e)" using a(4) by simp
    with a(2) show False by (simp add: side_get_def)
  qed
  show "bt_get s k = bt_get t k" for k
  proof (cases "bt_get s k")
    case None
    then show ?thesis using * [of t k _ s] assms by (cases "bt_get t k") auto
  next
    case (Some vs)
    then obtain us where us: "bt_get t k = Some us"
      using * [of s k vs t] assms by (cases "bt_get t k") auto
    have "vs = us"
    proof (rule bt.entries_ext)
      show "bt_wf vs" "bt_wf us" using side_wf_get [OF assms(1) Some] side_wf_get [OF assms(2) us]
        by (simp_all add: values_wf_def)
      show "bt_get vs v = bt_get us v" for v
        using assms(3) [of "(k, v)"] Some us by (simp add: side_get_def)
    qed
    with Some us show ?thesis by simp
  qed
qed


section \<open>Reading a side state\<close>

lemma bt_sum_at:
  "bt_wf m \<Longrightarrow> (\<Sum>(k, v)\<leftarrow>m. if k = a then f v else (0::int)) = (case bt_get m a of None \<Rightarrow> 0 | Some v \<Rightarrow> f v)"
proof (induction m)
  case (Cons e m)
  have "bt_get m (fst e) = None"
    using Cons.prems by (auto simp: bt_wf_Cons map_of_eq_None_iff)
  with Cons show ?case by (auto simp: bt_wf_Cons case_prod_unfold)
qed simp

lemma bt_concat_at:
  "bt_wf m \<Longrightarrow> concat (map (\<lambda>(k, v). if k = a then f v else []) m) = (case bt_get m a of None \<Rightarrow> [] | Some v \<Rightarrow> f v)"
proof (induction m)
  case (Cons e m)
  have "bt_get m (fst e) = None"
    using Cons.prems by (auto simp: bt_wf_Cons map_of_eq_None_iff)
  with Cons show ?case by (auto simp: bt_wf_Cons case_prod_unfold)
qed simp

lemma side_batch_alt: "side_batch s = concat (map (\<lambda>(k, vs). map (\<lambda>(v, e). to_record e) vs) s)"
  by (simp add: side_batch_def case_prod_unfold comp_def)

lemma zw_side_batch:
  assumes "side_wf J s"
  shows "zw J (side_batch s) x = side_weight s x"
proof -
  have inner: "zw J (map (\<lambda>(v, e). to_record e) vs) x =
      (if k = fst x then (case bt_get vs (snd x) of None \<Rightarrow> 0 | Some e \<Rightarrow> ssr_weight e) else 0)"
    if "(k, vs) \<in> set s" for k vs
  proof -
    have wf: "values_wf J k vs" using assms that by (auto simp: side_wf_def list_all_iff)
    have "zw J (map (\<lambda>(v, e). to_record e) vs) x = (\<Sum>(v, e)\<leftarrow>vs. if (k, v) = x then ssr_weight e else 0)"
      unfolding zw_def map_map
      by (intro arg_cong [where f = sum_list] map_cong refl)
         (use wf in \<open>auto simp: values_wf_def list_all_iff cell_wf_def\<close>)
    also have "\<dots> = (if k = fst x then (\<Sum>(v, e)\<leftarrow>vs. if v = snd x then ssr_weight e else 0) else 0)"
      by (cases x) (auto simp: case_prod_unfold intro!: sum_list_0)
    also have "\<dots> = (if k = fst x then (case bt_get vs (snd x) of None \<Rightarrow> 0 | Some e \<Rightarrow> ssr_weight e) else 0)"
      using wf bt_sum_at [of vs "snd x" ssr_weight] by (simp add: values_wf_def)
    finally show ?thesis .
  qed
  have "zw J (side_batch s) x = (\<Sum>(k, vs)\<leftarrow>s. zw J (map (\<lambda>(v, e). to_record e) vs) x)"
    unfolding side_batch_alt by (induction s) (auto simp: zw_def)
  also have "\<dots> = (\<Sum>(k, vs)\<leftarrow>s. if k = fst x then (case bt_get vs (snd x) of None \<Rightarrow> 0 | Some e \<Rightarrow> ssr_weight e) else 0)"
    by (intro arg_cong [where f = sum_list] map_cong refl) (use inner in \<open>auto simp: case_prod_unfold\<close>)
  also have "\<dots> = side_weight s x"
    using assms bt_sum_at [of s "fst x" "\<lambda>vs. case bt_get vs (snd x) of None \<Rightarrow> 0 | Some e \<Rightarrow> ssr_weight e"]
    by (auto simp: side_wf_def side_weight_def side_get_def split: option.split)
  finally show ?thesis .
qed

lemma net_records_for_key_filter:
  assumes "side_wf J s"
  shows "net_records_for_key J s key =
    filter (\<lambda>r. canonical_json J (rec_key r) = canonical_json J key) (side_batch s)"
proof -
  let ?k = "canonical_json J key"
  have "filter (\<lambda>r. canonical_json J (rec_key r) = ?k) (side_batch s) =
      concat (map (\<lambda>(k, vs). filter (\<lambda>r. canonical_json J (rec_key r) = ?k) (map (\<lambda>(v, e). to_record e) vs)) s)"
    unfolding side_batch_alt filter_concat map_map by (simp add: case_prod_unfold comp_def)
  also have "\<dots> = concat (map (\<lambda>(k, vs). if k = ?k then map (\<lambda>(v, e). to_record e) vs else []) s)"
  proof (intro arg_cong [where f = concat] map_cong refl, clarify)
    fix k vs
    assume "(k, vs) \<in> set s"
    then have "values_wf J k vs" using assms by (auto simp: side_wf_def list_all_iff)
    then show "filter (\<lambda>r. canonical_json J (rec_key r) = ?k) (map (\<lambda>(v, e). to_record e) vs) =
        (if k = ?k then map (\<lambda>(v, e). to_record e) vs else [])"
      by (auto simp: values_wf_def list_all_iff cell_wf_def canonical_record_def filter_empty_conv filter_id_conv)
  qed
  also have "\<dots> = net_records_for_key J s key"
    using assms bt_concat_at [of s ?k "map (\<lambda>(v, e). to_record e)"]
    by (auto simp: side_wf_def net_records_for_key_def case_prod_unfold split: option.split)
  finally show ?thesis by simp
qed

section \<open>Overlays\<close>

definition overlay_get :: "side_overlay \<Rightarrow> string \<times> string \<Rightarrow> side_state_record option option" where
  "overlay_get ov x = (case bt_get ov (fst x) of None \<Rightarrow> None | Some vs \<Rightarrow> bt_get vs (snd x))"

definition overlay_wf :: "serde \<Rightarrow> side_overlay \<Rightarrow> bool" where
  "overlay_wf J ov \<longleftrightarrow> bt_wf ov \<and> (\<forall>k vs. bt_get ov k = Some vs \<longrightarrow> bt_wf vs \<and>
     (\<forall>v e. bt_get vs v = Some (Some e) \<longrightarrow> cell_wf J k (v, e)))"

lemma fold_replacement:
  "bt_wf reps \<Longrightarrow> bt_wf vs \<Longrightarrow> bt_wf (fold apply_replacement reps vs) \<and>
     bt_get (fold apply_replacement reps vs) v = (case bt_get reps v of None \<Rightarrow> bt_get vs v | Some eo \<Rightarrow> eo)"
proof (induction reps arbitrary: vs)
  case (Cons c reps)
  have wf: "bt_wf (apply_replacement c vs)"
    using Cons.prems(2) by (simp add: apply_replacement_def split: option.split)
  have "bt_get reps (fst c) = None"
    using Cons.prems(1) by (auto simp: bt_wf_Cons map_of_eq_None_iff)
  with Cons.IH [OF _ wf] Cons.prems show ?case
    by (auto simp: bt_wf_Cons bt_get_replacement split: option.split)
qed simp

lemma apply_overlay_get:
  "bt_wf ov \<Longrightarrow> bt_wf s \<Longrightarrow> bt_wf (apply_overlay s ov) \<and> bt_get (apply_overlay s ov) k =
     (case bt_get ov k of None \<Rightarrow> bt_get s k
      | Some reps \<Rightarrow> let vs = fold apply_replacement reps (case bt_get s k of None \<Rightarrow> [] | Some vs \<Rightarrow> vs)
                    in if vs = [] then None else Some vs)"
proof (induction ov arbitrary: s)
  case (Cons c ov)
  have wf: "bt_wf (apply_overlay_key c s)"
    using Cons.prems(2) by (simp add: apply_overlay_key_def Let_def)
  have none: "bt_get ov (fst c) = None"
    using Cons.prems(1) by (auto simp: bt_wf_Cons map_of_eq_None_iff)
  have key: "bt_get (apply_overlay_key c s) k = (if k = fst c then
      let vs = fold apply_replacement (snd c) (case bt_get s k of None \<Rightarrow> [] | Some vs \<Rightarrow> vs)
      in if vs = [] then None else Some vs else bt_get s k)" for k
    using Cons.prems(2) by (simp add: apply_overlay_key_def Let_def bt_get_remove)
  have "bt_wf ov" using Cons.prems(1) by (simp add: bt_wf_Cons)
  moreover have "apply_overlay s (c # ov) = apply_overlay (apply_overlay_key c s) ov"
    by (simp add: apply_overlay_def)
  ultimately show ?case using Cons.IH [OF _ wf] none
    by (cases "k = fst c") (simp_all add: key split: option.split)
qed (simp add: apply_overlay_def)


lemma overlay_wf_Nil [simp]: "overlay_wf J []"
  by (simp add: overlay_wf_def)

lemma overlay_wf_values: "overlay_wf J ov \<Longrightarrow> bt_wf (case bt_get ov k of None \<Rightarrow> [] | Some vs \<Rightarrow> vs)"
  by (auto simp: overlay_wf_def split: option.split)

lemma apply_overlay_cell:
  assumes "side_wf J s" and "overlay_wf J ov"
  shows "side_get (apply_overlay s ov) x = (case overlay_get ov x of None \<Rightarrow> side_get s x | Some eo \<Rightarrow> eo)"
proof (cases "bt_get ov (fst x)")
  case None
  with assms apply_overlay_get [of ov s "fst x"] show ?thesis
    by (simp add: side_wf_def overlay_wf_def side_get_def overlay_get_def)
next
  case (Some reps)
  let ?vs = "fold apply_replacement reps (case bt_get s (fst x) of None \<Rightarrow> [] | Some vs \<Rightarrow> vs)"
  have "bt_wf reps" using assms(2) Some by (auto simp: overlay_wf_def)
  then have "bt_get ?vs (snd x) = (case bt_get reps (snd x) of None \<Rightarrow> side_get s x | Some eo \<Rightarrow> eo)"
    using fold_replacement [OF _ side_values_wf [OF assms(1)]] by (auto simp: side_get_def split: option.split)
  moreover have "bt_get (apply_overlay s ov) (fst x) = (if ?vs = [] then None else Some ?vs)"
    using assms apply_overlay_get [of ov s "fst x"] Some by (simp add: side_wf_def overlay_wf_def Let_def)
  ultimately show ?thesis using Some
    by (cases "?vs = []") (simp_all add: side_get_def overlay_get_def)
qed

lemma side_wf_apply_overlay:
  assumes "side_wf J s" and "overlay_wf J ov"
  shows "side_wf J (apply_overlay s ov)"
proof -
  have wf: "bt_wf (apply_overlay s ov)"
    using assms apply_overlay_get [of ov s] by (simp add: side_wf_def overlay_wf_def)
  have "values_wf J k vs" if "(k, vs) \<in> set (apply_overlay s ov)" for k vs
  proof (cases "bt_get ov k")
    case None
    from that have "bt_get (apply_overlay s ov) k = Some vs" using bt.in_entries_iff [OF wf] by blast
    with None apply_overlay_get [of ov s k] assms show ?thesis
      using side_wf_get [OF assms(1), of k vs] by (simp add: side_wf_def overlay_wf_def)
  next
    case (Some reps)
    let ?vs = "fold apply_replacement reps (case bt_get s k of None \<Rightarrow> [] | Some vs \<Rightarrow> vs)"
    have eq: "bt_get (apply_overlay s ov) k = Some vs" using bt.in_entries_iff [OF wf] that by blast
    have vs: "vs = ?vs" "vs \<noteq> []"
      using apply_overlay_get [of ov s k] Some eq assms
      by (auto simp: side_wf_def overlay_wf_def Let_def split: if_splits)
    have "bt_wf reps" using assms(2) Some by (auto simp: overlay_wf_def)
    with vs(1) fold_replacement [OF _ side_values_wf [OF assms(1)]] have "bt_wf vs" by blast
    moreover have "cell_wf J k (v, e)" if "(v, e) \<in> set vs" for v e
    proof -
      have "bt_get vs v = Some e" using that bt.in_entries_iff [OF \<open>bt_wf vs\<close>] by blast
      then have "side_get (apply_overlay s ov) (k, v) = Some e" using eq by (simp add: side_get_def)
      then have "overlay_get ov (k, v) = Some (Some e) \<or> side_get s (k, v) = Some e"
        by (auto simp: apply_overlay_cell [OF assms] split: option.splits)
      then show ?thesis
        using side_wf_cell [OF assms(1), of "(k, v)" e] assms(2) Some
        by (auto simp: overlay_get_def overlay_wf_def)
    qed
    ultimately show ?thesis using vs(2) by (auto simp: values_wf_def list_all_iff)
  qed
  with wf show ?thesis by (auto simp: side_wf_def list_all_iff)
qed

text \<open>Reading a key through the overlay is reading it in the committed state.\<close>

lemma merged_records_for_key_eq:
  assumes "side_wf J s" and "overlay_wf J ov"
  shows "merged_records_for_key J s ov key = net_records_for_key J (apply_overlay s ov) key"
  using assms apply_overlay_get [of ov s "canonical_json J key"]
  by (auto simp: merged_records_for_key_def net_records_for_key_def side_wf_def overlay_wf_def Let_def
      split: option.splits)

text \<open>Recording a row in the overlay is applying it to the committed state.\<close>

lemma apply_overlay_record_cell:
  assumes "side_wf J s" and "overlay_wf J ov"
  shows "apply_overlay_record J s ov r =
    rbind (cell_weight (side_weight (apply_overlay s ov) (canonical_record J r)) (rec_weight r))
      (\<lambda>w. Inr (bt_insert (canonical_json J (rec_key r))
         (bt_insert (canonical_json J (rec_value r)) (cell_of r w)
           (case bt_get ov (canonical_json J (rec_key r)) of None \<Rightarrow> [] | Some vs \<Rightarrow> vs)) ov))"
proof -
  let ?k = "canonical_json J (rec_key r)" and ?v = "canonical_json J (rec_value r)"
  have "(case bt_get ov ?k of None \<Rightarrow> (case bt_get s ?k of None \<Rightarrow> None | Some vs \<Rightarrow> bt_get vs ?v)
      | Some vs \<Rightarrow> (case bt_get vs ?v of None \<Rightarrow> (case bt_get s ?k of None \<Rightarrow> None | Some vs \<Rightarrow> bt_get vs ?v)
          | Some entry \<Rightarrow> entry)) = side_get (apply_overlay s ov) (canonical_record J r)"
    unfolding apply_overlay_cell [OF assms]
    by (simp add: overlay_get_def side_get_def canonical_record_def split: option.split)
  then show ?thesis
    unfolding apply_overlay_record_def Let_def side_weight_def cell_of_def by simp
qed

lemma overlay_wf_insert:
  assumes "overlay_wf J ov" and "\<And>e. eo = Some e \<Longrightarrow> cell_wf J k (v, e)"
  shows "overlay_wf J (bt_insert k (bt_insert v eo (case bt_get ov k of None \<Rightarrow> [] | Some vs \<Rightarrow> vs)) ov)"
    and "overlay_get (bt_insert k (bt_insert v eo (case bt_get ov k of None \<Rightarrow> [] | Some vs \<Rightarrow> vs)) ov) x =
      (if x = (k, v) then Some eo else overlay_get ov x)"
  using assms overlay_wf_values [OF assms(1)]
  by (auto simp: overlay_wf_def overlay_get_def prod_eq_iff split: option.splits)

lemma apply_overlay_record_Inr:
  assumes "side_wf J s" and "overlay_wf J ov" and "apply_overlay_record J s ov r = Inr ov'"
  shows "overlay_wf J ov'" and "side_add J r (apply_overlay s ov) = Inr (apply_overlay s ov')"
proof -
  let ?t = "apply_overlay s ov" and ?x = "canonical_record J r"
  let ?w = "side_weight ?t ?x + rec_weight r"
  let ?ov = "bt_insert (fst ?x) (bt_insert (snd ?x) (cell_of r ?w)
     (case bt_get ov (fst ?x) of None \<Rightarrow> [] | Some vs \<Rightarrow> vs)) ov"
  from assms(3) have w: "i128_range ?w" "i64_range ?w" and ov': "ov' = ?ov"
    by (auto simp: apply_overlay_record_cell [OF assms(1,2)] res_simps cell_weight_Inr canonical_record_def)
  have cw: "cell_of r ?w = Some e \<Longrightarrow> cell_wf J (fst ?x) (snd ?x, e)" for e
    using cell_of_wf [OF w(2)] by (simp add: canonical_record_def)
  show wf: "overlay_wf J ov'" unfolding ov' using assms(2) cw by (rule overlay_wf_insert)
  have "put_cell ?x (cell_of r ?w) ?t = apply_overlay s ov'"
  proof (rule side_ext)
    show "side_wf J (put_cell ?x (cell_of r ?w) ?t)"
      using side_wf_apply_overlay [OF assms(1,2)] cw by (rule side_wf_put_cell)
    show "side_wf J (apply_overlay s ov')" using assms(1) wf by (rule side_wf_apply_overlay)
    show "side_get (put_cell ?x (cell_of r ?w) ?t) y = side_get (apply_overlay s ov') y" for y
      by (simp add: side_get_put_cell [OF side_wf_apply_overlay [OF assms(1,2)]] apply_overlay_cell [OF assms(1) wf]
          apply_overlay_cell [OF assms(1,2)])
         (simp add: ov' overlay_wf_insert(2) [OF assms(2) cw])
  qed
  with w show "side_add J r ?t = Inr (apply_overlay s ov')"
    by (simp add: side_add_cell cell_weight_i64)
qed

lemma apply_overlay_record_Inl:
  assumes "side_wf J s" and "overlay_wf J ov"
  shows "apply_overlay_record J s ov r = Inl e \<longleftrightarrow> side_add J r (apply_overlay s ov) = Inl e"
  by (simp add: apply_overlay_record_cell [OF assms] side_add_cell res_simps)

section \<open>Restoring a side from its own batch\<close>

lemma in_side_batch:
  assumes "side_wf J s"
  shows "r \<in> set (side_batch s) \<longleftrightarrow> (\<exists>e. side_get s (canonical_record J r) = Some e \<and> r = to_record e)"
proof
  assume "r \<in> set (side_batch s)"
  then obtain k vs v e where r: "(k, vs) \<in> set s" "(v, e) \<in> set vs" "r = to_record e"
    by (auto simp: side_batch_alt)
  have "values_wf J k vs" using assms r(1) by (auto simp: side_wf_def list_all_iff)
  then have "bt_get vs v = Some e" "canonical_record J r = (k, v)"
    using r(2,3) bt.in_entries_iff [of vs v e] by (auto simp: values_wf_def list_all_iff cell_wf_def)
  moreover have "bt_get s k = Some vs"
    using r(1) assms bt.in_entries_iff [of s k vs] by (auto simp: side_wf_def)
  ultimately show "\<exists>e. side_get s (canonical_record J r) = Some e \<and> r = to_record e"
    using r(3) by (auto simp: side_get_def)
next
  assume "\<exists>e. side_get s (canonical_record J r) = Some e \<and> r = to_record e"
  then obtain vs e where "bt_get s (fst (canonical_record J r)) = Some vs"
      "bt_get vs (snd (canonical_record J r)) = Some e" "r = to_record e"
    by (auto simp: side_get_def split: option.splits)
  then show "r \<in> set (side_batch s)"
    using map_of_SomeD [of s "fst (canonical_record J r)" vs] map_of_SomeD [of vs "snd (canonical_record J r)" e]
    by (fastforce simp: side_batch_alt)
qed

lemma distinct_map_Pair: "distinct (map (Pair k) xs) = distinct xs"
  by (induction xs) auto

lemma distinct_side_batch: "side_wf J s \<Longrightarrow> distinct (map (canonical_record J) (side_batch s))"
proof (induction s)
  case (Cons c s)
  obtain k vs where c: "c = (k, vs)" by (cases c)
  have wf: "values_wf J k vs" "side_wf J s" and lt: "\<And>k' vs'. (k', vs') \<in> set s \<Longrightarrow> k < k'"
    using Cons.prems c by (auto simp: side_wf_def bt_wf_Cons)
  have hd: "map (canonical_record J) (map (\<lambda>(v, e). to_record e) vs) = map (Pair k) (map fst vs)"
    using wf(1) by (auto simp: values_wf_def list_all_iff cell_wf_def)
  have "bt_wf vs" using wf(1) by (simp add: values_wf_def)
  then have "distinct (map fst vs)" by (rule bt.entries_distinct)
  then have "distinct (map (Pair k) (map fst vs))" by (simp only: distinct_map_Pair)
  moreover have "fst x \<noteq> k" if x: "x \<in> canonical_record J ` set (side_batch s)" for x
  proof -
    obtain r e where r: "x = canonical_record J r" "side_get s x = Some e"
      using x in_side_batch [OF wf(2)] by blast
    then obtain vs' where "bt_get s (fst x) = Some vs'" by (auto simp: side_get_def split: option.splits)
    from lt [OF map_of_SomeD [OF this]] show ?thesis by simp
  qed
  moreover have "side_batch (c # s) = map (\<lambda>(v, e). to_record e) vs @ side_batch s"
    by (simp add: side_batch_alt c)
  moreover have "set (map (canonical_record J) (map (\<lambda>(v, e). to_record e) vs)) \<subseteq> {x. fst x = k}"
    unfolding hd by auto
  ultimately show ?case
    using Cons.IH [OF wf(2)] hd by (simp only: map_append distinct_append) auto
qed (simp add: side_batch_def)

lemma side_applied_fresh:
  assumes "side_wf J t" and "distinct (map (canonical_record J) rs)"
    and "\<And>r. r \<in> set rs \<Longrightarrow> side_get t (canonical_record J r) = None \<and> i64_range (rec_weight r) \<and> rec_weight r \<noteq> 0"
  shows "\<exists>t'. side_applied J t rs = Inr t' \<and> side_wf J t' \<and> (\<forall>x. side_get t' x =
    (case map_of (map (\<lambda>r. (canonical_record J r, the (cell_of r (rec_weight r)))) rs) x of
       None \<Rightarrow> side_get t x | Some e \<Rightarrow> Some e))"
  using assms
proof (induction rs arbitrary: t)
  case (Cons r rs)
  let ?x = "canonical_record J r"
  let ?t = "put_cell ?x (cell_of r (rec_weight r)) t"
  have r: "side_weight t ?x = 0" "i64_range (rec_weight r)" "rec_weight r \<noteq> 0"
    using Cons.prems(3) [of r] by (simp_all add: side_weight_def)
  have add: "side_add J r t = Inr ?t" using r by (simp add: side_add_cell cell_weight_i64)
  have get: "side_get ?t y = (if y = ?x then Some (the (cell_of r (rec_weight r))) else side_get t y)" for y
    using r(3) by (simp add: side_get_put_cell [OF Cons.prems(1)] cell_of_def)
  have "distinct (map (canonical_record J) rs)" and notin: "?x \<notin> canonical_record J ` set rs" using Cons.prems(2) by auto
  moreover have fresh: "side_get ?t (canonical_record J q) = None \<and> i64_range (rec_weight q) \<and> rec_weight q \<noteq> 0"
    if "q \<in> set rs" for q
  proof -
    have "canonical_record J q \<noteq> ?x" using that notin by (metis image_eqI)
    with that Cons.prems(3) [of q] show ?thesis by (simp add: get)
  qed
  ultimately obtain t' where t': "side_applied J ?t rs = Inr t'" "side_wf J t'"
    "\<And>x. side_get t' x = (case map_of (map (\<lambda>r. (canonical_record J r, the (cell_of r (rec_weight r)))) rs) x of
       None \<Rightarrow> side_get ?t x | Some e \<Rightarrow> Some e)"
    using Cons.IH [OF side_add_Inr(1) [OF Cons.prems(1) add]] fresh by blast
  have "map_of (map (\<lambda>r. (canonical_record J r, the (cell_of r (rec_weight r)))) rs) ?x = None"
    using notin by (auto simp: map_of_eq_None_iff)
  then have "\<forall>x. side_get t' x =
    (case map_of (map (\<lambda>r. (canonical_record J r, the (cell_of r (rec_weight r)))) (r # rs)) x of
       None \<Rightarrow> side_get t x | Some e \<Rightarrow> Some e)"
    using t'(3) by (simp add: get split: option.split)
  with add t'(1,2) show ?case by auto
qed simp

lemma cell_of_to_record: "ssr_weight e \<noteq> 0 \<Longrightarrow> cell_of (to_record e) (ssr_weight e) = Some e"
  by (simp add: cell_of_def)

theorem side_restore:
  assumes "side_wf J s"
  shows "side_applied J [] (side_batch s) = Inr s"
proof -
  let ?m = "map_of (map (\<lambda>r. (canonical_record J r, the (cell_of r (rec_weight r)))) (side_batch s))"
  have ok: "i64_range (rec_weight r) \<and> rec_weight r \<noteq> 0" if r: "r \<in> set (side_batch s)" for r
  proof -
    obtain e where e: "side_get s (canonical_record J r) = Some e" "r = to_record e"
      using iffD1 [OF in_side_batch [OF assms] r] by blast
    from side_wf_cell [OF assms e(1)] have "ssr_weight e \<noteq> 0 \<and> i64_range (ssr_weight e)"
      by (simp add: cell_wf_def)
    with e(2) show ?thesis by simp
  qed
  have fresh: "side_get [] (canonical_record J r) = None \<and> i64_range (rec_weight r) \<and> rec_weight r \<noteq> 0"
    if "r \<in> set (side_batch s)" for r
    using ok [OF that] by (simp add: side_get_def)
  from side_applied_fresh [OF side_wf_Nil distinct_side_batch [OF assms] fresh]
  obtain t where t: "side_applied J [] (side_batch s) = Inr t" "side_wf J t"
    "\<And>x. side_get t x = (case ?m x of None \<Rightarrow> side_get [] x | Some e \<Rightarrow> Some e)" by blast
  have "?m x = side_get s x" for x
  proof (cases "side_get s x")
    case None
    have "canonical_record J r \<noteq> x" if "r \<in> set (side_batch s)" for r
      using that None unfolding in_side_batch [OF assms] by auto
    then have "x \<notin> canonical_record J ` set (side_batch s)" by blast
    with None show ?thesis by (simp add: map_of_eq_None_iff image_image)
  next
    case (Some e)
    have c: "canonical_record J (to_record e) = x" "ssr_weight e \<noteq> 0"
      using side_wf_cell [OF assms Some] by (auto simp: cell_wf_def)
    then have "to_record e \<in> set (side_batch s)" unfolding in_side_batch [OF assms] using Some by auto
    then have "(x, e) \<in> set (map (\<lambda>r. (canonical_record J r, the (cell_of r (rec_weight r)))) (side_batch s))"
      unfolding set_map by (rule image_eqI [rotated]) (simp add: c cell_of_to_record)
    moreover have "distinct (map fst (map (\<lambda>r. (canonical_record J r, the (cell_of r (rec_weight r)))) (side_batch s)))"
      using distinct_side_batch [OF assms] by (simp add: comp_def)
    ultimately show ?thesis by (simp add: Some map_of_is_SomeI del: map_map)
  qed
  then have "side_get t x = side_get s x" for x
    by (simp add: t(3)) (simp add: side_get_def split: option.split)
  then have "t = s" by (rule side_ext [OF t(2) assms])
  with t(1) show ?thesis by simp
qed

end
