(* ===== verification/Decimal.thy ===== *)
theory Decimal
  imports Texts Codec Join_State
begin

text \<open>
  The fixed-scale decimal texts of the aggregates (\<open>parse_decimal128_str\<close>,
  \<open>format_decimal128_value\<close> and their helpers in \<open>velorix-core/src/operator.rs\<close>). A value is
  kept as an integer number of units of the last decimal place. Printing and parsing are inverse
  to each other: parsing a printed value gives the value back, and only the printed form of a
  value is accepted.
\<close>

section \<open>Definitions\<close>

text \<open>\<open>str::parse::<i128>\<close> on a text that is already known to be digits only.\<close>

definition parse_i128_digits :: "string \<Rightarrow> int option" where
  "parse_i128_digits cs = (if cs = [] then None else i128_checked (digits_val cs))"

definition ensure_decimal128_precision :: "nat \<Rightarrow> nat \<Rightarrow> (operator_error, unit) result" where
  "ensure_decimal128_precision value precision =
     (let digits = (if value = 0 then 1 else ilog10 value + 1)
      in if precision < digits then Inl DecimalPrecisionOverflow else Inr ())"

text \<open>The loop \<open>for _ in 0..scale\<close> with \<open>checked_mul\<close>.\<close>

fun decimal128_scale_factor :: "nat \<Rightarrow> int option" where
  "decimal128_scale_factor 0 = Some 1"
| "decimal128_scale_factor (Suc n) =
     (case decimal128_scale_factor n of None \<Rightarrow> None | Some factor \<Rightarrow> i128_checked (factor * 10))"

text \<open>The text without its sign.\<close>

definition decimal_text :: "nat \<Rightarrow> nat \<Rightarrow> string" where
  "decimal_text value scale =
     (let digits = dec value in
      if scale = 0 then digits
      else if length digits \<le> scale then ''0.'' @ replicate (scale - length digits) CHR ''0'' @ digits
      else take (length digits - scale) digits @ ''.'' @ drop (length digits - scale) digits)"

definition format_decimal128_value :: "int \<Rightarrow> nat \<Rightarrow> string" where
  "format_decimal128_value value scale =
     (let decimal = decimal_text (nat \<bar>value\<bar>) scale
      in if value < 0 then CHR ''-'' # decimal else decimal)"

text \<open>\<open>str::split_once('.')\<close>.\<close>

definition split_once_dot :: "string \<Rightarrow> (string \<times> string) option" where
  "split_once_dot cs = (case dropWhile (\<lambda>c. c \<noteq> CHR ''.'') cs of
     [] \<Rightarrow> None | _ # rest \<Rightarrow> Some (takeWhile (\<lambda>c. c \<noteq> CHR ''.'') cs, rest))"

definition decimal_parts :: "string \<Rightarrow> nat \<Rightarrow> (string \<times> string) option" where
  "decimal_parts digits scale = (case split_once_dot digits of
     Some p \<Rightarrow> Some p | None \<Rightarrow> (if scale = 0 then Some (digits, '''') else None))"

definition decimal_magnitude :: "string \<Rightarrow> string \<Rightarrow> nat \<Rightarrow> int option" where
  "decimal_magnitude whole fractional scale =
     (case parse_i128_digits whole of None \<Rightarrow> None | Some magnitude \<Rightarrow>
      (case decimal128_scale_factor scale of None \<Rightarrow> None | Some factor \<Rightarrow>
      (case i128_checked (magnitude * factor) of None \<Rightarrow> None | Some magnitude \<Rightarrow>
         if 0 < scale then
           (case parse_i128_digits fractional of None \<Rightarrow> None | Some f \<Rightarrow> i128_checked (magnitude + f))
         else Some magnitude)))"

definition parse_decimal128_str :: "string \<Rightarrow> nat \<Rightarrow> nat \<Rightarrow> int option" where
  "parse_decimal128_str value precision scale =
     (let negative = (case value of c # _ \<Rightarrow> c = CHR ''-'' | [] \<Rightarrow> False);
          digits = (if negative then tl value else value)
      in if digits = [] then None
         else (case decimal_parts digits scale of
           None \<Rightarrow> None
         | Some (whole, fractional) \<Rightarrow>
             if whole = [] \<or> \<not> list_all is_ascii_digit whole \<or> length fractional \<noteq> scale
                \<or> \<not> list_all is_ascii_digit fractional
             then None
             else (case decimal_magnitude whole fractional scale of
               None \<Rightarrow> None
             | Some magnitude \<Rightarrow>
                 (case ensure_decimal128_precision (nat \<bar>magnitude\<bar>) precision of
                    Inl _ \<Rightarrow> None
                  | Inr _ \<Rightarrow>
                      (case (if negative then i128_checked (- magnitude) else Some magnitude) of
                         None \<Rightarrow> None
                       | Some signed_magnitude \<Rightarrow>
                           if format_decimal128_value signed_magnitude scale \<noteq> value then None
                           else Some signed_magnitude)))))"

definition parse_decimal128_value :: "json \<Rightarrow> nat \<Rightarrow> nat \<Rightarrow> (operator_error, int) result" where
  "parse_decimal128_value value precision scale =
     rbind (ok_or NonDecimalAggregateValue (as_str value)) (\<lambda>text.
       ok_or NonDecimalAggregateValue (parse_decimal128_str text precision scale))"

definition parse_decimal128_value_for_state :: "json \<Rightarrow> nat \<Rightarrow> nat \<Rightarrow> (operator_error, int) result" where
  "parse_decimal128_value_for_state value precision scale =
     rbind (ok_or InvalidAggregateStateValue (as_str value)) (\<lambda>text.
       ok_or InvalidAggregateStateValue (parse_decimal128_str text precision scale))"

section \<open>Precision and scale\<close>

lemma ensure_precision_iff: "ensure_decimal128_precision n p = Inr u \<longleftrightarrow> length (dec n) \<le> p"
  by (auto simp: ensure_decimal128_precision_def length_dec Let_def)

lemma scale_factor: "decimal128_scale_factor n = (if i128_range (10 ^ n) then Some (10 ^ n) else None)"
proof (induction n)
  case (Suc n)
  have "i128_range (10 ^ n)" if "i128_range (10 ^ Suc n)"
    using that zero_less_power [of "10::int" n] by (simp add: i128_range_def)
  with Suc show ?case by (auto simp: i128_checked_def mult.commute)
qed (simp add: i128_range_def)

section \<open>Splitting at the point\<close>

lemma digit_not_dot: "is_ascii_digit c \<Longrightarrow> c \<noteq> CHR ''.''"
  by (auto simp: is_ascii_digit_def)

lemma digit_not_minus: "is_ascii_digit c \<Longrightarrow> c \<noteq> CHR ''-''"
  by (auto simp: is_ascii_digit_def)

lemma split_once_dot_digits:
  assumes "list_all is_ascii_digit cs"
  shows "split_once_dot (cs @ CHR ''.'' # ds) = Some (cs, ds)" and "split_once_dot cs = None"
proof -
  have all: "\<forall>c\<in>set cs. c \<noteq> CHR ''.''" using assms digit_not_dot by (auto simp: list_all_iff)
  then show "split_once_dot (cs @ CHR ''.'' # ds) = Some (cs, ds)"
    by (simp add: split_once_dot_def takeWhile_append2 dropWhile_append2)
  from all have "dropWhile (\<lambda>c. c \<noteq> CHR ''.'') cs = []" by (simp add: dropWhile_eq_Nil_conv)
  then show "split_once_dot cs = None" unfolding split_once_dot_def by (simp only: list.case)
qed

text \<open>The parts of a printed magnitude: digits, as many behind the point as the scale says.\<close>

lemma decimal_text_parts:
  obtains whole fractional where
    "decimal_parts (decimal_text n scale) scale = Some (whole, fractional)" and "whole \<noteq> []"
    and "list_all is_ascii_digit whole" and "list_all is_ascii_digit fractional"
    and "length fractional = scale" and "digits_val whole * 10 ^ scale + digits_val fractional = int n"
proof -
  let ?d = "dec n" and ?k = "length (dec n) - scale"
  have digits: "list_all is_ascii_digit ?d" by (rule dec_is_digit)
  consider (none) "scale = 0" | (short) "0 < scale" "length ?d \<le> scale" | (long) "0 < scale" "scale < length ?d"
    by linarith
  then show thesis
  proof cases
    case none
    show thesis
      by (rule that [of ?d "[]"])
        (use none digits in \<open>simp_all add: decimal_text_def decimal_parts_def split_once_dot_digits digits_val_dec digits_val_def [of "[]"]\<close>)
  next
    case short
    let ?f = "replicate (scale - length ?d) CHR ''0'' @ ?d"
    have "list_all is_ascii_digit ''0''" by (simp add: is_ascii_digit_def)
    from split_once_dot_digits(1) [OF this, of ?f] short
    have "decimal_parts (decimal_text n scale) scale = Some (''0'', ?f)"
      by (simp add: decimal_text_def decimal_parts_def Let_def)
    moreover have "list_all is_ascii_digit ?f" using digits by (auto simp: list_all_iff is_ascii_digit_def)
    moreover have "digits_val ''0'' = 0" by (simp add: digits_val_def digit_val_def)
    ultimately show thesis
      using short by (intro that [of "''0''" ?f]) (simp_all add: digits_val_zeros digits_val_dec is_ascii_digit_def)
  next
    case long
    have parts: "list_all is_ascii_digit (take ?k ?d)" "list_all is_ascii_digit (drop ?k ?d)"
      using digits by (auto simp: list_all_iff dest: in_set_takeD in_set_dropD)
    have "digits_val (take ?k ?d @ drop ?k ?d) = int n" by (simp only: append_take_drop_id digits_val_dec)
    then have "digits_val (take ?k ?d) * 10 ^ scale + digits_val (drop ?k ?d) = int n"
      using long by (simp only: digits_val_append) simp
    moreover have "decimal_parts (decimal_text n scale) scale = Some (take ?k ?d, drop ?k ?d)"
      using long split_once_dot_digits(1) [OF parts(1), of "drop ?k ?d"]
      by (simp add: decimal_text_def decimal_parts_def Let_def)
    ultimately show thesis using long parts by (intro that [of "take ?k ?d" "drop ?k ?d"]) simp_all
  qed
qed

lemma i128_range_mono: "0 \<le> x \<Longrightarrow> x \<le> y \<Longrightarrow> i128_range y \<Longrightarrow> i128_range x"
  unfolding i128_range_def by linarith

lemma i128_power: "s \<le> 38 \<Longrightarrow> i128_range (10 ^ s)"
proof (rule i128_range_mono)
  assume "s \<le> 38"
  then show "(10::int) ^ s \<le> 10 ^ 38" by (rule power_increasing) simp
qed (simp_all add: i128_range_def)

lemma decimal_magnitude_value:
  assumes "list_all is_ascii_digit whole" and "list_all is_ascii_digit fractional" and "whole \<noteq> []"
    and "length fractional = scale" and "scale \<le> 38"
    and sum: "digits_val whole * 10 ^ scale + digits_val fractional = int n" and range: "i128_range (int n)"
  shows "decimal_magnitude whole fractional scale = Some (int n)"
proof -
  have nn: "0 \<le> digits_val whole" "0 \<le> digits_val fractional" using assms(1,2) by (simp_all add: digits_val_nonneg)
  have "digits_val whole * 1 \<le> digits_val whole * 10 ^ scale"
    by (rule mult_left_mono) (use nn in simp_all)
  with nn sum have "digits_val whole \<le> int n" "digits_val whole * 10 ^ scale \<le> int n" "digits_val fractional \<le> int n"
    "0 \<le> digits_val whole * 10 ^ scale" by simp_all
  with nn range have "i128_range (digits_val whole)" "i128_range (digits_val whole * 10 ^ scale)"
    "i128_range (digits_val fractional)" by (blast intro: i128_range_mono)+
  moreover have "scale = 0 \<Longrightarrow> digits_val whole = int n" "scale \<noteq> 0 \<Longrightarrow> fractional \<noteq> []"
    using sum assms(4) by (auto simp: digits_val_def)
  moreover note i128_power [OF assms(5)] sum range assms(3)
  ultimately show ?thesis
    by (auto simp: decimal_magnitude_def parse_i128_digits_def scale_factor i128_checked_def)
qed

lemma decimal_text_head: "decimal_text n scale \<noteq> [] \<and> hd (decimal_text n scale) \<noteq> CHR ''-''"
proof -
  have d: "dec n \<noteq> []" "hd (dec n) \<noteq> CHR ''-''"
    using dec_is_digit [of n] digit_not_minus by (auto simp: list_all_iff)
  then show ?thesis
    by (auto simp: decimal_text_def Let_def hd_append)
qed

lemma parse_format:
  assumes "0 < precision" and "precision \<le> 38" and "scale \<le> 38" and "\<bar>v\<bar> < 10 ^ precision"
  shows "parse_decimal128_str (format_decimal128_value v scale) precision scale = Some v"
proof -
  let ?n = "nat \<bar>v\<bar>" and ?t = "decimal_text (nat \<bar>v\<bar>) scale"
  obtain whole fractional where parts: "decimal_parts ?t scale = Some (whole, fractional)"
    "whole \<noteq> []" "list_all is_ascii_digit whole" "list_all is_ascii_digit fractional"
    "length fractional = scale" "digits_val whole * 10 ^ scale + digits_val fractional = int ?n"
    by (rule decimal_text_parts)
  have "(10::int) ^ precision \<le> 10 ^ 38" by (rule power_increasing) (use assms in simp_all)
  with assms(4) have "int ?n \<le> 10 ^ 38" by simp
  then have range: "i128_range (int ?n)" "i128_range v" "i128_range (- int ?n)"
    unfolding i128_range_def by (simp_all add: abs_le_iff)
  have mag: "decimal_magnitude whole fractional scale = Some (int ?n)"
    by (rule decimal_magnitude_value [OF parts(3,4,2,5) assms(3) parts(6) range(1)])
  have "?n < 10 ^ precision" using assms(4) by (simp add: nat_less_iff)
  then have "ensure_decimal128_precision ?n precision = Inr ()"
    by (simp add: ensure_precision_iff length_dec_le assms(1))
  note facts = parts(1-5) mag this range
  obtain c cs where t: "?t = c # cs" "c \<noteq> CHR ''-''"
    using decimal_text_head [of ?n scale] by (cases ?t) auto
  show ?thesis
  proof (cases "v < 0")
    case True
    then have "format_decimal128_value v scale = CHR ''-'' # ?t" by (simp add: format_decimal128_value_def)
    with True facts t(1) show ?thesis by (simp add: parse_decimal128_str_def i128_checked_def)
  next
    case False
    then have "format_decimal128_value v scale = ?t" by (simp add: format_decimal128_value_def)
    with False facts t show ?thesis by (simp add: parse_decimal128_str_def)
  qed
qed

lemma parse_Some:
  assumes "parse_decimal128_str t precision scale = Some v" and "0 < precision"
  shows "t = format_decimal128_value v scale \<and> \<bar>v\<bar> < 10 ^ precision"
proof -
  from assms(1) obtain m where m: "length (dec (nat \<bar>m\<bar>)) \<le> precision" "v = m \<or> v = - m"
    and t: "t = format_decimal128_value v scale"
    by (auto simp: parse_decimal128_str_def Let_def ensure_precision_iff split: option.splits if_splits sum.splits)
  from m(1) have "nat \<bar>m\<bar> < 10 ^ precision" by (simp add: length_dec_le assms(2))
  then have "\<bar>m\<bar> < 10 ^ precision" by (simp add: nat_less_iff)
  with m(2) t show ?thesis by auto
qed

section \<open>Properties\<close>

text \<open>
  For a precision from 1 to 38 and a scale up to 38, the decimal parser accepts exactly the
  printed texts of the values with at most that many digits, and gives back the value printed.
\<close>

theorem decimal_roundtrip:
  assumes "0 < precision" and "precision \<le> 38" and "scale \<le> 38"
  shows "parse_decimal128_str t precision scale = Some v \<longleftrightarrow>
    t = format_decimal128_value v scale \<and> \<bar>v\<bar> < 10 ^ precision"
  using parse_format [OF assms] parse_Some [of t precision scale v] assms(1) by blast

theorem decimal_roundtrip_witness:
  "parse_decimal128_str ''-12.050'' 6 3 = Some (- 12050) \<and> parse_decimal128_str ''12.05'' 6 3 = None"
proof -
  have "format_decimal128_value (- 12050) 3 = ''-12.050''"
    by (simp add: format_decimal128_value_def decimal_text_def dec.simps char_of_def bit_Suc_0_iff)
  with decimal_roundtrip [of 6 3 "''-12.050''" "- 12050"]
  have "parse_decimal128_str ''-12.050'' 6 3 = Some (- 12050)" by simp
  moreover have "parse_decimal128_str ''12.05'' 6 3 = None"
    by (simp add: parse_decimal128_str_def decimal_parts_def split_once_dot_def)
  ultimately show ?thesis by simp
qed

end
