(* ===== verification/Incremental.thy ===== *)
theory Incremental
  imports Delta
begin

text \<open>
  What it means for an operator to maintain a view incrementally. An operator is a function from
  a state and an input to the next state and a result. It is incremental for a view when every
  batch it emits is the difference between the view after and before the input. The locale
  \<open>incremental_view\<close> is that contract. Its client lemmas lift the contract from one input to any
  sequence of inputs: the batches emitted so far always add up to the current view. Each operator
  theory interprets the locale on its own \<open>apply\<close>.

  A batch is linear in its rows: a sum over the rows of a batch only depends on the net weight
  of each canonical row (\<open>zw_linear\<close>).
\<close>

section \<open>Runs of an operator\<close>

fun run_inputs :: "('s \<Rightarrow> 'i \<Rightarrow> 's \<times> ('e, delta_batch) result) \<Rightarrow> 's \<Rightarrow> 'i list \<Rightarrow> 's \<times> ('e, delta_batch) result" where
  "run_inputs op_apply s [] = (s, Inr [])"
| "run_inputs op_apply s (i # ins) =
     (case op_apply s i of
        (s', Inl e) \<Rightarrow> (s', Inl e)
      | (s', Inr out) \<Rightarrow>
          (case run_inputs op_apply s' ins of
             (s'', Inl e) \<Rightarrow> (s'', Inl e)
           | (s'', Inr outs) \<Rightarrow> (s'', Inr (out @ outs))))"

section \<open>Batches as linear functionals\<close>

lemma zw_linear:
  fixes f :: "string \<times> string \<Rightarrow> int"
  assumes "finite X" and "canonical_record J ` set rs \<subseteq> X"
  shows "(\<Sum>r\<leftarrow>rs. f (canonical_record J r) * rec_weight r) = (\<Sum>x\<in>X. f x * zw J rs x)"
  using assms(2)
proof (induction rs)
  case (Cons r rs)
  have "(\<Sum>x\<in>X. f x * zw J (r # rs) x) =
      (\<Sum>x\<in>X. (if x = canonical_record J r then f x * rec_weight r else 0) + f x * zw J rs x)"
    by (intro sum.cong refl) (auto simp: zw_def distrib_left)
  also have "\<dots> = f (canonical_record J r) * rec_weight r + (\<Sum>x\<in>X. f x * zw J rs x)"
    using assms(1) Cons.prems by (simp add: sum.distrib)
  finally show ?case using Cons by simp
qed (simp add: zw_def)

lemma zw_append: "zw J (xs @ ys) x = zw J xs x + zw J ys x"
  by (simp add: zw_def)

lemma zw_sum_cong:
  fixes f :: "string \<times> string \<Rightarrow> int"
  assumes "\<And>x. zw J rs x = zw J ss x"
  shows "(\<Sum>r\<leftarrow>rs. f (canonical_record J r) * rec_weight r) = (\<Sum>r\<leftarrow>ss. f (canonical_record J r) * rec_weight r)"
proof -
  let ?X = "canonical_record J ` set (rs @ ss)"
  have "(\<Sum>r\<leftarrow>rs. f (canonical_record J r) * rec_weight r) = (\<Sum>x\<in>?X. f x * zw J rs x)"
    by (rule zw_linear) auto
  also have "\<dots> = (\<Sum>x\<in>?X. f x * zw J ss x)" by (simp add: assms)
  also have "\<dots> = (\<Sum>r\<leftarrow>ss. f (canonical_record J r) * rec_weight r)"
    by (rule zw_linear [symmetric]) auto
  finally show ?thesis .
qed

lemma zw_sum_add:
  fixes f :: "string \<times> string \<Rightarrow> int"
  assumes "\<And>x. zw J ts x = zw J rs x + zw J ss x"
  shows "(\<Sum>r\<leftarrow>ts. f (canonical_record J r) * rec_weight r) =
    (\<Sum>r\<leftarrow>rs. f (canonical_record J r) * rec_weight r) + (\<Sum>r\<leftarrow>ss. f (canonical_record J r) * rec_weight r)"
  using zw_sum_cong [of J ts "rs @ ss" f] assms by (simp add: zw_append)

section \<open>The contract of an incremental operator\<close>

locale incremental_view =
  fixes J :: serde
    and op_apply :: "'s \<Rightarrow> 'i \<Rightarrow> 's \<times> ('e, delta_batch) result"
    and ok_input :: "'i \<Rightarrow> bool"
    and inv_state :: "'s \<Rightarrow> bool"
    and view :: "'s \<Rightarrow> string \<times> string \<Rightarrow> int"
  assumes apply_inv: "inv_state s \<Longrightarrow> ok_input i \<Longrightarrow> op_apply s i = (s', Inr out) \<Longrightarrow> inv_state s'"
    and apply_delta: "inv_state s \<Longrightarrow> ok_input i \<Longrightarrow> op_apply s i = (s', Inr out) \<Longrightarrow> view s' x = view s x + zw J out x"
begin

lemma run_view:
  assumes "inv_state s" and "list_all ok_input ins" and "run_inputs op_apply s ins = (s', Inr out)"
  shows "inv_state s' \<and> view s' x = view s x + zw J out x"
  using assms
proof (induction ins arbitrary: s out)
  case Nil
  then show ?case by (simp add: zw_def)
next
  case (Cons i ins)
  from Cons.prems(2) have ok: "ok_input i" "list_all ok_input ins" by simp_all
  from Cons.prems(3) obtain t o1 o2 where
    t: "op_apply s i = (t, Inr o1)" "run_inputs op_apply t ins = (s', Inr o2)" "out = o1 @ o2"
    by (auto split: prod.splits sum.splits)
  from Cons.IH [OF apply_inv [OF Cons.prems(1) ok(1) t(1)] ok(2) t(2)]
    apply_delta [OF Cons.prems(1) ok(1) t(1), of x]
  show ?case by (simp add: t(3) zw_append)
qed

lemma run_from_empty:
  assumes "inv_state s" and "\<And>x. view s x = 0" and "list_all ok_input ins"
    and "run_inputs op_apply s ins = (s', Inr out)"
  shows "zw J out x = view s' x"
  using run_view [OF assms(1,3,4), of x] assms(2) by simp

end

lemma run_inputs_append:
  "run_inputs op_apply s (xs @ ys) = (case run_inputs op_apply s xs of
      (s', Inl e) \<Rightarrow> (s', Inl e)
    | (s', Inr out) \<Rightarrow> (case run_inputs op_apply s' ys of
        (s'', Inl e) \<Rightarrow> (s'', Inl e) | (s'', Inr out') \<Rightarrow> (s'', Inr (out @ out'))))"
  by (induction xs arbitrary: s) (auto split: prod.splits sum.splits)


text \<open>The rows received on one port of an operator.\<close>

definition port_inputs :: "'p \<Rightarrow> ('p \<times> delta_batch) list \<Rightarrow> delta_batch" where
  "port_inputs p ins = concat (map snd (filter (\<lambda>i. fst i = p) ins))"

lemma port_inputs_simps [simp]:
  "port_inputs p [] = []"
  "port_inputs p (i # ins) = (if fst i = p then snd i @ port_inputs p ins else port_inputs p ins)"
  by (simp_all add: port_inputs_def)

section \<open>Total weight of a key\<close>

definition key_weight :: "serde \<Rightarrow> delta_batch \<Rightarrow> string \<Rightarrow> int" where
  "key_weight J rs k = (\<Sum>r\<leftarrow>rs. if canonical_json J (rec_key r) = k then rec_weight r else 0)"

lemma key_weight_simps [simp]:
  "key_weight J [] k = 0"
  "key_weight J (r # rs) k = (if canonical_json J (rec_key r) = k then rec_weight r else 0) + key_weight J rs k"
  "key_weight J (rs @ ss) k = key_weight J rs k + key_weight J ss k"
  by (simp_all add: key_weight_def)

lemma key_weight_linear:
  "key_weight J rs k = (\<Sum>r\<leftarrow>rs. (\<lambda>x. if fst x = k then 1 else 0) (canonical_record J r) * rec_weight r)"
  by (induction rs) (auto simp: canonical_record_def)

lemma key_weight_cong: "(\<And>x. zw J rs x = zw J ss x) \<Longrightarrow> key_weight J rs k = key_weight J ss k"
  unfolding key_weight_linear by (rule zw_sum_cong)

lemma key_weight_absent: "(\<And>r. r \<in> set rs \<Longrightarrow> canonical_json J (rec_key r) \<noteq> k) \<Longrightarrow> key_weight J rs k = 0"
  by (induction rs) auto

lemma zw_absent_key: "(\<And>r. r \<in> set rs \<Longrightarrow> canonical_json J (rec_key r) \<noteq> fst x) \<Longrightarrow> zw J rs x = 0"
  by (rule zw_absent) (metis canonical_record_def fst_conv)

end
