(* ===== verification/Equi_Join.thy ===== *)
theory Equi_Join
  imports Join_State Incremental
begin

text \<open>
  The incremental keyed equi-join (\<open>KeyedEquiJoin\<close> of \<open>velorix-core/src/operator.rs\<close>). Each side
  is retained as a side state. A delta on one side is joined against the other side and then
  applied to its own side. An epoch may also be prepared in overlays and committed later.
  The specification \<open>join_weight\<close> is the ordinary join of two signed batches. The lemmas show
  that every emitted batch is the change of that join, that prepare and commit together do what
  direct application does, and that a saved join is restored to the state it was saved from.

  The value combiner of the source is a closure. It is the field \<open>join_values\<close>; the laws that
  need it to treat rows with the same canonical text alike take \<open>join_respects\<close> as a hypothesis.
\<close>

section \<open>Definitions\<close>

type_synonym join_fun = "json \<Rightarrow> json \<Rightarrow> (operator_error, json) result"

record keyed_equi_join =
  ej_left :: side_state
  ej_right :: side_state
  join_values :: join_fun
  instance_id :: int
  revision :: int

datatype join_input_side = JLeft | JRight

record prepared_epoch =
  base_revision :: int
  join_instance_id :: int
  left_overlay :: side_overlay
  right_overlay :: side_overlay
  pe_touched_keys :: "(string, json) btree_map"
  pe_output :: delta_batch

definition overlay :: "prepared_epoch \<Rightarrow> join_input_side \<Rightarrow> side_overlay" where
  "overlay p side = (case side of JLeft \<Rightarrow> left_overlay p | JRight \<Rightarrow> right_overlay p)"

definition touched_keys :: "serde \<Rightarrow> prepared_epoch \<Rightarrow> join_input_side \<Rightarrow> json list" where
  "touched_keys J p side = filter (\<lambda>key. bt_get (overlay p side) (canonical_json J key) \<noteq> None)
     (bt_values (pe_touched_keys p))"

text \<open>A new join takes the next number of the process-wide instance counter.\<close>

definition equi_join_new :: "join_fun \<Rightarrow> int \<Rightarrow> keyed_equi_join \<times> int" where
  "equi_join_new F next_id =
     (\<lparr>ej_left = [], ej_right = [], join_values = F, instance_id = next_id, revision = 0\<rparr>, u64_wrapping_inc next_id)"

definition equi_join_clone :: "keyed_equi_join \<Rightarrow> int \<Rightarrow> keyed_equi_join \<times> int" where
  "equi_join_clone j next_id = (j\<lparr>instance_id := next_id\<rparr>, u64_wrapping_inc next_id)"

definition checked_weight_product :: "int \<Rightarrow> int \<Rightarrow> (operator_error, int) result" where
  "checked_weight_product left right = ok_or OpWeightOverflow (i64_checked (left * right))"

text \<open>One input row against the rows of the other side that have its key.\<close>

definition join_record :: "join_fun \<Rightarrow> delta_record \<Rightarrow> delta_batch \<Rightarrow> (operator_error, delta_batch) result" where
  "join_record F record others = rmap_list (\<lambda>other.
     rbind (checked_weight_product (rec_weight record) (rec_weight other)) (\<lambda>weight.
     rbind (F (rec_value record) (rec_value other)) (\<lambda>value.
       Inr (delta_record_new (rec_key record) value weight)))) others"

definition join_against :: "serde \<Rightarrow> delta_batch \<Rightarrow> side_state \<Rightarrow> join_fun \<Rightarrow> (operator_error, delta_batch) result" where
  "join_against J input other F =
     rflat_map (\<lambda>record. join_record F record (net_records_for_key J other (rec_key record))) input"

definition apply_left :: "serde \<Rightarrow> keyed_equi_join \<Rightarrow> delta_batch \<Rightarrow>
    keyed_equi_join \<times> (operator_error, delta_batch) result" where
  "apply_left J self input =
     (case join_against J input (ej_right self) (join_values self) of
        Inl e \<Rightarrow> (self, Inl e)
      | Inr output \<Rightarrow> (case side_applied J (ej_left self) input of
          Inl e \<Rightarrow> (self, Inl e)
        | Inr left \<Rightarrow> (self\<lparr>ej_left := left, revision := u64_wrapping_inc (revision self)\<rparr>, Inr output)))"

definition apply_right :: "serde \<Rightarrow> keyed_equi_join \<Rightarrow> delta_batch \<Rightarrow>
    keyed_equi_join \<times> (operator_error, delta_batch) result" where
  "apply_right J self input =
     (case rflat_map (\<lambda>record. join_record (\<lambda>value left. join_values self left value) record
              (net_records_for_key J (ej_left self) (rec_key record))) input of
        Inl e \<Rightarrow> (self, Inl e)
      | Inr output \<Rightarrow> (case side_applied J (ej_right self) input of
          Inl e \<Rightarrow> (self, Inl e)
        | Inr right \<Rightarrow> (self\<lparr>ej_right := right, revision := u64_wrapping_inc (revision self)\<rparr>, Inr output)))"

text \<open>The loop body of \<open>prepare_epoch\<close>, on the two overlays, the touched keys and the output.\<close>

type_synonym prepare_state = "side_overlay \<times> side_overlay \<times> (string, json) btree_map \<times> delta_batch"

definition prepare_record :: "serde \<Rightarrow> keyed_equi_join \<Rightarrow> join_input_side \<Rightarrow> delta_record \<Rightarrow>
    prepare_state \<Rightarrow> (operator_error, prepare_state) result" where
  "prepare_record J self side record st =
     (case st of (lo, ro, touched, output) \<Rightarrow>
        let key = canonical_json J (rec_key record);
            touched' = (if bt_get touched key = None then bt_insert key (rec_key record) touched else touched)
        in case side of
             JLeft \<Rightarrow>
               rbind (join_record (join_values self) record
                 (merged_records_for_key J (ej_right self) ro (rec_key record))) (\<lambda>rows.
               rbind (apply_overlay_record J (ej_left self) lo record) (\<lambda>lo'.
               Inr (lo', ro, touched', output @ rows)))
           | JRight \<Rightarrow>
               rbind (join_record (\<lambda>value other. join_values self other value) record
                 (merged_records_for_key J (ej_left self) lo (rec_key record))) (\<lambda>rows.
               rbind (apply_overlay_record J (ej_right self) ro record) (\<lambda>ro'.
               Inr (lo, ro', touched', output @ rows))))"

definition prepare_input :: "serde \<Rightarrow> keyed_equi_join \<Rightarrow> join_input_side \<times> delta_batch \<Rightarrow>
    prepare_state \<Rightarrow> (operator_error, prepare_state) result" where
  "prepare_input J self i st = rfold (prepare_record J self (fst i)) (snd i) st"

definition prepare_epoch :: "serde \<Rightarrow> keyed_equi_join \<Rightarrow> nat \<Rightarrow> (join_input_side \<times> delta_batch) list \<Rightarrow>
    (operator_error, prepared_epoch) result" where
  "prepare_epoch J self logical_epoch inputs =
     rbind (rfold (prepare_input J self) inputs ([], [], [], [])) (\<lambda>(lo, ro, touched, output).
       Inr \<lparr>base_revision = revision self, join_instance_id = instance_id self,
            left_overlay = lo, right_overlay = ro, pe_touched_keys = touched, pe_output = output\<rparr>)"

definition validate_prepared_epoch :: "keyed_equi_join \<Rightarrow> prepared_epoch \<Rightarrow> (operator_error, unit) result" where
  "validate_prepared_epoch self prepared =
     (if join_instance_id prepared \<noteq> instance_id self \<or> base_revision prepared \<noteq> revision self
      then Inl OpWeightOverflow else Inr ())"

definition commit_prepared_epoch :: "keyed_equi_join \<Rightarrow> prepared_epoch \<Rightarrow>
    keyed_equi_join \<times> (operator_error, unit) result" where
  "commit_prepared_epoch self prepared =
     (case validate_prepared_epoch self prepared of
        Inl e \<Rightarrow> (self, Inl e)
      | Inr _ \<Rightarrow> (self\<lparr>ej_left := apply_overlay (ej_left self) (left_overlay prepared),
                   ej_right := apply_overlay (ej_right self) (right_overlay prepared),
                   revision := u64_wrapping_inc (revision self)\<rparr>, Inr ()))"

definition prepared_side_records :: "serde \<Rightarrow> keyed_equi_join \<Rightarrow> prepared_epoch \<Rightarrow> join_input_side \<Rightarrow>
    json \<Rightarrow> bool \<Rightarrow> delta_batch" where
  "prepared_side_records J self prepared side key after =
     (let base = (case side of JLeft \<Rightarrow> ej_left self | JRight \<Rightarrow> ej_right self)
      in if after then merged_records_for_key J base (overlay prepared side) key
         else net_records_for_key J base key)"

definition left_state :: "keyed_equi_join \<Rightarrow> delta_batch" where
  "left_state self = side_batch (ej_left self)"

definition right_state :: "keyed_equi_join \<Rightarrow> delta_batch" where
  "right_state self = side_batch (ej_right self)"

text \<open>\<open>restore_state\<close>: the revision is advanced with \<open>checked_add\<close>.\<close>

definition restore_state :: "serde \<Rightarrow> keyed_equi_join \<Rightarrow> delta_batch \<Rightarrow> delta_batch \<Rightarrow>
    keyed_equi_join \<times> (operator_error, unit) result" where
  "restore_state J self left right =
     (case side_applied J [] left of
        Inl e \<Rightarrow> (self, Inl e)
      | Inr restored_left \<Rightarrow> (case side_applied J [] right of
          Inl e \<Rightarrow> (self, Inl e)
        | Inr restored_right \<Rightarrow> (case u64_checked_inc (revision self) of
            None \<Rightarrow> (self, Inl OpWeightOverflow)
          | Some next_revision \<Rightarrow>
              (self\<lparr>ej_left := restored_left, ej_right := restored_right, revision := next_revision\<rparr>, Inr ()))))"

section \<open>Specification\<close>

definition joined :: "serde \<Rightarrow> (operator_error, json) result \<Rightarrow> string option" where
  "joined J m = (case m of Inl _ \<Rightarrow> None | Inr v \<Rightarrow> Some (canonical_json J v))"

definition join_respects :: "serde \<Rightarrow> join_fun \<Rightarrow> bool" where
  "join_respects J F \<longleftrightarrow> (\<forall>a a' b b'. canonical_json J a = canonical_json J a' \<longrightarrow>
     canonical_json J b = canonical_json J b' \<longrightarrow> joined J (F a b) = joined J (F a' b'))"

text \<open>The weight of a row in the join of two batches.\<close>

definition join_weight :: "serde \<Rightarrow> join_fun \<Rightarrow> delta_batch \<Rightarrow> delta_batch \<Rightarrow> string \<times> string \<Rightarrow> int" where
  "join_weight J F L R x = (\<Sum>l\<leftarrow>L. \<Sum>r\<leftarrow>R.
     if canonical_json J (rec_key l) = fst x \<and> canonical_json J (rec_key r) = fst x
        \<and> joined J (F (rec_value l) (rec_value r)) = Some (snd x)
     then rec_weight l * rec_weight r else 0)"

definition join_wf :: "serde \<Rightarrow> keyed_equi_join \<Rightarrow> bool" where
  "join_wf J j \<longleftrightarrow> side_wf J (ej_left j) \<and> side_wf J (ej_right j) \<and> join_respects J (join_values j)"

definition join_view :: "serde \<Rightarrow> keyed_equi_join \<Rightarrow> string \<times> string \<Rightarrow> int" where
  "join_view J j = join_weight J (join_values j) (left_state j) (right_state j)"

definition apply_side :: "serde \<Rightarrow> keyed_equi_join \<Rightarrow> join_input_side \<times> delta_batch \<Rightarrow>
    keyed_equi_join \<times> (operator_error, delta_batch) result" where
  "apply_side J j i = (case fst i of JLeft \<Rightarrow> apply_left J j (snd i) | JRight \<Rightarrow> apply_right J j (snd i))"

text \<open>A combiner that pairs the two values, for concrete runs.\<close>

definition pair_values :: join_fun where
  "pair_values a b = Inr (JArray [a, b])"

definition sample_inputs :: "(join_input_side \<times> delta_batch) list" where
  "sample_inputs =
     [(JLeft, [delta_record_new (JString ''k'') (JBool True) 2, delta_record_new (JString ''m'') JNull 1]),
      (JRight, [delta_record_new (JString ''k'') JNull 3]),
      (JLeft, [delta_record_new (JString ''k'') (JBool True) (- 1)])]"

section \<open>The join of two batches is bilinear\<close>

lemma join_respects_canonical:
  assumes "join_respects J F"
  shows "\<exists>G. \<forall>a b. joined J (F a b) = G (canonical_json J a) (canonical_json J b)"
proof
  let ?G = "\<lambda>c d. joined J (F (SOME a. canonical_json J a = c) (SOME b. canonical_json J b = d))"
  show "\<forall>a b. joined J (F a b) = ?G (canonical_json J a) (canonical_json J b)"
  proof (intro allI)
    fix a b
    have "canonical_json J (SOME a'. canonical_json J a' = canonical_json J a) = canonical_json J a"
      "canonical_json J (SOME b'. canonical_json J b' = canonical_json J b) = canonical_json J b"
      by (rule someI [where x = a], rule refl) (rule someI [where x = b], rule refl)
    with assms show "joined J (F a b) = ?G (canonical_json J a) (canonical_json J b)"
      unfolding join_respects_def by metis
  qed
qed

lemma join_weight_add_left:
  assumes "join_respects J F" and "\<And>y. zw J T y = zw J L y + zw J D y"
  shows "join_weight J F T R x = join_weight J F L R x + join_weight J F D R x"
proof -
  from join_respects_canonical [OF assms(1)] obtain G
    where G: "\<And>a b. joined J (F a b) = G (canonical_json J a) (canonical_json J b)" by blast
  define f where "f y = (\<Sum>r\<leftarrow>R. if fst y = fst x \<and> canonical_json J (rec_key r) = fst x
      \<and> G (snd y) (canonical_json J (rec_value r)) = Some (snd x) then rec_weight r else 0)" for y
  have "join_weight J F L R x = (\<Sum>l\<leftarrow>L. f (canonical_record J l) * rec_weight l)" for L
    unfolding join_weight_def f_def sum_list_mult_const [symmetric]
    by (intro arg_cong [where f = sum_list] map_cong refl) (simp add: canonical_record_def G mult.commute)
  then show ?thesis using zw_sum_add [of J T L D f, OF assms(2)] by simp
qed

lemma sum_list_swap2: "(\<Sum>x\<leftarrow>xs. \<Sum>y\<leftarrow>ys. f x y) = (\<Sum>y\<leftarrow>ys. \<Sum>x\<leftarrow>xs. (f x y :: int))"
  by (induction xs) (simp_all add: sum_list_addf)

lemma join_weight_flip: "join_weight J (\<lambda>a b. F b a) R L x = join_weight J F L R x"
proof -
  have "join_weight J F L R x = (\<Sum>r\<leftarrow>R. \<Sum>l\<leftarrow>L.
     if canonical_json J (rec_key l) = fst x \<and> canonical_json J (rec_key r) = fst x
        \<and> joined J (F (rec_value l) (rec_value r)) = Some (snd x)
     then rec_weight l * rec_weight r else 0)"
    unfolding join_weight_def by (rule sum_list_swap2)
  then show ?thesis by (simp only: join_weight_def mult.commute conj_commute conj_left_commute)
qed

lemma join_respects_flip: "join_respects J (\<lambda>a b. F b a) = join_respects J F"
  by (auto simp: join_respects_def)

lemma join_weight_add_right:
  assumes "join_respects J F" and "\<And>y. zw J T y = zw J R y + zw J D y"
  shows "join_weight J F L T x = join_weight J F L R x + join_weight J F L D x"
  using join_weight_add_left [of J "\<lambda>a b. F b a" T R D L x] assms
  by (simp only: join_respects_flip [of J F] join_weight_flip [of J F])

lemma join_weight_cong:
  assumes "join_respects J F" and "\<And>y. zw J L y = zw J L' y" and "\<And>y. zw J R y = zw J R' y"
  shows "join_weight J F L R x = join_weight J F L' R' x"
  using join_weight_add_left [OF assms(1), of L L' "[]" R x] join_weight_add_right [OF assms(1), of R R' "[]" L' x]
    assms(2,3)
  by (simp add: zw_def join_weight_def)

section \<open>One delta\<close>

lemma join_record_Inr_Cons:
  "join_record F r (q # qs) = Inr out \<longleftrightarrow> (\<exists>v rest. i64_range (rec_weight r * rec_weight q)
     \<and> F (rec_value r) (rec_value q) = Inr v \<and> join_record F r qs = Inr rest
     \<and> out = delta_record_new (rec_key r) v (rec_weight r * rec_weight q) # rest)"
  by (auto simp: join_record_def checked_weight_product_def res_simps)

lemma zw_join_record:
  "join_record F r others = Inr out \<Longrightarrow> zw J out x = (\<Sum>q\<leftarrow>others.
     if canonical_json J (rec_key r) = fst x \<and> joined J (F (rec_value r) (rec_value q)) = Some (snd x)
     then rec_weight r * rec_weight q else 0)"
proof (induction others arbitrary: out)
  case Nil
  then show ?case by (simp add: join_record_def zw_def)
next
  case (Cons q qs)
  then show ?case
    by (auto simp: join_record_Inr_Cons zw_def canonical_record_def delta_record_new_def joined_def prod_eq_iff)
qed

lemma sum_list_filter_if:
  "(\<Sum>q\<leftarrow>filter P qs. f q) = (\<Sum>q\<leftarrow>qs. if P q then f q else (0::int))"
  by (induction qs) auto

lemma zw_join_against:
  assumes "side_wf J s"
  shows "join_against J input s F = Inr out \<Longrightarrow> zw J out x = join_weight J F input (side_batch s) x"
proof (induction input arbitrary: out)
  case Nil
  then show ?case by (simp add: join_against_def join_weight_def zw_def)
next
  case (Cons r rs)
  from Cons.prems obtain o1 o2 where
    o: "join_record F r (net_records_for_key J s (rec_key r)) = Inr o1"
       "join_against J rs s F = Inr o2" "out = o1 @ o2"
    by (auto simp: join_against_def res_simps)
  have "zw J o1 x = (\<Sum>q\<leftarrow>side_batch s. if canonical_json J (rec_key r) = fst x
      \<and> canonical_json J (rec_key q) = fst x \<and> joined J (F (rec_value r) (rec_value q)) = Some (snd x)
     then rec_weight r * rec_weight q else 0)"
    unfolding zw_join_record [OF o(1)] net_records_for_key_filter [OF assms] sum_list_filter_if
    by (intro arg_cong [where f = sum_list] map_cong refl) auto
  with Cons.IH [OF o(2)] show ?case by (simp add: o(3) zw_append join_weight_def)
qed

lemma apply_left_Inr:
  "apply_left J j d = (j', Inr out) \<longleftrightarrow> (\<exists>s. join_against J d (ej_right j) (join_values j) = Inr out
     \<and> side_applied J (ej_left j) d = Inr s \<and> j' = j\<lparr>ej_left := s, revision := u64_wrapping_inc (revision j)\<rparr>)"
  by (auto simp: apply_left_def split: sum.splits)

lemma apply_right_Inr:
  "apply_right J j d = (j', Inr out) \<longleftrightarrow> (\<exists>s. join_against J d (ej_left j) (\<lambda>a b. join_values j b a) = Inr out
     \<and> side_applied J (ej_right j) d = Inr s \<and> j' = j\<lparr>ej_right := s, revision := u64_wrapping_inc (revision j)\<rparr>)"
  by (auto simp: apply_right_def join_against_def split: sum.splits)

lemma apply_side_error: "apply_side J j i = (j', Inl e) \<Longrightarrow> j' = j"
  by (auto simp: apply_side_def apply_left_def apply_right_def split: sum.splits join_input_side.splits)

lemma apply_side_state:
  assumes "join_wf J j" and "apply_side J j i = (j', Inr out)"
  shows "join_wf J j' \<and> join_values j' = join_values j
    \<and> zw J (left_state j') x = zw J (left_state j) x + (if fst i = JLeft then zw J (snd i) x else 0)
    \<and> zw J (right_state j') x = zw J (right_state j) x + (if fst i = JRight then zw J (snd i) x else 0)"
proof (cases "fst i")
  case JLeft
  with assms(2) obtain s where s: "side_applied J (ej_left j) (snd i) = Inr s"
    "j' = j\<lparr>ej_left := s, revision := u64_wrapping_inc (revision j)\<rparr>" by (auto simp: apply_side_def apply_left_Inr)
  from assms(1) side_applied_wf [OF _ s(1)] side_applied_weight [OF _ s(1), of x] show ?thesis
    by (simp add: s(2) JLeft join_wf_def left_state_def right_state_def zw_side_batch)
next
  case JRight
  with assms(2) obtain s where s: "side_applied J (ej_right j) (snd i) = Inr s"
    "j' = j\<lparr>ej_right := s, revision := u64_wrapping_inc (revision j)\<rparr>" by (auto simp: apply_side_def apply_right_Inr)
  from assms(1) side_applied_wf [OF _ s(1)] side_applied_weight [OF _ s(1), of x] show ?thesis
    by (simp add: s(2) JRight join_wf_def left_state_def right_state_def zw_side_batch)
qed

lemma apply_side_delta:
  assumes "join_wf J j" and "apply_side J j i = (j', Inr out)"
  shows "join_view J j' x = join_view J j x + zw J out x"
proof (cases "fst i")
  case JLeft
  with assms(2) have out: "join_against J (snd i) (ej_right j) (join_values j) = Inr out" and R: "right_state j' = right_state j"
    by (auto simp: apply_side_def apply_left_Inr right_state_def)
  from assms(1) zw_join_against [OF _ out] have "zw J out x = join_weight J (join_values j) (snd i) (right_state j) x"
    by (simp add: join_wf_def right_state_def)
  moreover have "join_weight J (join_values j) (left_state j') (right_state j) x =
      join_weight J (join_values j) (left_state j) (right_state j) x + join_weight J (join_values j) (snd i) (right_state j) x"
    by (rule join_weight_add_left) (use assms JLeft apply_side_state [OF assms] in \<open>auto simp: join_wf_def\<close>)
  ultimately show ?thesis using apply_side_state [OF assms] by (simp add: join_view_def R)
next
  case JRight
  with assms(2) have out: "join_against J (snd i) (ej_left j) (\<lambda>a b. join_values j b a) = Inr out" and L: "left_state j' = left_state j"
    by (auto simp: apply_side_def apply_right_Inr left_state_def)
  from assms(1) zw_join_against [OF _ out] have "zw J out x = join_weight J (join_values j) (left_state j) (snd i) x"
    by (simp only: join_wf_def left_state_def join_weight_flip [of J "join_values j"])
  moreover have "join_weight J (join_values j) (left_state j) (right_state j') x =
      join_weight J (join_values j) (left_state j) (right_state j) x + join_weight J (join_values j) (left_state j) (snd i) x"
    by (rule join_weight_add_right) (use assms JRight apply_side_state [OF assms] in \<open>auto simp: join_wf_def\<close>)
  ultimately show ?thesis using apply_side_state [OF assms] by (simp add: join_view_def L)
qed

interpretation inner: incremental_view J "apply_side J" "\<lambda>_. True" "join_wf J" "join_view J" for J
  by unfold_locales (use apply_side_state apply_side_delta in blast)+


section \<open>Prepared epochs\<close>

text \<open>
  What a prepared state stands for: its overlays, read over the base, are the sides of a join
  to which the inputs so far have been applied directly.
\<close>

definition prepares :: "serde \<Rightarrow> keyed_equi_join \<Rightarrow> prepare_state \<Rightarrow> keyed_equi_join \<Rightarrow> delta_batch \<Rightarrow> bool" where
  "prepares J j st j' out = (case st of (lo, ro, touched, output) \<Rightarrow>
     overlay_wf J lo \<and> overlay_wf J ro \<and> output = out \<and> join_values j' = join_values j \<and>
     instance_id j' = instance_id j \<and> ej_left j' = apply_overlay (ej_left j) lo \<and> ej_right j' = apply_overlay (ej_right j) ro)"

lemma prepare_record_left:
  "prepare_record J j JLeft r (lo, ro, t, out) =
     rbind (join_record (join_values j) r (merged_records_for_key J (ej_right j) ro (rec_key r))) (\<lambda>rows.
     rbind (apply_overlay_record J (ej_left j) lo r) (\<lambda>lo'. Inr (lo', ro,
       if bt_get t (canonical_json J (rec_key r)) = None then bt_insert (canonical_json J (rec_key r)) (rec_key r) t else t,
       out @ rows)))"
  by (simp add: prepare_record_def Let_def)

lemma prepare_record_right:
  "prepare_record J j JRight r (lo, ro, t, out) =
     rbind (join_record (\<lambda>a b. join_values j b a) r (merged_records_for_key J (ej_left j) lo (rec_key r))) (\<lambda>rows.
     rbind (apply_overlay_record J (ej_right j) ro r) (\<lambda>ro'. Inr (lo, ro',
       if bt_get t (canonical_json J (rec_key r)) = None then bt_insert (canonical_json J (rec_key r)) (rec_key r) t else t,
       out @ rows)))"
  by (simp add: prepare_record_def Let_def)

lemma join_against_Cons:
  "join_against J (r # rs) s F = rbind (join_record F r (net_records_for_key J s (rec_key r)))
     (\<lambda>ys. rbind (join_against J rs s F) (\<lambda>zs. Inr (ys @ zs)))"
  by (simp add: join_against_def)

lemma prepare_left_records:
  assumes "side_wf J (ej_left j)" "side_wf J (ej_right j)" "overlay_wf J ro"
  shows "overlay_wf J lo \<Longrightarrow>
    (case rfold (prepare_record J j JLeft) rs (lo, ro, t, out) of
       Inr st \<Rightarrow> \<exists>lo' t' rows. st = (lo', ro, t', out @ rows) \<and> overlay_wf J lo'
         \<and> join_against J rs (apply_overlay (ej_right j) ro) (join_values j) = Inr rows
         \<and> side_applied J (apply_overlay (ej_left j) lo) rs = Inr (apply_overlay (ej_left j) lo')
     | Inl e \<Rightarrow> (\<exists>e. join_against J rs (apply_overlay (ej_right j) ro) (join_values j) = Inl e)
         \<or> (\<exists>e. side_applied J (apply_overlay (ej_left j) lo) rs = Inl e))"
proof (induction rs arbitrary: lo t out)
  case Nil
  then show ?case by (simp add: join_against_def)
next
  case (Cons r rs)
  note merged = merged_records_for_key_eq [OF assms(2,3), of "rec_key r"]
  show ?case
  proof (cases "join_record (join_values j) r (net_records_for_key J (apply_overlay (ej_right j) ro) (rec_key r))")
    case (Inl e)
    then show ?thesis by (simp add: prepare_record_left merged join_against_Cons)
  next
    case rows: (Inr rows)
    show ?thesis
    proof (cases "apply_overlay_record J (ej_left j) lo r")
      case (Inl e)
      from iffD1 [OF apply_overlay_record_Inl [OF assms(1) Cons.prems] Inl] show ?thesis
        by (simp add: prepare_record_left merged rows Inl)
    next
      case (Inr lo')
      note add = apply_overlay_record_Inr [OF assms(1) Cons.prems Inr]
      show ?thesis
        using Cons.IH [OF add(1), of "out @ rows" "if bt_get t (canonical_json J (rec_key r)) = None
            then bt_insert (canonical_json J (rec_key r)) (rec_key r) t else t"]
        by (auto simp: prepare_record_left merged rows Inr join_against_Cons add(2) split: sum.splits)
    qed
  qed
qed

lemma prepare_right_records:
  assumes "side_wf J (ej_left j)" "side_wf J (ej_right j)" "overlay_wf J lo"
  shows "overlay_wf J ro \<Longrightarrow>
    (case rfold (prepare_record J j JRight) rs (lo, ro, t, out) of
       Inr st \<Rightarrow> \<exists>ro' t' rows. st = (lo, ro', t', out @ rows) \<and> overlay_wf J ro'
         \<and> join_against J rs (apply_overlay (ej_left j) lo) (\<lambda>a b. join_values j b a) = Inr rows
         \<and> side_applied J (apply_overlay (ej_right j) ro) rs = Inr (apply_overlay (ej_right j) ro')
     | Inl e \<Rightarrow> (\<exists>e. join_against J rs (apply_overlay (ej_left j) lo) (\<lambda>a b. join_values j b a) = Inl e)
         \<or> (\<exists>e. side_applied J (apply_overlay (ej_right j) ro) rs = Inl e))"
proof (induction rs arbitrary: ro t out)
  case Nil
  then show ?case by (simp add: join_against_def)
next
  case (Cons r rs)
  note merged = merged_records_for_key_eq [OF assms(1,3), of "rec_key r"]
  show ?case
  proof (cases "join_record (\<lambda>a b. join_values j b a) r (net_records_for_key J (apply_overlay (ej_left j) lo) (rec_key r))")
    case (Inl e)
    then show ?thesis by (simp add: prepare_record_right merged join_against_Cons)
  next
    case rows: (Inr rows)
    show ?thesis
    proof (cases "apply_overlay_record J (ej_right j) ro r")
      case (Inl e)
      from iffD1 [OF apply_overlay_record_Inl [OF assms(2) Cons.prems] Inl] show ?thesis
        by (simp add: prepare_record_right merged rows Inl)
    next
      case (Inr ro')
      note add = apply_overlay_record_Inr [OF assms(2) Cons.prems Inr]
      show ?thesis
        using Cons.IH [OF add(1), of "out @ rows" "if bt_get t (canonical_json J (rec_key r)) = None
            then bt_insert (canonical_json J (rec_key r)) (rec_key r) t else t"]
        by (auto simp: prepare_record_right merged rows Inr join_against_Cons add(2) split: sum.splits)
    qed
  qed
qed

lemma prepare_input_step:
  assumes "side_wf J (ej_left j)" "side_wf J (ej_right j)" and "prepares J j st j1 out"
  shows "case apply_side J j1 i of
       (j2, Inr rows) \<Rightarrow> \<exists>st'. prepare_input J j i st = Inr st' \<and> prepares J j st' j2 (out @ rows)
     | (j2, Inl e) \<Rightarrow> \<exists>e'. prepare_input J j i st = Inl e'"
proof -
  obtain lo ro t where st: "st = (lo, ro, t, out)" and wf: "overlay_wf J lo" "overlay_wf J ro"
    and j1: "join_values j1 = join_values j" "instance_id j1 = instance_id j" "ej_left j1 = apply_overlay (ej_left j) lo"
      "ej_right j1 = apply_overlay (ej_right j) ro"
    using assms(3) by (auto simp: prepares_def split: prod.splits)
  show ?thesis
  proof (cases "fst i")
    case JLeft
    from prepare_left_records [OF assms(1,2) wf(2,1), where rs = "snd i" and t = t and out = out] show ?thesis
      using wf by (auto simp: JLeft st prepare_input_def apply_side_def apply_left_def j1 prepares_def split: sum.splits)
  next
    case JRight
    from prepare_right_records [OF assms(1,2) wf(1,2), where rs = "snd i" and t = t and out = out] show ?thesis
      using wf by (auto simp: JRight st prepare_input_def apply_side_def apply_right_def j1 prepares_def
          join_against_def split: sum.splits)
  qed
qed

lemma prepare_inputs:
  assumes "side_wf J (ej_left j)" "side_wf J (ej_right j)"
  shows "prepares J j st j1 out \<Longrightarrow> (case run_inputs (apply_side J) j1 ins of
       (j2, Inr rows) \<Rightarrow> \<exists>st'. rfold (prepare_input J j) ins st = Inr st' \<and> prepares J j st' j2 (out @ rows)
     | (j2, Inl e) \<Rightarrow> \<exists>e'. rfold (prepare_input J j) ins st = Inl e')"
proof (induction ins arbitrary: st j1 out)
  case (Cons i ins)
  obtain j2 res where step: "apply_side J j1 i = (j2, res)" by (cases "apply_side J j1 i")
  show ?case
  proof (cases res)
    case (Inl e)
    with prepare_input_step [OF assms Cons.prems, of i] step show ?thesis by (auto simp: res_simps)
  next
    case (Inr rows)
    with prepare_input_step [OF assms Cons.prems, of i] step obtain st'
      where st': "prepare_input J j i st = Inr st'" "prepares J j st' j2 (out @ rows)" by auto
    from Cons.IH [OF st'(2)] show ?thesis
      by (auto simp: step Inr st'(1) split: prod.splits sum.splits)
  qed
qed simp


lemma prepared_commit:
  assumes "rfold (prepare_input J j) ins ([], [], [], []) = Inr st" and "prepares J j st j2 rows"
  shows "\<exists>p. prepare_epoch J j epoch ins = Inr p \<and> pe_output p = rows \<and>
    commit_prepared_epoch j p = (j2\<lparr>revision := u64_wrapping_inc (revision j)\<rparr>, Inr ())"
proof -
  obtain lo ro t where st: "st = (lo, ro, t, rows)"
    using assms(2) by (auto simp: prepares_def split: prod.splits)
  let ?p = "\<lparr>base_revision = revision j, join_instance_id = instance_id j,
     left_overlay = lo, right_overlay = ro, pe_touched_keys = t, pe_output = rows\<rparr>"
  have "prepare_epoch J j epoch ins = Inr ?p" using assms(1) by (simp add: prepare_epoch_def st)
  moreover have "commit_prepared_epoch j ?p = (j2\<lparr>revision := u64_wrapping_inc (revision j)\<rparr>, Inr ())"
    using assms(2)
    by (auto simp: commit_prepared_epoch_def validate_prepared_epoch_def prepares_def st
        intro!: keyed_equi_join.equality)
  ultimately show ?thesis by auto
qed

section \<open>Properties\<close>

lemma run_sides_state:
  assumes "join_wf J j" and "run_inputs (apply_side J) j ins = (j', Inr out)"
  shows "join_wf J j' \<and> join_values j' = join_values j
    \<and> zw J (left_state j') x = zw J (left_state j) x + zw J (port_inputs JLeft ins) x
    \<and> zw J (right_state j') x = zw J (right_state j) x + zw J (port_inputs JRight ins) x"
  using assms
proof (induction ins arbitrary: j out)
  case Nil
  then show ?case by (simp add: zw_def)
next
  case (Cons i ins)
  from Cons.prems(2) obtain j1 o1 o2 where
    j1: "apply_side J j i = (j1, Inr o1)" "run_inputs (apply_side J) j1 ins = (j', Inr o2)"
    by (auto split: prod.splits sum.splits)
  note step = apply_side_state [OF Cons.prems(1) j1(1), of x]
  from step Cons.IH [OF conjunct1 [OF step] j1(2)] show ?case
    by (cases "fst i") (auto simp: zw_append)
qed

lemma new_join_wf: "join_respects J F \<Longrightarrow> join_wf J (fst (equi_join_new F n))"
  by (simp add: join_wf_def equi_join_new_def)

lemma new_join_states [simp]:
  "left_state (fst (equi_join_new F n)) = []" "right_state (fst (equi_join_new F n)) = []"
  "join_values (fst (equi_join_new F n)) = F"
  by (simp_all add: equi_join_new_def left_state_def right_state_def side_batch_def)

text \<open>
  C1: The incremental join computes the join. Starting from a new join, whatever deltas are
  applied to the two sides and in whatever order, the batches emitted along the way add up, row
  by row, to the join of everything received on the left with everything received on the right.
\<close>

theorem equi_join_correct:
  assumes "join_respects J F"
    and "run_inputs (apply_side J) (fst (equi_join_new F n)) ins = (j', Inr out)"
  shows "zw J out x = join_weight J F (port_inputs JLeft ins) (port_inputs JRight ins) x"
proof -
  note wf = new_join_wf [OF assms(1), of n]
  have "zw J out x = join_view J j' x"
    by (rule inner.run_from_empty [OF wf _ _ assms(2)]) (simp_all add: join_view_def join_weight_def list_all_iff)
  also have "\<dots> = join_weight J F (left_state j') (right_state j') x"
    using run_sides_state [OF wf assms(2)] by (simp add: join_view_def)
  also have "\<dots> = join_weight J F (port_inputs JLeft ins) (port_inputs JRight ins) x"
    by (rule join_weight_cong [OF assms(1)])
       (use run_sides_state [OF wf assms(2)] in \<open>simp_all add: zw_def\<close>)
  finally show ?thesis .
qed

lemma pair_values_respects: "join_respects J pair_values"
  by (simp add: join_respects_def joined_def pair_values_def)

theorem equi_join_correct_witness:
  "join_respects serde_ref pair_values \<and>
   (\<exists>j' out. run_inputs (apply_side serde_ref) (fst (equi_join_new pair_values 1)) sample_inputs = (j', Inr out)
      \<and> zw serde_ref out (''\"k\"'', ''[true,null]'') = 3)"
proof -
  have "isl (snd (run_inputs (apply_side serde_ref) (fst (equi_join_new pair_values 1)) sample_inputs)) = False"
    by code_simp
  then obtain j' out where
    run: "run_inputs (apply_side serde_ref) (fst (equi_join_new pair_values 1)) sample_inputs = (j', Inr out)"
    using not_isl_pair by blast
  have "join_weight serde_ref pair_values (port_inputs JLeft sample_inputs) (port_inputs JRight sample_inputs)
      (''\"k\"'', ''[true,null]'') = 3" by code_simp
  then show ?thesis
    using equi_join_correct [OF pair_values_respects run, of "(''\"k\"'', ''[true,null]'')"] run pair_values_respects by auto
qed


text \<open>
  C6: Preparing an epoch and committing it is the same as applying its inputs one after the
  other. The prepared output is the concatenation of the direct outputs. The commit leaves the
  same two sides. Preparation fails exactly when direct application fails. Preparing itself has
  no effect on the join, so a failed or abandoned epoch changes nothing.
\<close>

theorem prepare_commit_equals_apply:
  assumes "side_wf J (ej_left j)" "side_wf J (ej_right j)"
  shows "case run_inputs (apply_side J) j ins of
      (j2, Inr rows) \<Rightarrow> \<exists>p. prepare_epoch J j epoch ins = Inr p \<and> pe_output p = rows \<and>
        commit_prepared_epoch j p = (j2\<lparr>revision := u64_wrapping_inc (revision j)\<rparr>, Inr ())
    | (j2, Inl e) \<Rightarrow> \<exists>e'. prepare_epoch J j epoch ins = Inl e'"
proof -
  have "prepares J j ([], [], [], []) j []" by (simp add: prepares_def apply_overlay_def)
  from prepare_inputs [OF assms this, of ins] show ?thesis
    using prepared_commit [where J = J and j = j and ins = ins and epoch = epoch]
    by (auto simp: prepare_epoch_def split: prod.splits sum.splits)
qed

theorem prepare_commit_equals_apply_witness:
  "side_wf serde_ref (ej_left (fst (equi_join_new pair_values 1)))
   \<and> (\<exists>p j2 rows. run_inputs (apply_side serde_ref) (fst (equi_join_new pair_values 1)) sample_inputs = (j2, Inr rows)
      \<and> prepare_epoch serde_ref (fst (equi_join_new pair_values 1)) 1 sample_inputs = Inr p \<and> pe_output p = rows)"
proof -
  let ?j = "fst (equi_join_new pair_values 1)"
  have "isl (snd (run_inputs (apply_side serde_ref) ?j sample_inputs)) = False"
    by code_simp
  then obtain j' out where run: "run_inputs (apply_side serde_ref) ?j sample_inputs = (j', Inr out)"
    using not_isl_pair by blast
  have "side_wf serde_ref (ej_left ?j)" "side_wf serde_ref (ej_right ?j)" by (simp_all add: equi_join_new_def)
  from prepare_commit_equals_apply [OF this, where ins = sample_inputs and epoch = 1] this run show ?thesis by auto
qed

text \<open>
  A prepared epoch is committed at most once and never onto a join that has moved on. After
  a successful commit, or after any successful direct application or restore, the same prepared
  epoch is rejected and the join is left as it is.
\<close>

theorem prepared_epoch_commits_once:
  assumes "join_instance_id p = instance_id j" and "base_revision p = revision j"
    and "commit_prepared_epoch j p = (j', Inr ()) \<or> apply_side J j i = (j', Inr out)
      \<or> restore_state J j l r = (j', Inr ())"
  shows "commit_prepared_epoch j' p = (j', Inl OpWeightOverflow)"
proof -
  have "revision j' = u64_wrapping_inc (revision j) \<or> revision j' = revision j + 1"
    using assms(3)
    by (auto simp: commit_prepared_epoch_def validate_prepared_epoch_def apply_side_def apply_left_Inr
        apply_right_Inr restore_state_def u64_checked_inc_def split: if_splits sum.splits join_input_side.splits)
  then have "revision j' \<noteq> base_revision p" using u64_wrapping_inc_neq [of "revision j"] assms(2) by auto
  then show ?thesis by (simp add: commit_prepared_epoch_def validate_prepared_epoch_def)
qed

theorem prepared_epoch_commits_once_witness:
  "\<exists>p j'. prepare_epoch serde_ref (fst (equi_join_new pair_values 1)) 1 sample_inputs = Inr p
     \<and> commit_prepared_epoch (fst (equi_join_new pair_values 1)) p = (j', Inr ())
     \<and> commit_prepared_epoch j' p = (j', Inl OpWeightOverflow)"
proof -
  let ?j = "fst (equi_join_new pair_values 1)"
  have "isl (prepare_epoch serde_ref ?j 1 sample_inputs) = False" by code_simp
  then obtain p where p: "prepare_epoch serde_ref ?j 1 sample_inputs = Inr p"
    by (cases "prepare_epoch serde_ref ?j 1 sample_inputs") auto
  then have ids: "join_instance_id p = instance_id ?j" "base_revision p = revision ?j"
    by (auto simp: prepare_epoch_def res_simps)
  then obtain j' where j': "commit_prepared_epoch ?j p = (j', Inr ())"
    by (simp add: commit_prepared_epoch_def validate_prepared_epoch_def)
  from prepared_epoch_commits_once [OF ids, of j'] p j' show ?thesis by blast
qed

text \<open>
  A join restored from the saved batches of a join has exactly its two sides, down to the
  order and the stored form of every row, whatever the restoring join held before.
\<close>

theorem restore_state_roundtrip:
  assumes "side_wf J (ej_left j)" "side_wf J (ej_right j)" and "revision k + 1 < 2 ^ 64"
  shows "restore_state J k (left_state j) (right_state j) =
    (k\<lparr>ej_left := ej_left j, ej_right := ej_right j, revision := revision k + 1\<rparr>, Inr ())"
  using assms side_restore [OF assms(1)] side_restore [OF assms(2)]
  by (simp add: restore_state_def left_state_def right_state_def u64_checked_inc_def)

lemma run_sides_wf:
  assumes "join_respects J F" and "run_inputs (apply_side J) (fst (equi_join_new F n)) ins = (j', Inr out)"
  shows "side_wf J (ej_left j')" "side_wf J (ej_right j')"
  using run_sides_state [OF new_join_wf [OF assms(1)] assms(2)] by (auto simp: join_wf_def)

theorem restore_state_roundtrip_witness:
  "\<exists>j out. run_inputs (apply_side serde_ref) (fst (equi_join_new pair_values 1)) sample_inputs = (j, Inr out)
     \<and> ej_left j \<noteq> [] \<and> fst (restore_state serde_ref (fst (equi_join_new pair_values 7)) (left_state j) (right_state j))
       = (fst (equi_join_new pair_values 7))\<lparr>ej_left := ej_left j, ej_right := ej_right j, revision := 1\<rparr>"
proof -
  have "(\<lambda>r. isl (snd r) = False \<and> ej_left (fst r) \<noteq> [])
     (run_inputs (apply_side serde_ref) (fst (equi_join_new pair_values 1)) sample_inputs)" by code_simp
  then obtain j out where run: "run_inputs (apply_side serde_ref) (fst (equi_join_new pair_values 1)) sample_inputs = (j, Inr out)"
    and ne: "ej_left j \<noteq> []"
    using not_isl_pair by (metis fst_conv)
  from restore_state_roundtrip [OF run_sides_wf [OF pair_values_respects run], of "fst (equi_join_new pair_values 7)"]
  show ?thesis using run ne by (auto simp: equi_join_new_def)
qed

end
