(* ===== verification/Native_Common.thy ===== *)
theory Native_Common
  imports Equi_Join
begin

text \<open>
  What the native operators of \<open>velorix-core/src/native_operator.rs\<close> share: their errors, the
  checkpoint types with the header check, the port check, and the counting of the rows of a key
  that the semi, anti, left and full joins each repeat. \<open>key_count\<close> is proved to return the
  total weight of the key on every state in which no row of the key is negative.
\<close>

section \<open>Definitions\<close>

datatype native_operator_error =
    NOperator operator_error
  | NDelta delta_error
  | InvalidGraph string
  | InvalidCheckpoint string
  | NonMonotonicEpoch nat nat
  | NegativeTopKMultiplicity
  | NegativeLeftJoinMultiplicity
  | NegativeFullJoinMultiplicity
  | NegativeSemiJoinMultiplicity
  | NegativeAntiJoinMultiplicity

datatype native_operator_state =
    Stateless
  | Unary delta_batch
  | Binary delta_batch delta_batch

record native_operator_checkpoint =
  cp_node_id :: string
  cp_codec_id :: string
  cp_codec_version :: nat
  cp_state :: native_operator_state

definition validate_checkpoint_header :: "native_operator_checkpoint \<Rightarrow> string \<Rightarrow> string \<Rightarrow>
    (native_operator_error, unit) result" where
  "validate_checkpoint_header checkpoint node_id codec_id =
     (if cp_node_id checkpoint \<noteq> node_id \<or> cp_codec_id checkpoint \<noteq> codec_id \<or> cp_codec_version checkpoint \<noteq> 1
      then Inl (InvalidCheckpoint ''operator checkpoint identity or codec does not match'')
      else Inr ())"

definition stateless_checkpoint :: "string \<Rightarrow> string \<Rightarrow> native_operator_checkpoint" where
  "stateless_checkpoint node_id codec_id =
     \<lparr>cp_node_id = node_id, cp_codec_id = codec_id, cp_codec_version = 1, cp_state = Stateless\<rparr>"

text \<open>
  \<open>validate_checkpoint_identity\<close> is only called with the stateless state: a checkpoint of another
  kind is unequal to it.
\<close>

definition validate_checkpoint_identity :: "native_operator_checkpoint \<Rightarrow> string \<Rightarrow> string \<Rightarrow>
    (native_operator_error, unit) result" where
  "validate_checkpoint_identity checkpoint node_id codec_id =
     rbind (validate_checkpoint_header checkpoint node_id codec_id) (\<lambda>_.
       if cp_state checkpoint \<noteq> Stateless
       then Inl (InvalidCheckpoint ''stateless operator checkpoint contains state'') else Inr ())"

definition require_port :: "string \<Rightarrow> string \<Rightarrow> (native_operator_error, unit) result" where
  "require_port port_id expected =
     (if port_id \<noteq> expected
      then Inl (InvalidGraph (''expected input port '' @ expected @ '', found '' @ port_id)) else Inr ())"

abbreviation (input) nnet_rows :: "serde \<Rightarrow> delta_batch \<Rightarrow> (native_operator_error, delta_batch) result" where
  "nnet_rows J state \<equiv> rmap_err NDelta (net_rows J state)"

text \<open>
  The counting loop the joins share: the rows of the key in the consolidated state, in order,
  a negative one being an error. The error is the operator's own.
\<close>

definition count_row :: "native_operator_error \<Rightarrow> delta_record \<Rightarrow> int \<Rightarrow> (native_operator_error, int) result" where
  "count_row negative row n =
     (if rec_weight row < 0 then Inl negative
      else ok_or (NOperator OpWeightOverflow) (i64_checked (n + rec_weight row)))"

definition key_count :: "native_operator_error \<Rightarrow> serde \<Rightarrow> delta_batch \<Rightarrow> json \<Rightarrow>
    (native_operator_error, int) result" where
  "key_count negative J state key =
     rbind (nnet_rows J state) (\<lambda>rows.
       rfold (count_row negative) (filter (\<lambda>row. json_eq (rec_key row) key) rows) 0)"

definition touched_key_map :: "serde \<Rightarrow> delta_batch \<Rightarrow> (string, json) btree_map" where
  "touched_key_map J input = bt_collect (map (\<lambda>row. (canonical_json J (rec_key row), rec_key row)) input)"

section \<open>Counting the rows of a key\<close>

lemma count_row_Inr:
  "count_row negative r n = Inr m \<longleftrightarrow> 0 \<le> rec_weight r \<and> i64_range (n + rec_weight r) \<and> m = n + rec_weight r"
  by (auto simp: count_row_def res_simps)

lemma count_rows_Inr:
  "rfold (count_row negative) rows n = Inr c \<Longrightarrow>
     (\<forall>r \<in> set rows. 0 \<le> rec_weight r) \<and> c = n + (\<Sum>r\<leftarrow>rows. rec_weight r)"
proof (induction rows arbitrary: n)
  case (Cons r rows)
  then have r: "0 \<le> rec_weight r" "rfold (count_row negative) rows (n + rec_weight r) = Inr c"
    by (auto simp: res_simps count_row_Inr)
  from Cons.IH [OF r(2)] r(1) show ?case by simp
qed simp

lemma key_weight_filter:
  assumes "\<And>r. r \<in> set rs \<Longrightarrow> P r \<longleftrightarrow> canonical_json J (rec_key r) = k"
  shows "(\<Sum>r\<leftarrow>filter P rs. rec_weight r) = key_weight J rs k"
  using assms by (induction rs) auto

lemma key_weight_nonneg: "(\<And>r. r \<in> set rs \<Longrightarrow> 0 \<le> rec_weight r) \<Longrightarrow> 0 \<le> key_weight J rs k"
  by (induction rs) auto

lemma touched_key_map_keys: "bt_wf (touched_key_map J input)"
  by (simp add: touched_key_map_def)

lemma touched_key_map_get:
  "bt_get (touched_key_map J input) k = Some key \<Longrightarrow>
     k = canonical_json J key \<and> key \<in> rec_key ` set input"
  unfolding touched_key_map_def bt_get_collect
  by (auto dest!: map_of_SomeD)

lemma touched_key_map_untouched:
  "bt_get (touched_key_map J input) k = None \<longleftrightarrow> (\<forall>r \<in> set input. canonical_json J (rec_key r) \<noteq> k)"
  unfolding touched_key_map_def bt_get_collect by (simp add: map_of_eq_None_iff image_image) blast

context serde_laws
begin

lemma key_eq_canonical:
  "json_wf k \<Longrightarrow> json_wf k' \<Longrightarrow> json_eq k k' \<longleftrightarrow> canonical_json J k = canonical_json J k'"
  by (simp add: canonical_json_eq_iff)

lemma filter_key_iff:
  "batch_wf rs \<Longrightarrow> json_wf key \<Longrightarrow> r \<in> set rs \<Longrightarrow>
     json_eq (rec_key r) key \<longleftrightarrow> canonical_json J (rec_key r) = canonical_json J key"
  by (simp add: key_eq_canonical batch_wf_iff row_wf_def pair_wf_def)

lemma net_rows_key_weight:
  "batch_wf rs \<Longrightarrow> net_rows J rs = Inr out \<Longrightarrow> key_weight J out k = key_weight J rs k"
  by (rule key_weight_cong) (rule net_rows_zw)

lemma key_count_Inr:
  assumes "batch_wf state" and "json_wf key" and "key_count negative J state key = Inr c"
  shows "c = key_weight J state (canonical_json J key)" and "0 \<le> c"
proof -
  from assms(3) obtain rows where rows: "net_rows J state = Inr rows"
    and fold: "rfold (count_row negative) (filter (\<lambda>row. json_eq (rec_key row) key) rows) 0 = Inr c"
    by (auto simp: key_count_def res_simps)
  have wf: "batch_wf rows" by (rule net_rows_wf [OF assms(1) rows])
  let ?rows = "filter (\<lambda>row. json_eq (rec_key row) key) rows"
  from count_rows_Inr [OF fold] have nonneg: "\<And>r. r \<in> set ?rows \<Longrightarrow> 0 \<le> rec_weight r"
    and c: "c = (\<Sum>r\<leftarrow>?rows. rec_weight r)" by auto
  from nonneg show "0 \<le> c" unfolding c by (intro sum_list_nonneg) auto
  have "c = key_weight J rows (canonical_json J key)"
    unfolding c by (rule key_weight_filter) (rule filter_key_iff [OF wf assms(2)])
  then show "c = key_weight J state (canonical_json J key)"
    using net_rows_key_weight [OF assms(1) rows] by simp
qed

lemma zw_filter_key:
  assumes "batch_wf rs" and "json_wf key"
  shows "zw J (filter (\<lambda>r. json_eq (rec_key r) key) rs) x = (if canonical_json J key = fst x then zw J rs x else 0)"
  using assms(1)
proof (induction rs)
  case (Cons r rs)
  have key: "json_eq (rec_key r) key \<longleftrightarrow> canonical_json J (rec_key r) = canonical_json J key"
    by (rule filter_key_iff [OF Cons.prems assms(2)]) simp
  have wf: "batch_wf rs" using Cons.prems by simp
  show ?case
  proof (cases "canonical_record J r = x")
    case True
    then have "fst x = canonical_json J (rec_key r)" unfolding canonical_record_def by (metis fst_conv)
    then have "json_eq (rec_key r) key \<longleftrightarrow> canonical_json J key = fst x" unfolding key by auto
    with True Cons.IH [OF wf] show ?thesis by simp
  next
    case False
    with Cons.IH [OF wf] show ?thesis by simp
  qed
qed simp

lemma touched_keys_wf: "batch_wf d \<Longrightarrow> list_all json_wf (bt_values (touched_key_map J d))"
proof -
  assume wf: "batch_wf d"
  have "json_wf key" if "(k, key) \<in> set (touched_key_map J d)" for k key
  proof -
    have "bt_get (touched_key_map J d) k = Some key"
      using that bt.in_entries_iff [OF touched_key_map_keys] by blast
    from touched_key_map_get [OF this] wf show ?thesis by (auto simp: batch_wf_iff row_wf_def pair_wf_def)
  qed
  then show ?thesis by (auto simp: list_all_iff)
qed

text \<open>Summing a change over the touched keys picks the change of one key.\<close>

lemma sum_touched_keys:
  assumes "key_weight J d (fst x) = 0 \<and> (\<forall>r \<in> set d. canonical_json J (rec_key r) \<noteq> fst x) \<Longrightarrow> c = (0::int)"
  shows "(\<Sum>key\<leftarrow>bt_values (touched_key_map J d). if canonical_json J key = fst x then c else 0) = c"
proof -
  let ?m = "touched_key_map J d"
  have "(\<Sum>key\<leftarrow>bt_values ?m. if canonical_json J key = fst x then c else 0) =
      (\<Sum>(k, key)\<leftarrow>?m. if k = fst x then c else 0)"
    unfolding map_map
  proof (intro arg_cong [where f = sum_list] map_cong refl)
    fix e assume "e \<in> set ?m"
    then have "bt_get ?m (fst e) = Some (snd e)"
      using bt.in_entries_iff [OF touched_key_map_keys, where k = "fst e" and v = "snd e"] by simp
    from touched_key_map_get [OF this]
    show "((\<lambda>key. if canonical_json J key = fst x then c else 0) \<circ> snd) e = (case e of (k, key) \<Rightarrow> if k = fst x then c else 0)"
      by (simp add: case_prod_unfold)
  qed
  also have "\<dots> = (case bt_get ?m (fst x) of None \<Rightarrow> 0 | Some key \<Rightarrow> c)"
    by (rule bt_sum_at [OF touched_key_map_keys])
  also have "\<dots> = c"
    using assms touched_key_map_untouched [of J d "fst x"] key_weight_absent [of d J "fst x"]
    by (auto split: option.split)
  finally show ?thesis .
qed

lemma touched_keys_distinct: "distinct (map (canonical_json J) (bt_values (touched_key_map J d)))"
proof -
  have "map (canonical_json J) (bt_values (touched_key_map J d)) = map fst (touched_key_map J d)"
    unfolding map_map
  proof (rule map_cong [OF refl])
    fix e assume "e \<in> set (touched_key_map J d)"
    then have "bt_get (touched_key_map J d) (fst e) = Some (snd e)"
      using bt.in_entries_iff [OF touched_key_map_keys, where k = "fst e" and v = "snd e"] by simp
    from touched_key_map_get [OF this] show "(canonical_json J \<circ> snd) e = fst e" by simp
  qed
  then show ?thesis using bt.entries_distinct [OF touched_key_map_keys, of J d] by (simp only:)
qed

lemma fold_touched:
  assumes "\<And>key o0 o1. json_wf key \<Longrightarrow> tr key o0 = Inr o1 \<Longrightarrow>
      \<exists>rows. o1 = o0 @ rows \<and> batch_wf rows \<and> zw J rows x = (if canonical_json J key = fst x then c else 0)"
  shows "list_all json_wf keys \<Longrightarrow> batch_wf out0 \<Longrightarrow> rfold tr keys out0 = Inr out \<Longrightarrow>
    batch_wf out \<and> zw J out x = zw J out0 x + (\<Sum>key\<leftarrow>keys. if canonical_json J key = fst x then c else 0)"
proof (induction keys arbitrary: out0)
  case (Cons key keys)
  from Cons.prems(3) obtain out1 where out1: "tr key out0 = Inr out1" "rfold tr keys out1 = Inr out"
    by (auto simp: res_simps)
  from assms [OF _ out1(1)] Cons.prems(1) obtain rows where rows: "out1 = out0 @ rows" "batch_wf rows"
    "zw J rows x = (if canonical_json J key = fst x then c else 0)" by auto
  from Cons.IH [OF _ _ out1(2)] Cons.prems(1,2) rows show ?case by simp
qed simp

text \<open>
  A loop over the touched keys of a delta in which each key contributes the same change to the
  weight of a row with that key, changes the weight of the row once.
\<close>

lemma touched_fold:
  assumes "\<And>key o0 o1. json_wf key \<Longrightarrow> tr key o0 = Inr o1 \<Longrightarrow>
      \<exists>rows. o1 = o0 @ rows \<and> batch_wf rows \<and> zw J rows x = (if canonical_json J key = fst x then c else 0)"
    and "key_weight J d (fst x) = 0 \<and> (\<forall>r \<in> set d. canonical_json J (rec_key r) \<noteq> fst x) \<Longrightarrow> c = (0::int)"
    and "batch_wf d" and "batch_wf out0"
    and "rfold tr (bt_values (touched_key_map J d)) out0 = Inr out"
  shows "batch_wf out \<and> zw J out x = zw J out0 x + c"
  using fold_touched [OF assms(1) touched_keys_wf [OF assms(3)] assms(4,5)] sum_touched_keys [OF assms(2)] by simp

end

end
