(* ===== verification/Aggregate.thy ===== *)
theory Aggregate
  imports Decimal Native_Common
begin

text \<open>
  The keyed sum and count aggregate (\<open>KeyedSumCountAggregate\<close> and \<open>AggregateEntry\<close>,
  \<open>AggregateChange\<close>, \<open>AggregateValueMode\<close> in \<open>velorix-core/src/operator.rs\<close>) and the native
  operator around it (\<open>NativeAggregateOperator\<close> in \<open>native_operator.rs\<close>). For every key it keeps
  the sum and the count of the weighted amounts, and, when it tracks extrema, the multiplicity
  of every amount. After any sequence of inputs the retained rows are the aggregates of all rows
  received, the emitted batches add up to exactly these rows, and an aggregate restored from its
  saved rows is the aggregate that saved them.
\<close>

section \<open>Definitions\<close>

datatype aggregate_value_mode = IntegerMode | Decimal128 nat nat

fun parse_input :: "aggregate_value_mode \<Rightarrow> json \<Rightarrow> (operator_error, int) result" where
  "parse_input IntegerMode value = ok_or NonIntegerAggregateValue (as_i64 value)"
| "parse_input (Decimal128 precision scale) value = parse_decimal128_value value precision scale"

fun parse_state_sum :: "aggregate_value_mode \<Rightarrow> json \<Rightarrow> (operator_error, int) result" where
  "parse_state_sum IntegerMode value = ok_or InvalidAggregateStateValue (as_i64 value)"
| "parse_state_sum (Decimal128 precision scale) value = parse_decimal128_value_for_state value precision scale"

fun aggregate_sum_json_value :: "int \<Rightarrow> aggregate_value_mode \<Rightarrow> (operator_error, json) result" where
  "aggregate_sum_json_value amount IntegerMode =
     rbind (ok_or OpWeightOverflow (i64_checked amount)) (\<lambda>amount. Inr (json_of_i64 amount))"
| "aggregate_sum_json_value amount (Decimal128 precision scale) =
     rbind (ensure_decimal128_precision (nat \<bar>amount\<bar>) precision) (\<lambda>_.
       Inr (JString (format_decimal128_value amount scale)))"

record aggregate_value_entry =
  av_value :: json
  av_weight :: int

type_synonym aggregate_values = "(int, aggregate_value_entry) btree_map"

record aggregate_entry =
  ae_key :: json
  ae_sum :: int
  ae_count :: int
  ae_values :: aggregate_values

definition add_weighted :: "aggregate_entry \<Rightarrow> int \<Rightarrow> int \<Rightarrow> int \<Rightarrow> (operator_error, aggregate_entry) result" where
  "add_weighted self amount n weight =
     rbind (ok_or OpWeightOverflow (i128_checked (amount * weight))) (\<lambda>sum_delta.
     rbind (ok_or OpWeightOverflow (i128_checked (n * weight))) (\<lambda>count_delta.
     rbind (ok_or OpWeightOverflow (i128_checked (ae_sum self + sum_delta))) (\<lambda>sum.
     rbind (ok_or OpWeightOverflow (i128_checked (ae_count self + count_delta))) (\<lambda>n.
       Inr (self\<lparr>ae_sum := sum, ae_count := n\<rparr>)))))"

definition entry_is_zero :: "aggregate_entry \<Rightarrow> bool" where
  "entry_is_zero self \<longleftrightarrow> ae_sum self = 0 \<and> ae_count self = 0 \<and> ae_values self = []"

definition value_row :: "aggregate_value_entry \<Rightarrow> (operator_error, json) result" where
  "value_row entry = rbind (ok_or OpWeightOverflow (i64_checked (av_weight entry))) (\<lambda>weight.
     Inr (JObject [(''value'', av_value entry), (''weight'', json_of_i64 weight)]))"

definition extrema_fields :: "aggregate_entry \<Rightarrow> (operator_error, (string \<times> json) list) result" where
  "extrema_fields self =
     (case ae_values self of
        [] \<Rightarrow> Inl InvalidAggregateStateValue
      | first # rest \<Rightarrow> rbind (rmap_list value_row (bt_values (ae_values self))) (\<lambda>rows.
          Inr [(''min'', av_value (snd first)), (''max'', av_value (snd (last (first # rest)))),
               (''values'', JArray rows)]))"

definition entry_to_record :: "aggregate_entry \<Rightarrow> int \<Rightarrow> aggregate_value_mode \<Rightarrow> bool \<Rightarrow>
    (operator_error, delta_record) result" where
  "entry_to_record self weight value_mode track_extrema =
     rbind (ok_or OpWeightOverflow (i64_checked (ae_count self))) (\<lambda>n.
     rbind (aggregate_sum_json_value (ae_sum self) value_mode) (\<lambda>sum.
     rbind (if track_extrema then extrema_fields self else Inr []) (\<lambda>extrema.
       Inr (delta_record_new (ae_key self)
         (JObject ([(''sum'', sum), (''count'', json_of_i64 n)] @ extrema)) weight))))"

definition value_weight :: "aggregate_values \<Rightarrow> int \<Rightarrow> int" where
  "value_weight values a = (case bt_get values a of None \<Rightarrow> 0 | Some entry \<Rightarrow> av_weight entry)"

definition add_value_weight_to_map :: "aggregate_values \<Rightarrow> int \<Rightarrow> json \<Rightarrow> int \<Rightarrow> bool \<Rightarrow>
    (operator_error, aggregate_values) result" where
  "add_value_weight_to_map values order_value value weight_delta reject_negative =
     rbind (ok_or OpWeightOverflow (i128_checked (value_weight values order_value + weight_delta))) (\<lambda>next_weight.
       if reject_negative \<and> next_weight < 0 then Inl InvalidAggregateStateValue
       else if next_weight = 0 then Inr (bt_remove order_value values)
       else Inr (bt_insert order_value \<lparr>av_value = value, av_weight = next_weight\<rparr> values))"

definition add_value_weight :: "aggregate_entry \<Rightarrow> int \<Rightarrow> json \<Rightarrow> int \<Rightarrow> int \<Rightarrow>
    (operator_error, aggregate_entry) result" where
  "add_value_weight self order_value value weight record_weight =
     rbind (ok_or OpWeightOverflow (i128_checked (weight * record_weight))) (\<lambda>delta.
     rbind (ok_or OpWeightOverflow (i128_checked (value_weight (ae_values self) order_value + delta))) (\<lambda>next_weight.
       if next_weight < 0 then Inl InvalidAggregateStateValue
       else if next_weight = 0 then Inr (self\<lparr>ae_values := bt_remove order_value (ae_values self)\<rparr>)
       else Inr (self\<lparr>ae_values :=
         bt_insert order_value \<lparr>av_value = value, av_weight = next_weight\<rparr> (ae_values self)\<rparr>)))"

text \<open>Reading a saved row.\<close>

definition state_value :: "aggregate_value_mode \<Rightarrow> json \<Rightarrow> aggregate_values \<Rightarrow>
    (operator_error, aggregate_values) result" where
  "state_value value_mode value state_values =
     rbind (ok_or InvalidAggregateStateValue (as_object value)) (\<lambda>fields.
     rbind (ok_or InvalidAggregateStateValue (map_of fields ''value'')) (\<lambda>aggregate_value.
     rbind (parse_state_sum value_mode aggregate_value) (\<lambda>order_value.
     rbind (ok_or InvalidAggregateStateValue (Option.bind (map_of fields ''weight'') as_i64)) (\<lambda>weight.
       if weight = 0 then Inl InvalidAggregateStateValue
       else Inr (bt_insert order_value \<lparr>av_value = aggregate_value, av_weight = weight\<rparr> state_values)))))"

definition aggregate_state_sum_count_values :: "json \<Rightarrow> aggregate_value_mode \<Rightarrow> bool \<Rightarrow>
    (operator_error, int \<times> int \<times> aggregate_values) result" where
  "aggregate_state_sum_count_values value value_mode track_extrema =
     rbind (rbind (ok_or InvalidAggregateStateValue (json_get value ''sum'')) (parse_state_sum value_mode)) (\<lambda>sum.
     rbind (ok_or InvalidAggregateStateValue (Option.bind (json_get value ''count'') as_i64)) (\<lambda>n.
     rbind (if track_extrema then
         rbind (ok_or InvalidAggregateStateValue (Option.bind (json_get value ''values'') as_array)) (\<lambda>values.
         rbind (rfold (state_value value_mode) values []) (\<lambda>state_values.
           if state_values = [] then Inl InvalidAggregateStateValue else Inr state_values))
       else Inr []) (\<lambda>values. Inr (sum, n, values))))"

definition validate_aggregate_entries :: "(string, aggregate_entry) btree_map \<Rightarrow> aggregate_value_mode \<Rightarrow> bool \<Rightarrow>
    (operator_error, unit) result" where
  "validate_aggregate_entries state value_mode track_extrema =
     rfold (\<lambda>entry _. rbind (entry_to_record entry 1 value_mode track_extrema) (\<lambda>_. Inr ())) (bt_values state) ()"

text \<open>The change one input makes to a key.\<close>

record aggregate_change =
  ac_key :: json
  ac_sum_delta :: int
  ac_count_delta :: int
  ac_value_deltas :: aggregate_values

definition change_new :: "json \<Rightarrow> aggregate_change" where
  "change_new key = \<lparr>ac_key = key, ac_sum_delta = 0, ac_count_delta = 0, ac_value_deltas = []\<rparr>"

definition change_add :: "aggregate_change \<Rightarrow> int \<Rightarrow> json \<Rightarrow> int \<Rightarrow> (operator_error, aggregate_change) result" where
  "change_add self amount value weight =
     rbind (ok_or OpWeightOverflow (i128_checked (amount * weight))) (\<lambda>weighted_amount.
     rbind (ok_or OpWeightOverflow (i128_checked (ac_sum_delta self + weighted_amount))) (\<lambda>sum_delta.
     rbind (ok_or OpWeightOverflow (i128_checked (ac_count_delta self + weight))) (\<lambda>count_delta.
     rbind (ok_or OpWeightOverflow (i128_checked (value_weight (ac_value_deltas self) amount + weight))) (\<lambda>next_weight.
       Inr \<lparr>ac_key = ac_key self, ac_sum_delta = sum_delta, ac_count_delta = count_delta,
            ac_value_deltas = (if next_weight = 0 then bt_remove amount (ac_value_deltas self)
              else bt_insert amount \<lparr>av_value = value, av_weight = next_weight\<rparr> (ac_value_deltas self))\<rparr>))))"

definition entry_sum :: "aggregate_entry option \<Rightarrow> int" where
  "entry_sum entry = (case entry of None \<Rightarrow> 0 | Some e \<Rightarrow> ae_sum e)"

definition entry_count :: "aggregate_entry option \<Rightarrow> int" where
  "entry_count entry = (case entry of None \<Rightarrow> 0 | Some e \<Rightarrow> ae_count e)"

definition entry_values :: "aggregate_entry option \<Rightarrow> aggregate_values" where
  "entry_values entry = (case entry of None \<Rightarrow> [] | Some e \<Rightarrow> ae_values e)"

definition apply_to :: "aggregate_change \<Rightarrow> aggregate_entry option \<Rightarrow> bool \<Rightarrow>
    (operator_error, aggregate_entry option) result" where
  "apply_to self before track_extrema =
     rbind (ok_or OpWeightOverflow (i128_checked (entry_sum before + ac_sum_delta self))) (\<lambda>sum.
     rbind (ok_or OpWeightOverflow (i128_checked (entry_count before + ac_count_delta self))) (\<lambda>n.
     rbind (if track_extrema then
         rfold (\<lambda>(order_value, value) values.
           add_value_weight_to_map values order_value (av_value value) (av_weight value) True)
           (ac_value_deltas self) (entry_values before)
       else Inr (entry_values before)) (\<lambda>values.
       if sum = 0 \<and> n = 0 \<and> (\<not> track_extrema \<or> values = []) then Inr None
       else Inr (Some \<lparr>ae_key = (case before of None \<Rightarrow> ac_key self | Some e \<Rightarrow> ae_key e),
                       ae_sum = sum, ae_count = n, ae_values = values\<rparr>))))"

text \<open>The derived equality of entries, as \<open>before == after\<close> uses it.\<close>

definition value_entry_eq :: "aggregate_value_entry \<Rightarrow> aggregate_value_entry \<Rightarrow> bool" where
  "value_entry_eq u v \<longleftrightarrow> json_eq (av_value u) (av_value v) \<and> av_weight u = av_weight v"

definition aggregate_entry_eq :: "aggregate_entry \<Rightarrow> aggregate_entry \<Rightarrow> bool" where
  "aggregate_entry_eq a b \<longleftrightarrow> json_eq (ae_key a) (ae_key b) \<and> ae_sum a = ae_sum b \<and> ae_count a = ae_count b
     \<and> list_all2 (\<lambda>(k, u) (l, v). k = l \<and> value_entry_eq u v) (ae_values a) (ae_values b)"

definition entry_option_eq :: "aggregate_entry option \<Rightarrow> aggregate_entry option \<Rightarrow> bool" where
  "entry_option_eq a b = rel_option aggregate_entry_eq a b"

text \<open>The aggregate.\<close>

record keyed_sum_count_aggregate =
  ag_state :: "(string, aggregate_entry) btree_map"
  ag_value_mode :: aggregate_value_mode
  ag_track_extrema :: bool

record prepared_aggregate_changes =
  pa_changes :: "(string, aggregate_entry option) btree_map"
  pa_output :: delta_batch

definition with_value_mode_and_extrema :: "aggregate_value_mode \<Rightarrow> bool \<Rightarrow> keyed_sum_count_aggregate" where
  "with_value_mode_and_extrema value_mode track_extrema =
     \<lparr>ag_state = [], ag_value_mode = value_mode, ag_track_extrema = track_extrema\<rparr>"

definition restore_entry :: "serde \<Rightarrow> aggregate_value_mode \<Rightarrow> bool \<Rightarrow> delta_record \<Rightarrow>
    (string, aggregate_entry) btree_map \<Rightarrow> (operator_error, (string, aggregate_entry) btree_map) result" where
  "restore_entry J value_mode track_extrema rec state =
     rbind (aggregate_state_sum_count_values (rec_value rec) value_mode track_extrema) (\<lambda>(sum, n, values).
       let key = canonical_json J (rec_key rec);
           entry = (case bt_get state key of Some e \<Rightarrow> e
             | None \<Rightarrow> \<lparr>ae_key = rec_key rec, ae_sum = 0, ae_count = 0, ae_values = []\<rparr>)
       in rbind (add_weighted entry sum n (rec_weight rec)) (\<lambda>entry.
          rbind (if track_extrema then
              rfold (\<lambda>(order_value, value) entry.
                add_value_weight entry order_value (av_value value) (av_weight value) (rec_weight rec)) values entry
            else Inr entry) (\<lambda>entry.
            Inr (if entry_is_zero entry then bt_remove key state else bt_insert key entry state))))"

definition from_state :: "serde \<Rightarrow> delta_batch \<Rightarrow> aggregate_value_mode \<Rightarrow> bool \<Rightarrow>
    (operator_error, keyed_sum_count_aggregate) result" where
  "from_state J state value_mode track_extrema =
     rbind (rfold (restore_entry J value_mode track_extrema) state []) (\<lambda>entries.
     rbind (validate_aggregate_entries entries value_mode track_extrema) (\<lambda>_.
       Inr ((with_value_mode_and_extrema value_mode track_extrema)\<lparr>ag_state := entries\<rparr>)))"

definition prepare_change :: "serde \<Rightarrow> aggregate_value_mode \<Rightarrow> delta_record \<Rightarrow>
    (string, aggregate_change) btree_map \<Rightarrow> (operator_error, (string, aggregate_change) btree_map) result" where
  "prepare_change J value_mode rec changes =
     rbind (parse_input value_mode (rec_value rec)) (\<lambda>amount.
     rbind (aggregate_sum_json_value amount value_mode) (\<lambda>value.
       let key = canonical_json J (rec_key rec);
           change = (case bt_get changes key of Some c \<Rightarrow> c | None \<Rightarrow> change_new (rec_key rec))
       in rbind (change_add change amount value (rec_weight rec)) (\<lambda>change. Inr (bt_insert key change changes))))"

definition prepare_key :: "keyed_sum_count_aggregate \<Rightarrow> string \<times> aggregate_change \<Rightarrow>
    prepared_aggregate_changes \<Rightarrow> (operator_error, prepared_aggregate_changes) result" where
  "prepare_key self kc prepared =
     (let before = bt_get (ag_state self) (fst kc) in
      rbind (apply_to (snd kc) before (ag_track_extrema self)) (\<lambda>after.
        if entry_option_eq before after then Inr prepared
        else rbind (case before of None \<Rightarrow> Inr []
               | Some e \<Rightarrow> rbind (entry_to_record e (- 1) (ag_value_mode self) (ag_track_extrema self)) (\<lambda>r. Inr [r])) (\<lambda>old_rows.
             rbind (case after of None \<Rightarrow> Inr []
               | Some e \<Rightarrow> rbind (entry_to_record e 1 (ag_value_mode self) (ag_track_extrema self)) (\<lambda>r. Inr [r])) (\<lambda>new_rows.
               Inr \<lparr>pa_changes = bt_insert (fst kc) after (pa_changes prepared),
                    pa_output = pa_output prepared @ old_rows @ new_rows\<rparr>))))"

definition aggregate_prepare :: "serde \<Rightarrow> keyed_sum_count_aggregate \<Rightarrow> delta_batch \<Rightarrow>
    (operator_error, prepared_aggregate_changes) result" where
  "aggregate_prepare J self input =
     rbind (rfold (prepare_change J (ag_value_mode self)) input []) (\<lambda>changes.
       rfold (prepare_key self) changes \<lparr>pa_changes = [], pa_output = []\<rparr>)"

definition commit_entry :: "string \<times> aggregate_entry option \<Rightarrow> (string, aggregate_entry) btree_map \<Rightarrow>
    (string, aggregate_entry) btree_map" where
  "commit_entry ke state = (case snd ke of Some e \<Rightarrow> bt_insert (fst ke) e state | None \<Rightarrow> bt_remove (fst ke) state)"

definition aggregate_commit :: "keyed_sum_count_aggregate \<Rightarrow> prepared_aggregate_changes \<Rightarrow>
    keyed_sum_count_aggregate \<times> delta_batch" where
  "aggregate_commit self prepared =
     (self\<lparr>ag_state := fold commit_entry (pa_changes prepared) (ag_state self)\<rparr>, pa_output prepared)"

definition aggregate_apply :: "serde \<Rightarrow> keyed_sum_count_aggregate \<Rightarrow> delta_batch \<Rightarrow>
    keyed_sum_count_aggregate \<times> (operator_error, delta_batch) result" where
  "aggregate_apply J self input =
     (case aggregate_prepare J self input of
        Inl e \<Rightarrow> (self, Inl e)
      | Inr prepared \<Rightarrow> (case aggregate_commit self prepared of (self', out) \<Rightarrow> (self', Inr out)))"

text \<open>\<open>state\<close> panics when an entry does not fit a record: the error is that panic.\<close>

definition aggregate_state :: "keyed_sum_count_aggregate \<Rightarrow> (operator_error, delta_batch) result" where
  "aggregate_state self =
     rmap_list (\<lambda>e. entry_to_record e 1 (ag_value_mode self) (ag_track_extrema self)) (bt_values (ag_state self))"

section \<open>Specification\<close>

text \<open>Aggregates of a batch, per canonical key text: the weighted sum, the count, the multiplicities.\<close>

definition amount_of :: "aggregate_value_mode \<Rightarrow> delta_record \<Rightarrow> int" where
  "amount_of mode r = (case parse_input mode (rec_value r) of Inl _ \<Rightarrow> 0 | Inr a \<Rightarrow> a)"

definition total_sum :: "serde \<Rightarrow> aggregate_value_mode \<Rightarrow> delta_batch \<Rightarrow> string \<Rightarrow> int" where
  "total_sum J mode rs k = (\<Sum>r\<leftarrow>rs. if canonical_json J (rec_key r) = k then amount_of mode r * rec_weight r else 0)"

definition multiplicity_of :: "serde \<Rightarrow> aggregate_value_mode \<Rightarrow> delta_batch \<Rightarrow> string \<Rightarrow> int \<Rightarrow> int" where
  "multiplicity_of J mode rs k a =
     (\<Sum>r\<leftarrow>rs. if canonical_json J (rec_key r) = k \<and> amount_of mode r = a then rec_weight r else 0)"

lemma totals_simps [simp]:
  "total_sum J mode [] k = 0" "multiplicity_of J mode [] k a = 0"
  "total_sum J mode (rs @ ss) k = total_sum J mode rs k + total_sum J mode ss k"
  "multiplicity_of J mode (rs @ ss) k a = multiplicity_of J mode rs k a + multiplicity_of J mode ss k a"
  by (simp_all add: total_sum_def multiplicity_of_def)

lemma totals_snoc:
  "total_sum J mode (rs @ [r]) k =
     total_sum J mode rs k + (if canonical_json J (rec_key r) = k then amount_of mode r * rec_weight r else 0)"
  "multiplicity_of J mode (rs @ [r]) k a = multiplicity_of J mode rs k a
     + (if canonical_json J (rec_key r) = k \<and> amount_of mode r = a then rec_weight r else 0)"
  by (simp_all add: total_sum_def multiplicity_of_def)

section \<open>Maps of amounts\<close>

text \<open>A map of amounts: sorted, no zero weight, every value the text of its amount.\<close>

definition values_ok :: "aggregate_value_mode \<Rightarrow> aggregate_values \<Rightarrow> bool" where
  "values_ok mode m \<longleftrightarrow> bt_wf m \<and> (\<forall>(a, v) \<in> set m. av_weight v \<noteq> 0 \<and> aggregate_sum_json_value a mode = Inr (av_value v))"

lemma values_ok_Nil [simp]: "values_ok mode []"
  by (simp add: values_ok_def)

lemma value_weight_Nil [simp]: "value_weight [] a = 0"
  by (simp add: value_weight_def)

text \<open>Setting the weight of an amount, as the three update functions do.\<close>

definition set_weight :: "int \<Rightarrow> json \<Rightarrow> int \<Rightarrow> aggregate_values \<Rightarrow> aggregate_values" where
  "set_weight a v w m = (if w = 0 then bt_remove a m else bt_insert a \<lparr>av_value = v, av_weight = w\<rparr> m)"

lemma bt_insert_subset: "set (bt_insert a e m) \<subseteq> insert (a, e) (set m)"
  by (induction m) (auto split: if_splits)

lemma set_weight_ok:
  assumes "values_ok mode m" and "aggregate_sum_json_value a mode = Inr v"
  shows "values_ok mode (set_weight a v w m)"
proof -
  let ?P = "\<lambda>x. av_weight (snd x) \<noteq> 0 \<and> aggregate_sum_json_value (fst x) mode = Inr (av_value (snd x))"
  have ok: "values_ok mode n \<longleftrightarrow> bt_wf n \<and> (\<forall>x \<in> set n. ?P x)" for n
    unfolding values_ok_def by (simp add: case_prod_beta)
  let ?e = "\<lparr>av_value = v, av_weight = w\<rparr>"
  from assms(1) have m: "bt_wf m" "\<And>x. x \<in> set m \<Longrightarrow> ?P x" unfolding ok by blast+
  have "?P x" if "x \<in> set (bt_insert a ?e m)" "w \<noteq> 0" for x
  proof -
    from that(1) bt_insert_subset [of a ?e m] have "x = (a, ?e) \<or> x \<in> set m" by blast
    with that(2) assms(2) m(2) show ?thesis by (elim disjE) simp_all
  qed
  moreover have "?P x" if "x \<in> set (bt_remove a m)" for x
    using that bt_remove_subset [of a m] m(2) by blast
  ultimately show ?thesis unfolding ok set_weight_def using m(1) by simp
qed

lemma value_weight_set:
  "values_ok mode m \<Longrightarrow> value_weight (set_weight a v w m) b = (if b = a then w else value_weight m b)"
  by (simp add: set_weight_def value_weight_def values_ok_def bt_get_remove)

lemma add_to_map_Inr:
  "add_value_weight_to_map m a v d rej = Inr m' \<longleftrightarrow>
     i128_range (value_weight m a + d) \<and> (rej \<longrightarrow> 0 \<le> value_weight m a + d)
     \<and> m' = set_weight a v (value_weight m a + d) m"
  by (auto simp: add_value_weight_to_map_def set_weight_def res_simps i128_checked_def)

lemma value_weight_Cons: "value_weight (d # ds) b = (if b = fst d then av_weight (snd d) else value_weight ds b)"
  by (cases d) (simp add: value_weight_def)

lemma value_weight_absent: "a \<notin> fst ` set m \<Longrightarrow> value_weight m a = 0"
  by (simp add: value_weight_def map_of_eq_None_iff [THEN iffD2])

lemma fold_add_to_map:
  assumes "values_ok mode m" and "values_ok mode ds"
    and "rfold (\<lambda>(a, v) m. add_value_weight_to_map m a (av_value v) (av_weight v) True) ds m = Inr m'"
  shows "values_ok mode m' \<and> (\<forall>b. value_weight m' b = value_weight m b + value_weight ds b)
    \<and> ((\<forall>b. 0 \<le> value_weight m b) \<longrightarrow> (\<forall>b. 0 \<le> value_weight m' b))"
  using assms
proof (induction ds arbitrary: m)
  case (Cons d ds)
  obtain a v where d: "d = (a, v)" by (cases d)
  from Cons.prems(2) have ds: "values_ok mode ds" "aggregate_sum_json_value a mode = Inr (av_value v)" "a \<notin> fst ` set ds"
    by (auto simp: values_ok_def d bt_wf_Cons)
  let ?m = "set_weight a (av_value v) (value_weight m a + av_weight v) m"
  from Cons.prems(3) have step: "0 \<le> value_weight m a + av_weight v"
    "rfold (\<lambda>(a, v) m. add_value_weight_to_map m a (av_value v) (av_weight v) True) ds ?m = Inr m'"
    by (auto simp: d res_simps add_to_map_Inr)
  have ok: "values_ok mode ?m" by (rule set_weight_ok [OF Cons.prems(1) ds(2)])
  have w: "value_weight ?m b = (if b = a then value_weight m a + av_weight v else value_weight m b)" for b
    by (rule value_weight_set [OF Cons.prems(1)])
  from Cons.IH [OF ok ds(1) step(2)] have IH: "values_ok mode m'"
    "\<And>b. value_weight m' b = value_weight ?m b + value_weight ds b"
    "(\<forall>b. 0 \<le> value_weight ?m b) \<Longrightarrow> (\<forall>b. 0 \<le> value_weight m' b)" by blast+
  have "value_weight m' b = value_weight m b + value_weight (d # ds) b" for b
    using IH(2) [of b] w [of b] value_weight_absent [OF ds(3)] by (simp add: value_weight_Cons d)
  moreover have "\<forall>b. 0 \<le> value_weight ?m b" if "\<forall>b. 0 \<le> value_weight m b"
    using that step(1) w by simp
  ultimately show ?case using IH(1,3) by blast
qed simp

section \<open>Collecting the changes of an input\<close>

definition change_ok :: "serde \<Rightarrow> aggregate_value_mode \<Rightarrow> delta_batch \<Rightarrow> string \<Rightarrow> aggregate_change \<Rightarrow> bool" where
  "change_ok J mode rs k c \<longleftrightarrow> canonical_json J (ac_key c) = k \<and> ac_sum_delta c = total_sum J mode rs k
     \<and> ac_count_delta c = key_weight J rs k \<and> values_ok mode (ac_value_deltas c)
     \<and> (\<forall>a. value_weight (ac_value_deltas c) a = multiplicity_of J mode rs k a)"

definition changes_ok :: "serde \<Rightarrow> aggregate_value_mode \<Rightarrow> delta_batch \<Rightarrow> (string, aggregate_change) btree_map \<Rightarrow> bool" where
  "changes_ok J mode rs m \<longleftrightarrow> bt_wf m \<and> (\<forall>k. case bt_get m k of
     None \<Rightarrow> (\<forall>r \<in> set rs. canonical_json J (rec_key r) \<noteq> k) | Some c \<Rightarrow> change_ok J mode rs k c)"

lemma changes_okD:
  assumes "changes_ok J mode rs m"
  shows "bt_wf m" and "bt_get m k = None \<Longrightarrow> r \<in> set rs \<Longrightarrow> canonical_json J (rec_key r) \<noteq> k"
    and "bt_get m k = Some c \<Longrightarrow> change_ok J mode rs k c"
proof -
  from assms have m: "bt_wf m" "case bt_get m k of None \<Rightarrow> (\<forall>r \<in> set rs. canonical_json J (rec_key r) \<noteq> k)
      | Some c \<Rightarrow> change_ok J mode rs k c" unfolding changes_ok_def by blast+
  from m(1) show "bt_wf m" .
  from m(2) show "bt_get m k = None \<Longrightarrow> r \<in> set rs \<Longrightarrow> canonical_json J (rec_key r) \<noteq> k"
    and "bt_get m k = Some c \<Longrightarrow> change_ok J mode rs k c" by simp_all
qed

lemma totals_absent:
  assumes "\<forall>r \<in> set rs. canonical_json J (rec_key r) \<noteq> k"
  shows "total_sum J mode rs k = 0" "key_weight J rs k = 0" "multiplicity_of J mode rs k a = 0"
  using assms by (induction rs) (simp_all add: total_sum_def multiplicity_of_def)

lemma change_add_Inr:
  "change_add c a v w = Inr c' \<Longrightarrow>
     c' = \<lparr>ac_key = ac_key c, ac_sum_delta = ac_sum_delta c + a * w, ac_count_delta = ac_count_delta c + w,
           ac_value_deltas = set_weight a v (value_weight (ac_value_deltas c) a + w) (ac_value_deltas c)\<rparr>"
  by (auto simp: change_add_def set_weight_def res_simps)

lemma key_weight_snoc:
  "key_weight J (rs @ [r]) k = key_weight J rs k + (if canonical_json J (rec_key r) = k then rec_weight r else 0)"
  by simp

lemma prepare_change_ok:
  assumes "changes_ok J mode rs m" and "prepare_change J mode r m = Inr m'"
  shows "changes_ok J mode (rs @ [r]) m'"
proof -
  let ?k = "canonical_json J (rec_key r)"
  let ?c = "case bt_get m ?k of Some c \<Rightarrow> c | None \<Rightarrow> change_new (rec_key r)"
  from assms(2) obtain a v c' where av: "parse_input mode (rec_value r) = Inr a" "aggregate_sum_json_value a mode = Inr v"
    and c': "change_add ?c a v (rec_weight r) = Inr c'" and m': "m' = bt_insert ?k c' m"
    by (auto simp: prepare_change_def Let_def res_simps)
  have amount: "amount_of mode r = a" using av(1) by (simp add: amount_of_def)
  have old: "change_ok J mode rs ?k ?c"
  proof (cases "bt_get m ?k")
    case None
    then have "\<forall>r' \<in> set rs. canonical_json J (rec_key r') \<noteq> ?k"
      using changes_okD(2) [OF assms(1)] by blast
    with None show ?thesis by (simp add: change_ok_def change_new_def totals_absent)
  next
    case (Some c)
    with changes_okD(3) [OF assms(1)] show ?thesis by simp
  qed
  then have oldD: "values_ok mode (ac_value_deltas ?c)"
    "\<And>a. value_weight (ac_value_deltas ?c) a = multiplicity_of J mode rs ?k a"
    unfolding change_ok_def by blast+
  have new: "change_ok J mode (rs @ [r]) ?k c'"
    using old change_add_Inr [OF c'] value_weight_set [OF oldD(1)]
    unfolding change_ok_def totals_snoc key_weight_snoc amount
    by (simp add: set_weight_ok [OF oldD(1) av(2)])
  have "change_ok J mode (rs @ [r]) k c" if "change_ok J mode rs k c" "k \<noteq> ?k" for k c
    using that unfolding change_ok_def totals_snoc key_weight_snoc by simp
  then show ?thesis
    using new changes_okD [OF assms(1)] unfolding changes_ok_def m' by (auto split: option.split)
qed

lemma prepare_changes_ok:
  assumes "rfold (prepare_change J mode) rs [] = Inr m"
  shows "changes_ok J mode rs m"
proof -
  have "changes_ok J mode (ss @ rs) m'" if "changes_ok J mode ss m0" "rfold (prepare_change J mode) rs m0 = Inr m'" for ss m0 m'
    using that
  proof (induction rs arbitrary: ss m0)
    case (Cons r rs)
    from Cons.prems(2) obtain m1 where "prepare_change J mode r m0 = Inr m1" "rfold (prepare_change J mode) rs m1 = Inr m'"
      by (auto simp: res_simps)
    with Cons.IH [OF prepare_change_ok [OF Cons.prems(1)]] show ?case by simp
  qed simp
  from this [of "[]" "[]" m] assms show ?thesis by (simp add: changes_ok_def)
qed

section \<open>Applying the changes\<close>

definition entry_shape :: "serde \<Rightarrow> aggregate_value_mode \<Rightarrow> bool \<Rightarrow> string \<Rightarrow> aggregate_entry \<Rightarrow> bool" where
  "entry_shape J mode track k e \<longleftrightarrow> canonical_json J (ae_key e) = k \<and> \<not> entry_is_zero e \<and> values_ok mode (ae_values e)
     \<and> (if track then \<forall>a. 0 \<le> value_weight (ae_values e) a else ae_values e = [])"

definition entry_wf :: "serde \<Rightarrow> aggregate_value_mode \<Rightarrow> bool \<Rightarrow> string \<Rightarrow> aggregate_entry \<Rightarrow> bool" where
  "entry_wf J mode track k e \<longleftrightarrow> entry_shape J mode track k e \<and> \<not> isl (entry_to_record e 1 mode track)"

definition aggregate_wf :: "serde \<Rightarrow> keyed_sum_count_aggregate \<Rightarrow> bool" where
  "aggregate_wf J s \<longleftrightarrow> bt_wf (ag_state s)
     \<and> (\<forall>k e. bt_get (ag_state s) k = Some e \<longrightarrow> entry_wf J (ag_value_mode s) (ag_track_extrema s) k e)"

lemma entry_values_ok:
  assumes "\<And>e. o1 = Some e \<Longrightarrow> entry_shape J mode track k e"
  shows "values_ok mode (entry_values o1)"
    and "track \<Longrightarrow> \<forall>a. 0 \<le> value_weight (entry_values o1) a" and "\<not> track \<Longrightarrow> entry_values o1 = []"
  using assms by (auto simp: entry_values_def entry_shape_def split: option.splits)

lemma apply_to_Inr:
  assumes before: "\<And>e. before = Some e \<Longrightarrow> entry_shape J mode track k e"
    and c: "canonical_json J (ac_key c) = k" "values_ok mode (ac_value_deltas c)"
    and after: "apply_to c before track = Inr after"
  shows "entry_sum after = entry_sum before + ac_sum_delta c
    \<and> entry_count after = entry_count before + ac_count_delta c
    \<and> (track \<longrightarrow> (\<forall>a. value_weight (entry_values after) a
          = value_weight (entry_values before) a + value_weight (ac_value_deltas c) a))
    \<and> (\<forall>e. after = Some e \<longrightarrow> entry_shape J mode track k e)"
proof -
  let ?f = "\<lambda>(order_value, value) values.
      add_value_weight_to_map values order_value (av_value value) (av_weight value) True"
  let ?S = "entry_sum before + ac_sum_delta c" and ?N = "entry_count before + ac_count_delta c"
  note b = entry_values_ok [of before J mode track k, OF before]
  from after obtain vs where vs: "(if track then rfold ?f (ac_value_deltas c) (entry_values before)
      else Inr (entry_values before)) = Inr vs"
    and after': "after = (if ?S = 0 \<and> ?N = 0 \<and> (\<not> track \<or> vs = []) then None
      else Some \<lparr>ae_key = (case before of None \<Rightarrow> ac_key c | Some e \<Rightarrow> ae_key e),
                 ae_sum = ?S, ae_count = ?N, ae_values = vs\<rparr>)"
    unfolding apply_to_def by (auto simp: res_simps split: if_splits)
  have key: "canonical_json J (case before of None \<Rightarrow> ac_key c | Some e \<Rightarrow> ae_key e) = k"
    using before c(1) by (auto simp: entry_shape_def split: option.splits)
  show ?thesis
  proof (cases track)
    case True
    with vs have "rfold ?f (ac_value_deltas c) (entry_values before) = Inr vs" by simp
    from fold_add_to_map [OF b(1) c(2) this] b(2) [OF _ True]
    have v: "values_ok mode vs" "\<forall>a. 0 \<le> value_weight vs a"
      "\<And>a. value_weight vs a = value_weight (entry_values before) a + value_weight (ac_value_deltas c) a"
      by blast+
    show ?thesis
      using True v key unfolding after'
      by (auto simp: entry_sum_def entry_count_def entry_values_def entry_shape_def entry_is_zero_def)
  next
    case False
    with vs b(3) have "vs = []" by simp
    with False key show ?thesis unfolding after'
      by (auto simp: entry_sum_def entry_count_def entry_shape_def entry_is_zero_def)
  qed
qed

text \<open>The weight an entry gives to a canonical row.\<close>

definition entry_view :: "serde \<Rightarrow> aggregate_value_mode \<Rightarrow> bool \<Rightarrow> string \<times> string \<Rightarrow> aggregate_entry \<Rightarrow> int" where
  "entry_view J mode track x e = (case entry_to_record e 1 mode track of Inl _ \<Rightarrow> 0 | Inr r \<Rightarrow> zw J [r] x)"

definition opt_view :: "serde \<Rightarrow> aggregate_value_mode \<Rightarrow> bool \<Rightarrow> string \<times> string \<Rightarrow> aggregate_entry option \<Rightarrow> int" where
  "opt_view J mode track x e = (case e of None \<Rightarrow> 0 | Some e \<Rightarrow> entry_view J mode track x e)"

definition entries_view :: "serde \<Rightarrow> aggregate_value_mode \<Rightarrow> bool \<Rightarrow> string \<times> string \<Rightarrow>
    (string, aggregate_entry) btree_map \<Rightarrow> int" where
  "entries_view J mode track x st = (\<Sum>(k, e)\<leftarrow>st. entry_view J mode track x e)"

lemma entry_to_record_shape:
  "entry_to_record e w mode track = Inr r \<Longrightarrow>
     \<exists>v. r = delta_record_new (ae_key e) v w \<and> (\<forall>u. entry_to_record e u mode track = Inr (delta_record_new (ae_key e) v u))"
  unfolding entry_to_record_def
  by (cases "i64_checked (ae_count e)"; cases "aggregate_sum_json_value (ae_sum e) mode";
      cases "if track then extrema_fields e else Inr []") (auto simp: i64_checked_def)

lemma entry_to_record_weight:
  assumes "entry_to_record e w mode track = Inr r"
  shows "zw J [r] x = w * entry_view J mode track x e" and "\<not> isl (entry_to_record e 1 mode track)"
proof -
  obtain v where v: "r = delta_record_new (ae_key e) v w" "entry_to_record e 1 mode track = Inr (delta_record_new (ae_key e) v 1)"
    using entry_to_record_shape [OF assms] by blast
  then show "zw J [r] x = w * entry_view J mode track x e" by (simp add: entry_view_def canonical_record_def)
  from v(2) show "\<not> isl (entry_to_record e 1 mode track)" by simp
qed

lemma commit_entry_get:
  "bt_wf st \<Longrightarrow> bt_get (commit_entry (k, e) st) k' = (if k' = k then e else bt_get st k')"
  by (cases e) (simp_all add: commit_entry_def bt_get_remove)

lemma commit_entry_wf: "bt_wf st \<Longrightarrow> bt_wf (commit_entry ke st)"
  by (simp add: commit_entry_def split: option.split)

lemma commit_entry_view:
  "bt_wf st \<Longrightarrow> entries_view J mode track x (commit_entry (k, e) st) =
     entries_view J mode track x st + opt_view J mode track x e - opt_view J mode track x (bt_get st k)"
  using bt_insert_sum [of st "\<lambda>k e. entry_view J mode track x e" k] bt_remove_sum [of "\<lambda>k e. entry_view J mode track x e" k st]
  by (cases e) (simp_all add: commit_entry_def entries_view_def opt_view_def)

definition entry_step :: "bool \<Rightarrow> aggregate_change \<Rightarrow> aggregate_entry option \<Rightarrow> aggregate_entry option \<Rightarrow> bool" where
  "entry_step track c before after \<longleftrightarrow> entry_sum after = entry_sum before + ac_sum_delta c
     \<and> entry_count after = entry_count before + ac_count_delta c
     \<and> (track \<longrightarrow> (\<forall>a. value_weight (entry_values after) a
          = value_weight (entry_values before) a + value_weight (ac_value_deltas c) a))"

lemma entry_option_eqD:
  assumes "entry_option_eq a b"
  shows "entry_sum a = entry_sum b \<and> entry_count a = entry_count b
    \<and> (\<forall>x. value_weight (entry_values a) x = value_weight (entry_values b) x)"
proof -
  have "list_all2 (\<lambda>(k, u) (l, v). k = l \<and> value_entry_eq u v) us vs \<Longrightarrow> value_weight us x = value_weight vs x" for us vs x
    by (induction rule: list_all2_induct) (auto simp: value_weight_Cons value_entry_eq_def)
  with assms show ?thesis
    by (cases a; cases b) (simp_all add: entry_option_eq_def aggregate_entry_eq_def entry_sum_def entry_count_def entry_values_def)
qed

text \<open>Entries that are well formed, the invariant of the state of an aggregate.\<close>

definition entries_wf :: "serde \<Rightarrow> aggregate_value_mode \<Rightarrow> bool \<Rightarrow> (string, aggregate_entry) btree_map \<Rightarrow> bool" where
  "entries_wf J mode track st \<longleftrightarrow> bt_wf st \<and> (\<forall>k e. bt_get st k = Some e \<longrightarrow> entry_wf J mode track k e)"

lemma aggregate_wf_entries: "aggregate_wf J s = entries_wf J (ag_value_mode s) (ag_track_extrema s) (ag_state s)"
  by (simp add: aggregate_wf_def entries_wf_def)

definition committed :: "keyed_sum_count_aggregate \<Rightarrow> prepared_aggregate_changes \<Rightarrow> (string, aggregate_entry) btree_map" where
  "committed s P = fold commit_entry (pa_changes P) (ag_state s)"

lemma opt_view_rows:
  "(case e of None \<Rightarrow> Inr [] | Some e \<Rightarrow> rbind (entry_to_record e w mode track) (\<lambda>r. Inr [r])) = Inr rows \<Longrightarrow>
     zw J rows x = w * opt_view J mode track x e \<and> (\<forall>e'. e = Some e' \<longrightarrow> \<not> isl (entry_to_record e' 1 mode track))"
proof (cases e)
  case (Some e')
  assume "(case e of None \<Rightarrow> Inr [] | Some e \<Rightarrow> rbind (entry_to_record e w mode track) (\<lambda>r. Inr [r])) = Inr rows"
  with Some obtain r where r: "entry_to_record e' w mode track = Inr r" "rows = [r]" by (auto simp: res_simps)
  from Some entry_to_record_weight [OF r(1)] show ?thesis by (simp only: r(2) opt_view_def option.case option.inject) blast
qed (simp add: opt_view_def zw_def)

lemma prepare_key_step:
  fixes s P P' k c
  defines "mode \<equiv> ag_value_mode s" and "track \<equiv> ag_track_extrema s"
    and "st \<equiv> committed s P" and "st' \<equiv> committed s P'"
  assumes wf: "entries_wf J mode track st" and same: "bt_get st k = bt_get (ag_state s) k"
    and keys: "\<forall>e \<in> set (pa_changes P). fst e < k"
    and c: "canonical_json J (ac_key c) = k" "values_ok mode (ac_value_deltas c)"
    and step: "prepare_key s (k, c) P = Inr P'"
  shows "entries_wf J mode track st' \<and> (\<forall>k'. k' \<noteq> k \<longrightarrow> bt_get st' k' = bt_get st k')
    \<and> entry_step track c (bt_get st k) (bt_get st' k)
    \<and> entries_view J mode track x st' = entries_view J mode track x st + zw J (pa_output P') x - zw J (pa_output P) x
    \<and> fst ` set (pa_changes P') \<subseteq> insert k (fst ` set (pa_changes P))"
proof -
  let ?b = "bt_get (ag_state s) k"
  from step obtain a where a: "apply_to c ?b track = Inr a"
    and cont: "(if entry_option_eq ?b a then Inr P else
      rbind (case ?b of None \<Rightarrow> Inr [] | Some e \<Rightarrow> rbind (entry_to_record e (- 1) mode track) (\<lambda>r. Inr [r])) (\<lambda>old_rows.
      rbind (case a of None \<Rightarrow> Inr [] | Some e \<Rightarrow> rbind (entry_to_record e 1 mode track) (\<lambda>r. Inr [r])) (\<lambda>new_rows.
        Inr \<lparr>pa_changes = bt_insert k a (pa_changes P), pa_output = pa_output P @ old_rows @ new_rows\<rparr>))) = Inr P'"
    unfolding prepare_key_def mode_def track_def Let_def fst_conv snd_conv rbind_eq_Inr [of "apply_to _ _ _"] by blast
  have shape: "entry_shape J mode track k e" if "?b = Some e" for e
    using wf that unfolding same [symmetric] entries_wf_def entry_wf_def by blast
  from apply_to_Inr [OF shape c a]
  have ap: "entry_step track c ?b a" "\<And>e. a = Some e \<Longrightarrow> entry_shape J mode track k e"
    unfolding entry_step_def by blast+
  show ?thesis
  proof (cases "entry_option_eq ?b a")
    case True
    with cont have "P' = P" by simp
    moreover have "entry_step track c ?b ?b" using ap(1) entry_option_eqD [OF True] by (simp add: entry_step_def)
    ultimately show ?thesis using wf same by (auto simp: st_def st'_def)
  next
    case False
    with cont obtain old_rows new_rows where
      old: "(case ?b of None \<Rightarrow> Inr [] | Some e \<Rightarrow> rbind (entry_to_record e (- 1) mode track) (\<lambda>r. Inr [r])) = Inr old_rows"
      and new: "(case a of None \<Rightarrow> Inr [] | Some e \<Rightarrow> rbind (entry_to_record e 1 mode track) (\<lambda>r. Inr [r])) = Inr new_rows"
      and P': "P' = \<lparr>pa_changes = bt_insert k a (pa_changes P), pa_output = pa_output P @ old_rows @ new_rows\<rparr>"
      by (auto simp: rbind_eq_Inr)
    have "bt_insert k a (pa_changes P) = pa_changes P @ [(k, a)]" using keys by (intro bt_insert_snoc) blast
    then have st': "st' = commit_entry (k, a) st" by (simp add: st_def st'_def committed_def P')
    from wf have bt: "bt_wf st" by (simp add: entries_wf_def)
    note get = commit_entry_get [OF bt, of k a]
    note rows = opt_view_rows [OF old, of J x] opt_view_rows [OF new, of J x]
    have "entry_wf J mode track k' e" if "bt_get st' k' = Some e" for k' e
    proof (cases "k' = k")
      case True
      with that get st' have "a = Some e" by simp
      with ap(2) rows(2) True show ?thesis by (simp add: entry_wf_def)
    next
      case False
      with that get st' have "bt_get st k' = Some e" by simp
      with wf show ?thesis by (simp add: entries_wf_def)
    qed
    then have "entries_wf J mode track st'" by (simp add: entries_wf_def st' commit_entry_wf bt)
    moreover have "entries_view J mode track x st' = entries_view J mode track x st + zw J (pa_output P') x - zw J (pa_output P) x"
      using rows same by (simp add: st' commit_entry_view [OF bt] P' zw_append)
    moreover have "entry_step track c (bt_get st k) (bt_get st' k)" using ap(1) by (simp add: st' get same)
    ultimately show ?thesis using get by (simp add: st' P' bt_insert_keys)
  qed
qed

lemma prepare_keys_steps:
  fixes s P P' cs
  defines "mode \<equiv> ag_value_mode s" and "track \<equiv> ag_track_extrema s"
  assumes "bt_wf cs" and "\<And>k c. (k, c) \<in> set cs \<Longrightarrow> canonical_json J (ac_key c) = k \<and> values_ok mode (ac_value_deltas c)"
    and "entries_wf J mode track (committed s P)"
    and "\<And>k. k \<in> fst ` set cs \<Longrightarrow> bt_get (committed s P) k = bt_get (ag_state s) k"
    and "\<And>k l. k \<in> fst ` set (pa_changes P) \<Longrightarrow> l \<in> fst ` set cs \<Longrightarrow> k < l"
    and "rfold (prepare_key s) cs P = Inr P'"
  shows "entries_wf J mode track (committed s P')
    \<and> (\<forall>k. case bt_get cs k of None \<Rightarrow> bt_get (committed s P') k = bt_get (committed s P) k
          | Some c \<Rightarrow> entry_step track c (bt_get (committed s P) k) (bt_get (committed s P') k))
    \<and> entries_view J mode track x (committed s P') =
        entries_view J mode track x (committed s P) + zw J (pa_output P') x - zw J (pa_output P) x"
  using assms(3-)
proof (induction cs arbitrary: P)
  case (Cons kc cs)
  obtain k c where kc: "kc = (k, c)" by (cases kc)
  from Cons.prems(6) obtain Q where Q: "prepare_key s (k, c) P = Inr Q" "rfold (prepare_key s) cs Q = Inr P'"
    by (auto simp: kc res_simps)
  from Cons.prems(2) [of k c] have c: "canonical_json J (ac_key c) = k" "values_ok mode (ac_value_deltas c)" by (auto simp: kc)
  have sorted: "\<And>l. l \<in> fst ` set cs \<Longrightarrow> k < l" "bt_wf cs" using Cons.prems(1) by (auto simp: kc bt_wf_Cons)
  have keys: "\<forall>e \<in> set (pa_changes P). fst e < k" using Cons.prems(5) by (auto simp: kc)
  have "bt_get (committed s P) k = bt_get (ag_state s) k" using Cons.prems(4) by (simp add: kc)
  from prepare_key_step [of J s P k c Q x, folded mode_def track_def, OF Cons.prems(3) this keys c Q(1)]
  have step: "entries_wf J mode track (committed s Q)" "\<And>k'. k' \<noteq> k \<Longrightarrow> bt_get (committed s Q) k' = bt_get (committed s P) k'"
    "entry_step track c (bt_get (committed s P) k) (bt_get (committed s Q) k)"
    "entries_view J mode track x (committed s Q) = entries_view J mode track x (committed s P) + zw J (pa_output Q) x - zw J (pa_output P) x"
    "fst ` set (pa_changes Q) \<subseteq> insert k (fst ` set (pa_changes P))" by blast+
  have rest: "entries_wf J mode track (committed s P')
    \<and> (\<forall>k. case bt_get cs k of None \<Rightarrow> bt_get (committed s P') k = bt_get (committed s Q) k
          | Some c \<Rightarrow> entry_step track c (bt_get (committed s Q) k) (bt_get (committed s P') k))
    \<and> entries_view J mode track x (committed s P') =
        entries_view J mode track x (committed s Q) + zw J (pa_output P') x - zw J (pa_output Q) x"
  proof (rule Cons.IH [OF sorted(2) _ step(1) _ _ Q(2)])
    show "(l, d) \<in> set cs \<Longrightarrow> canonical_json J (ac_key d) = l \<and> values_ok mode (ac_value_deltas d)" for l d
      using Cons.prems(2) [of l d] by simp
    show "l \<in> fst ` set cs \<Longrightarrow> bt_get (committed s Q) l = bt_get (ag_state s) l" for l
      using step(2) [of l] Cons.prems(4) [of l] sorted(1) [of l] by (auto simp: kc)
    show "i \<in> fst ` set (pa_changes Q) \<Longrightarrow> l \<in> fst ` set cs \<Longrightarrow> i < l" for i l
      using step(5) Cons.prems(5) [of i l] sorted(1) [of l] by (auto simp: kc)
  qed
  have absent: "bt_get cs k = None" using sorted(1) by (force simp: map_of_eq_None_iff)
  have get': "bt_get (committed s P') k = bt_get (committed s Q) k"
    using rest [THEN conjunct2, THEN conjunct1, THEN spec, of k] by (simp add: absent)
  have "case bt_get (kc # cs) l of None \<Rightarrow> bt_get (committed s P') l = bt_get (committed s P) l
      | Some d \<Rightarrow> entry_step track d (bt_get (committed s P) l) (bt_get (committed s P') l)" for l
    using rest [THEN conjunct2, THEN conjunct1, THEN spec, of l] step(2) [of l] step(3) get'
    by (cases "l = k") (simp_all add: kc split: option.splits)
  then show ?case using rest step(4) by simp
qed (simp add: mode_def track_def)

section \<open>One input\<close>

definition aggregate_view :: "serde \<Rightarrow> keyed_sum_count_aggregate \<Rightarrow> string \<times> string \<Rightarrow> int" where
  "aggregate_view J s x = entries_view J (ag_value_mode s) (ag_track_extrema s) x (ag_state s)"

text \<open>The totals an aggregate holds for every key.\<close>

definition holds_totals :: "serde \<Rightarrow> keyed_sum_count_aggregate \<Rightarrow> delta_batch \<Rightarrow> bool" where
  "holds_totals J s rs \<longleftrightarrow> (\<forall>k. entry_sum (bt_get (ag_state s) k) = total_sum J (ag_value_mode s) rs k
     \<and> entry_count (bt_get (ag_state s) k) = key_weight J rs k
     \<and> (ag_track_extrema s \<longrightarrow> (\<forall>a. value_weight (entry_values (bt_get (ag_state s) k)) a =
          multiplicity_of J (ag_value_mode s) rs k a)))"

lemma aggregate_apply_step:
  assumes wf: "aggregate_wf J s" and run: "aggregate_apply J s input = (s', Inr out)"
  shows "aggregate_wf J s' \<and> aggregate_view J s' x = aggregate_view J s x + zw J out x
    \<and> ag_value_mode s' = ag_value_mode s \<and> ag_track_extrema s' = ag_track_extrema s
    \<and> (holds_totals J s rs \<longrightarrow> holds_totals J s' (rs @ input))"
proof -
  let ?m = "ag_value_mode s" and ?t = "ag_track_extrema s" and ?P = "\<lparr>pa_changes = [], pa_output = []\<rparr>"
  from run obtain cs P' where cs: "rfold (prepare_change J ?m) input [] = Inr cs" "rfold (prepare_key s) cs ?P = Inr P'"
    and s': "s' = s\<lparr>ag_state := committed s P'\<rparr>" "out = pa_output P'"
    by (auto simp: aggregate_apply_def aggregate_prepare_def aggregate_commit_def committed_def res_simps split: sum.splits)
  note ok = changes_okD [OF prepare_changes_ok [OF cs(1)]]
  have P: "committed s ?P = ag_state s" by (simp add: committed_def)
  have cok: "change_ok J ?m input k c" if "(k, c) \<in> set cs" for k c
    using that ok(3) [of k c] bt.in_entries_iff [OF ok(1), of k c] by simp
  have "entries_wf J ?m ?t (committed s P') \<and> (\<forall>k. case bt_get cs k of
        None \<Rightarrow> bt_get (committed s P') k = bt_get (committed s ?P) k
      | Some c \<Rightarrow> entry_step ?t c (bt_get (committed s ?P) k) (bt_get (committed s P') k))
    \<and> entries_view J ?m ?t x (committed s P') = entries_view J ?m ?t x (committed s ?P) + zw J (pa_output P') x - zw J (pa_output ?P) x"
  proof (rule prepare_keys_steps [OF ok(1) _ _ _ _ cs(2)])
    show "(k, c) \<in> set cs \<Longrightarrow> canonical_json J (ac_key c) = k \<and> values_ok ?m (ac_value_deltas c)" for k c
      using cok unfolding change_ok_def by blast
  qed (use wf in \<open>simp_all add: P aggregate_wf_entries\<close>)
  then have res: "entries_wf J ?m ?t (committed s P')"
    "\<And>k. case bt_get cs k of None \<Rightarrow> bt_get (committed s P') k = bt_get (ag_state s) k
      | Some c \<Rightarrow> entry_step ?t c (bt_get (ag_state s) k) (bt_get (committed s P') k)"
    "entries_view J ?m ?t x (committed s P') = entries_view J ?m ?t x (ag_state s) + zw J (pa_output P') x"
    unfolding P by (simp_all add: zw_def [of J "[]"])
  have "holds_totals J s' (rs @ input)" if "holds_totals J s rs"
    unfolding holds_totals_def
  proof
    fix k
    from that have old: "entry_sum (bt_get (ag_state s) k) = total_sum J ?m rs k" "entry_count (bt_get (ag_state s) k) = key_weight J rs k"
      "?t \<Longrightarrow> \<forall>a. value_weight (entry_values (bt_get (ag_state s) k)) a = multiplicity_of J ?m rs k a"
      unfolding holds_totals_def by blast+
    show "entry_sum (bt_get (ag_state s') k) = total_sum J (ag_value_mode s') (rs @ input) k
      \<and> entry_count (bt_get (ag_state s') k) = key_weight J (rs @ input) k
      \<and> (ag_track_extrema s' \<longrightarrow> (\<forall>a. value_weight (entry_values (bt_get (ag_state s') k)) a =
            multiplicity_of J (ag_value_mode s') (rs @ input) k a))"
    proof (cases "bt_get cs k")
      case None
      then have "\<forall>r \<in> set input. canonical_json J (rec_key r) \<noteq> k" using ok(2) by blast
      from totals_absent [OF this] res(2) [of k] None old show ?thesis by (simp add: s')
    next
      case (Some c)
      with res(2) [of k] old ok(3) [OF Some] show ?thesis by (simp add: s' entry_step_def change_ok_def)
    qed
  qed
  with res show ?thesis by (simp add: aggregate_wf_entries aggregate_view_def s')
qed

interpretation aggregate: incremental_view J "aggregate_apply J" "\<lambda>_. True" "aggregate_wf J" "aggregate_view J"
  for J
  by unfold_locales (use aggregate_apply_step in blast)+

lemma aggregate_run_totals:
  assumes "aggregate_wf J s" and "holds_totals J s rs" and "run_inputs (aggregate_apply J) s ins = (s', Inr out)"
  shows "holds_totals J s' (rs @ concat ins) \<and> ag_value_mode s' = ag_value_mode s \<and> ag_track_extrema s' = ag_track_extrema s"
  using assms
proof (induction ins arbitrary: s rs out)
  case (Cons i ins)
  from Cons.prems(3) obtain t o1 o2 where t: "aggregate_apply J s i = (t, Inr o1)" "run_inputs (aggregate_apply J) t ins = (s', Inr o2)"
    by (auto split: prod.splits sum.splits)
  note step = aggregate_apply_step [OF Cons.prems(1) t(1), where rs = rs]
  from step Cons.IH [OF _ _ t(2), of "rs @ i"] Cons.prems(2) show ?case by simp
qed simp

lemma aggregate_new_wf:
  "aggregate_wf J (with_value_mode_and_extrema mode track)" "holds_totals J (with_value_mode_and_extrema mode track) []"
  "aggregate_view J (with_value_mode_and_extrema mode track) x = 0"
  by (simp_all add: aggregate_wf_def with_value_mode_and_extrema_def holds_totals_def entry_sum_def entry_count_def
      entry_values_def aggregate_view_def entries_view_def)

section \<open>The retained rows\<close>

text \<open>The row of a key that holds the aggregates of a batch.\<close>

definition is_extremum :: "serde \<Rightarrow> aggregate_value_mode \<Rightarrow> delta_batch \<Rightarrow> string \<Rightarrow> (int \<Rightarrow> int \<Rightarrow> bool) \<Rightarrow> json option \<Rightarrow> bool" where
  "is_extremum J mode rs k le v \<longleftrightarrow> (\<exists>a j. v = Some j \<and> aggregate_sum_json_value a mode = Inr j
     \<and> multiplicity_of J mode rs k a \<noteq> 0 \<and> (\<forall>b. multiplicity_of J mode rs k b \<noteq> 0 \<longrightarrow> le a b))"

definition aggregate_row :: "serde \<Rightarrow> aggregate_value_mode \<Rightarrow> bool \<Rightarrow> delta_batch \<Rightarrow> delta_record \<Rightarrow> bool" where
  "aggregate_row J mode track rs r \<longleftrightarrow> rec_weight r = 1
     \<and> (let k = canonical_json J (rec_key r); v = rec_value r in
          (\<exists>j. aggregate_sum_json_value (total_sum J mode rs k) mode = Inr j \<and> json_get v ''sum'' = Some j)
        \<and> json_get v ''count'' = Some (json_of_i64 (key_weight J rs k))
        \<and> (track \<longrightarrow> is_extremum J mode rs k (\<le>) (json_get v ''min'') \<and> is_extremum J mode rs k (\<ge>) (json_get v ''max'')))"

lemma aggregate_state_rows:
  assumes "aggregate_wf J s"
  shows "\<exists>rows. aggregate_state s = Inr rows \<and> (\<forall>x. zw J rows x = aggregate_view J s x)
    \<and> map (\<lambda>r. canonical_json J (rec_key r)) rows = map fst (ag_state s)
    \<and> (\<forall>r \<in> set rows. \<exists>k e. bt_get (ag_state s) k = Some e \<and> entry_to_record e 1 (ag_value_mode s) (ag_track_extrema s) = Inr r)"
proof -
  let ?f = "\<lambda>e. entry_to_record e 1 (ag_value_mode s) (ag_track_extrema s)"
  have "\<exists>rows. rmap_list ?f (map snd st) = Inr rows \<and> (\<forall>x. zw J rows x = entries_view J (ag_value_mode s) (ag_track_extrema s) x st)
      \<and> map (\<lambda>r. canonical_json J (rec_key r)) rows = map fst st \<and> (\<forall>r \<in> set rows. \<exists>ke \<in> set st. ?f (snd ke) = Inr r)"
    if "\<forall>ke \<in> set st. canonical_json J (ae_key (snd ke)) = fst ke \<and> \<not> isl (?f (snd ke))" for st :: "(string \<times> aggregate_entry) list"
    using that
  proof (induction st)
    case (Cons ke st)
    then obtain rows where rows: "rmap_list ?f (map snd st) = Inr rows"
      "\<And>x. zw J rows x = entries_view J (ag_value_mode s) (ag_track_extrema s) x st"
      "map (\<lambda>r. canonical_json J (rec_key r)) rows = map fst st" "\<forall>r \<in> set rows. \<exists>ke \<in> set st. ?f (snd ke) = Inr r" by auto
    from Cons.prems obtain r where r: "?f (snd ke) = Inr r" by (cases "?f (snd ke)") auto
    from entry_to_record_shape [OF r] Cons.prems have "canonical_json J (rec_key r) = fst ke" by auto
    moreover have "zw J (r # rows) x = entries_view J (ag_value_mode s) (ag_track_extrema s) x (ke # st)" for x
      using rows(2) [of x] r zw_append [of J "[r]" rows x]
      by (cases ke) (simp del: zw_simps add: entries_view_def entry_view_def)
    ultimately show ?case using rows r by (intro exI [of _ "r # rows"]) auto
  qed (simp add: entries_view_def)
  from this [of "ag_state s"] assms bt.in_entries_iff [of "ag_state s"]
  show ?thesis unfolding aggregate_state_def aggregate_view_def aggregate_wf_def entry_wf_def entry_shape_def
    by fastforce
qed

lemma values_ok_support: "values_ok mode m \<Longrightarrow> value_weight m b \<noteq> 0 \<longleftrightarrow> b \<in> fst ` set m"
proof -
  assume ok: "values_ok mode m"
  have "value_weight m b \<noteq> 0" if "(b, v) \<in> set m" for v
    using that ok bt.in_entries_iff [of m b v] by (auto simp: values_ok_def value_weight_def)
  then show ?thesis using value_weight_absent [of b m] by force
qed

lemma values_bounds:
  assumes "bt_wf (first # rest)" and "b \<in> fst ` set (first # rest)"
  shows "fst first \<le> b \<and> b \<le> fst (last (first # rest))"
  using assms
proof (induction rest arbitrary: first b)
  case (Cons y ys)
  then have y: "fst first < fst y" "bt_wf (y # ys)" by (simp_all add: bt_wf_Cons)
  have "fst y \<le> fst (last (y # ys))" using Cons.IH [OF y(2), of "fst y"] by simp
  from Cons.prems(2) have "b = fst first \<or> b \<in> fst ` set (y # ys)" by simp
  then show ?case
  proof
    assume "b \<in> fst ` set (y # ys)"
    from Cons.IH [OF y(2) this] y(1) show ?thesis by (auto intro: order_trans less_imp_le)
  qed (use y(1) \<open>fst y \<le> fst (last (y # ys))\<close> in simp)
qed simp

lemma entry_row:
  assumes e: "entry_shape J mode track k e" and r: "entry_to_record e 1 mode track = Inr r"
    and totals: "ae_sum e = total_sum J mode rs k" "ae_count e = key_weight J rs k"
      "track \<Longrightarrow> \<forall>a. value_weight (ae_values e) a = multiplicity_of J mode rs k a"
  shows "aggregate_row J mode track rs r"
proof -
  from r obtain j fields where j: "aggregate_sum_json_value (ae_sum e) mode = Inr j"
    and fields: "(if track then extrema_fields e else Inr []) = Inr fields"
    and r': "r = delta_record_new (ae_key e) (JObject ([(''sum'', j), (''count'', json_of_i64 (ae_count e))] @ fields)) 1"
    unfolding entry_to_record_def by (auto simp: res_simps)
  have key: "canonical_json J (rec_key r) = k" "rec_weight r = 1" using e by (simp_all add: r' entry_shape_def)
  have "is_extremum J mode rs k (\<le>) (json_get (rec_value r) ''min'') \<and> is_extremum J mode rs k (\<ge>) (json_get (rec_value r) ''max'')" if track
  proof -
    from e have ok: "values_ok mode (ae_values e)" by (simp add: entry_shape_def)
    from fields that obtain first rest rows where v: "ae_values e = first # rest"
      and f: "fields = [(''min'', av_value (snd first)), (''max'', av_value (snd (last (first # rest)))), (''values'', JArray rows)]"
      by (auto simp: extrema_fields_def res_simps split: list.splits)
    have in_support: "multiplicity_of J mode rs k b \<noteq> 0 \<longleftrightarrow> b \<in> fst ` set (first # rest)" for b
      using values_ok_support [OF ok, of b] totals(3) [OF that] by (simp add: v)
    have bounds: "fst first \<le> b \<and> b \<le> fst (last (first # rest))" if "multiplicity_of J mode rs k b \<noteq> 0" for b
      using values_bounds [of first rest b] that ok unfolding in_support by (simp add: values_ok_def v)
    have printed: "aggregate_sum_json_value (fst x) mode = Inr (av_value (snd x))" if "x \<in> set (first # rest)" for x
    proof -
      from ok have "case x of (a, u) \<Rightarrow> av_weight u \<noteq> 0 \<and> aggregate_sum_json_value a mode = Inr (av_value u)"
        unfolding values_ok_def v by (elim conjE) (rule bspec [OF _ that])
      then show ?thesis by (simp add: case_prod_beta)
    qed
    have "last (first # rest) \<in> set (first # rest)" by (rule last_in_set) simp
    then have "is_extremum J mode rs k (\<ge>) (Some (av_value (snd (last (first # rest)))))"
      unfolding is_extremum_def
      using bounds printed [of "last (first # rest)"] in_support [of "fst (last (first # rest))"]
      by (intro exI [of _ "fst (last (first # rest))"] exI conjI) (blast intro: imageI)+
    moreover have "is_extremum J mode rs k (\<le>) (Some (av_value (snd first)))"
      unfolding is_extremum_def
      using bounds printed [of first] in_support [of "fst first"]
      by (intro exI [of _ "fst first"] exI conjI) auto
    ultimately show ?thesis by (simp add: r' f json_get_def)
  qed
  with key j totals(1,2) show ?thesis by (simp add: aggregate_row_def json_get_def r')
qed

section \<open>Restoring a saved aggregate\<close>

fun mode_ok :: "aggregate_value_mode \<Rightarrow> bool" where
  "mode_ok IntegerMode = True"
| "mode_ok (Decimal128 precision scale) \<longleftrightarrow> 0 < precision \<and> precision \<le> 38 \<and> scale \<le> 38"

lemma as_i64_json_of_i64 [simp]: "i64_range i \<Longrightarrow> as_i64 (json_of_i64 i) = Some i"
  by (auto simp: json_of_i64_def i64_checked_def)

lemma parse_state_sum_json:
  assumes "mode_ok mode" and "aggregate_sum_json_value a mode = Inr j"
  shows "parse_state_sum mode j = Inr a"
proof (cases mode)
  case IntegerMode
  with assms(2) show ?thesis by (auto simp: res_simps)
next
  case (Decimal128 p sc)
  with assms(2) have j: "length (dec (nat \<bar>a\<bar>)) \<le> p" "j = JString (format_decimal128_value a sc)"
    by (auto simp: res_simps ensure_precision_iff)
  with Decimal128 assms(1) have "nat \<bar>a\<bar> < 10 ^ p" by (simp add: length_dec_le)
  then have "\<bar>a\<bar> < 10 ^ p" by (simp add: nat_less_iff)
  with Decimal128 assms(1) have "parse_decimal128_str (format_decimal128_value a sc) p sc = Some a"
    by (intro parse_format) simp_all
  with Decimal128 j(2) show ?thesis by (simp add: parse_decimal128_value_for_state_def)
qed

lemma bt_wf_append_snoc: "bt_wf (acc @ x # xs) \<Longrightarrow> bt_insert (fst x) (snd x) acc = acc @ [x] \<and> bt_wf ((acc @ [x]) @ xs)"
  by (cases x) (auto simp: bt_wf_def sorted_wrt_append intro!: bt_insert_snoc)

lemma value_entry_eta [simp]: "\<lparr>av_value = av_value v, av_weight = av_weight v\<rparr> = v"
  by (cases v) simp

lemma value_row_Inr:
  "value_row v = Inr row \<longleftrightarrow>
     i64_range (av_weight v) \<and> row = JObject [(''value'', av_value v), (''weight'', json_of_i64 (av_weight v))]"
  by (auto simp: value_row_def res_simps)

lemma state_values_restore:
  assumes "mode_ok mode" and "bt_wf (acc @ ds)"
    and "\<And>a v. (a, v) \<in> set ds \<Longrightarrow> av_weight v \<noteq> 0 \<and> aggregate_sum_json_value a mode = Inr (av_value v)"
    and "rmap_list value_row (map snd ds) = Inr rows"
  shows "rfold (state_value mode) rows acc = Inr (acc @ ds)"
  using assms(2-)
proof (induction ds arbitrary: acc rows)
  case (Cons d ds)
  obtain a v where d: "d = (a, v)" by (cases d)
  from Cons.prems(3) obtain rows' where rows: "i64_range (av_weight v)" "rmap_list value_row (map snd ds) = Inr rows'"
    "rows = JObject [(''value'', av_value v), (''weight'', json_of_i64 (av_weight v))] # rows'"
    by (auto simp: d res_simps value_row_Inr)
  from Cons.prems(2) [of a v] have v: "av_weight v \<noteq> 0" "parse_state_sum mode (av_value v) = Inr a"
    using parse_state_sum_json [OF assms(1)] by (simp_all add: d)
  note ins = bt_wf_append_snoc [OF Cons.prems(1)]
  from Cons.IH [OF conjunct2 [OF ins] Cons.prems(2) rows(2)]
  have "rfold (state_value mode) rows' (acc @ [d]) = Inr (acc @ d # ds)" by simp
  moreover have "state_value mode (JObject [(''value'', av_value v), (''weight'', json_of_i64 (av_weight v))]) acc
      = Inr (acc @ [d])"
    using ins v rows(1) by (simp add: state_value_def d)
  ultimately show ?case by (simp add: rows(3))
qed simp

lemma entry_values_restore:
  assumes "bt_wf (acc @ ds)" and "\<forall>x \<in> set ds. 0 < av_weight (snd x) \<and> i64_range (av_weight (snd x))"
  shows "rfold (\<lambda>(order_value, value) entry. add_value_weight entry order_value (av_value value) (av_weight value) 1) ds
     (e\<lparr>ae_values := acc\<rparr>) = Inr (e\<lparr>ae_values := acc @ ds\<rparr>)"
  using assms
proof (induction ds arbitrary: acc)
  case (Cons d ds)
  obtain a v where d: "d = (a, v)" by (cases d)
  from Cons.prems(2) have v: "0 < av_weight v" "i64_range (av_weight v)" by (simp_all add: d)
  note ins = bt_wf_append_snoc [OF Cons.prems(1)]
  have "a \<notin> fst ` set acc" using Cons.prems(1) by (auto simp: d bt_wf_def sorted_wrt_append)
  then have "value_weight acc a = 0" by (rule value_weight_absent)
  then have "add_value_weight (e\<lparr>ae_values := acc\<rparr>) a (av_value v) (av_weight v) 1 = Inr (e\<lparr>ae_values := acc @ [d]\<rparr>)"
    using v ins by (simp add: add_value_weight_def i128_checked_def i64_range_i128 d)
  with Cons.IH [OF conjunct2 [OF ins]] Cons.prems(2) show ?case by (simp add: d)
qed simp

lemma rmap_list_InrD: "rmap_list f xs = Inr ys \<Longrightarrow> x \<in> set xs \<Longrightarrow> \<exists>y. f x = Inr y"
  by (auto simp: rmap_list_eq_Inr list_all2_conv_all_nth in_set_conv_nth)

lemma sum_json_range:
  assumes "mode_ok mode" and "aggregate_sum_json_value a mode = Inr j"
  shows "i128_range a"
proof (cases mode)
  case IntegerMode
  with assms(2) show ?thesis by (auto simp: res_simps i64_range_i128)
next
  case (Decimal128 p sc)
  with assms have "nat \<bar>a\<bar> < 10 ^ p" by (auto simp: res_simps ensure_precision_iff length_dec_le)
  then have "\<bar>a\<bar> < 10 ^ p" by (simp add: nat_less_iff)
  moreover have "(10::int) ^ p \<le> 10 ^ 38" by (rule power_increasing) (use Decimal128 assms(1) in simp_all)
  ultimately show ?thesis unfolding i128_range_def by (simp add: abs_less_iff)
qed

lemma entry_weights_pos:
  assumes "entry_shape J mode True k e" and "rmap_list value_row (map snd (ae_values e)) = Inr rows"
  shows "\<forall>x \<in> set (ae_values e). 0 < av_weight (snd x) \<and> i64_range (av_weight (snd x))"
proof
  fix x assume x: "x \<in> set (ae_values e)"
  from assms(1) have ok: "values_ok mode (ae_values e)" "0 \<le> value_weight (ae_values e) (fst x)"
    by (simp_all add: entry_shape_def)
  from ok(1) x have "bt_get (ae_values e) (fst x) = Some (snd x)"
    using bt.in_entries_iff [of "ae_values e" "fst x" "snd x"] by (simp add: values_ok_def)
  then have w: "value_weight (ae_values e) (fst x) = av_weight (snd x)" by (simp add: value_weight_def)
  have "value_weight (ae_values e) (fst x) \<noteq> 0" using values_ok_support [OF ok(1)] x by simp
  with ok(2) w have "0 < av_weight (snd x)" by linarith
  moreover have "i64_range (av_weight (snd x))"
    using rmap_list_InrD [OF assms(2), of "snd x"] x by (auto simp: value_row_Inr)
  ultimately show "0 < av_weight (snd x) \<and> i64_range (av_weight (snd x))" ..
qed

lemma state_read_back:
  assumes "mode_ok mode" and e: "entry_shape J mode track k e" and r: "entry_to_record e 1 mode track = Inr r"
  shows "aggregate_state_sum_count_values (rec_value r) mode track = Inr (ae_sum e, ae_count e, ae_values e)
    \<and> i128_range (ae_sum e) \<and> i64_range (ae_count e) \<and> r = delta_record_new (ae_key e) (rec_value r) 1
    \<and> (track \<longrightarrow> (\<forall>x \<in> set (ae_values e). 0 < av_weight (snd x) \<and> i64_range (av_weight (snd x))))"
proof -
  from r obtain j fields where j: "aggregate_sum_json_value (ae_sum e) mode = Inr j" and n: "i64_range (ae_count e)"
    and fields: "(if track then extrema_fields e else Inr []) = Inr fields"
    and r': "r = delta_record_new (ae_key e) (JObject ([(''sum'', j), (''count'', json_of_i64 (ae_count e))] @ fields)) 1"
    unfolding entry_to_record_def by (auto simp: res_simps)
  note sum = parse_state_sum_json [OF assms(1) j] sum_json_range [OF assms(1) j]
  show ?thesis
  proof (cases track)
    case True
    with fields obtain first rest rows where v: "ae_values e = first # rest" "rmap_list value_row (map snd (ae_values e)) = Inr rows"
      and f: "fields = [(''min'', av_value (snd first)), (''max'', av_value (snd (last (first # rest)))), (''values'', JArray rows)]"
      by (auto simp: extrema_fields_def res_simps split: list.splits)
    from e have ok: "values_ok mode (ae_values e)" by (simp add: entry_shape_def)
    have "rfold (state_value mode) rows [] = Inr ([] @ ae_values e)"
      by (rule state_values_restore [OF assms(1) _ _ v(2)]) (use ok in \<open>auto simp: values_ok_def\<close>)
    with True sum n v(1) entry_weights_pos [of J mode k e rows] e v(2) show ?thesis
      by (simp add: aggregate_state_sum_count_values_def r' f json_get_def)
  next
    case False
    with fields e have "fields = []" "ae_values e = []" by (simp_all add: entry_shape_def)
    with False sum n show ?thesis by (simp add: aggregate_state_sum_count_values_def r' json_get_def)
  qed
qed

lemma restore_entry_step:
  assumes "mode_ok mode" and e: "entry_shape J mode track k e" and r: "entry_to_record e 1 mode track = Inr r"
    and acc: "bt_wf (acc @ [(k, e)])"
  shows "restore_entry J mode track r acc = Inr (acc @ [(k, e)])"
proof -
  note rd = state_read_back [OF assms(1) e r]
  have key: "rec_key r = ae_key e" "rec_weight r = 1" using rd by (metis delta_record_new_simps(1), metis delta_record_new_simps(3))
  have k: "canonical_json J (ae_key e) = k" "\<not> entry_is_zero e" using e by (simp_all add: entry_shape_def)
  have fresh: "bt_get acc k = None" using acc by (auto simp: map_of_eq_None_iff bt_wf_def sorted_wrt_append)
  let ?e0 = "\<lparr>ae_key = ae_key e, ae_sum = ae_sum e, ae_count = ae_count e, ae_values = []\<rparr>"
  have add: "add_weighted \<lparr>ae_key = ae_key e, ae_sum = 0, ae_count = 0, ae_values = []\<rparr> (ae_sum e) (ae_count e) 1 = Inr ?e0"
    using rd by (simp add: add_weighted_def i128_checked_def i64_range_i128)
  have vals: "(if track then rfold (\<lambda>(order_value, value) entry.
      add_value_weight entry order_value (av_value value) (av_weight value) 1) (ae_values e) ?e0 else Inr ?e0) = Inr e"
  proof (cases track)
    case True
    with rd e have "rfold (\<lambda>(order_value, value) entry.
        add_value_weight entry order_value (av_value value) (av_weight value) 1) (ae_values e) (?e0\<lparr>ae_values := []\<rparr>)
        = Inr (?e0\<lparr>ae_values := [] @ ae_values e\<rparr>)"
      by (intro entry_values_restore) (simp_all add: entry_shape_def values_ok_def)
    with True show ?thesis by simp
  next
    case False
    with e show ?thesis by (cases e) (simp add: entry_shape_def)
  qed
  have "bt_insert k e acc = acc @ [(k, e)]" using bt_wf_append_snoc [OF acc] by simp
  with rd add vals k fresh show ?thesis by (cases track) (simp_all add: restore_entry_def key)
qed

lemma restore_entries:
  assumes "mode_ok mode" and "bt_wf (acc @ st)"
    and "\<forall>x \<in> set st. entry_wf J mode track (fst x) (snd x)"
    and "rmap_list (\<lambda>e. entry_to_record e 1 mode track) (map snd st) = Inr rows"
  shows "rfold (restore_entry J mode track) rows acc = Inr (acc @ st)"
  using assms(2-)
proof (induction st arbitrary: acc rows)
  case (Cons x st)
  from Cons.prems(3) obtain r rows' where rows: "entry_to_record (snd x) 1 mode track = Inr r"
    "rmap_list (\<lambda>e. entry_to_record e 1 mode track) (map snd st) = Inr rows'" "rows = r # rows'"
    by (auto simp: res_simps)
  note ins = bt_wf_append_snoc [OF Cons.prems(1)]
  have "bt_wf (acc @ [(fst x, snd x)])" using ins by (simp add: bt_wf_def sorted_wrt_append)
  from restore_entry_step [OF assms(1) _ rows(1) this] Cons.prems(2)
  have "restore_entry J mode track r acc = Inr (acc @ [x])" by (simp add: entry_wf_def)
  with Cons.IH [OF conjunct2 [OF ins] _ rows(2)] Cons.prems(2) show ?case by (simp add: rows(3))
qed simp

lemma validate_entries:
  assumes "\<forall>x \<in> set st. \<not> isl (entry_to_record (snd x) 1 mode track)"
  shows "validate_aggregate_entries st mode track = Inr ()"
  using assms unfolding validate_aggregate_entries_def
proof (induction st)
  case (Cons x st)
  then obtain r where "entry_to_record (snd x) 1 mode track = Inr r" by (cases "entry_to_record (snd x) 1 mode track") auto
  with Cons show ?case by simp
qed simp

lemma from_state_state:
  assumes "aggregate_wf J s" and "mode_ok (ag_value_mode s)" and "aggregate_state s = Inr rows"
  shows "from_state J rows (ag_value_mode s) (ag_track_extrema s) = Inr s"
proof -
  let ?m = "ag_value_mode s" and ?t = "ag_track_extrema s"
  from assms(1) have wf: "bt_wf (ag_state s)" "\<forall>x \<in> set (ag_state s). entry_wf J ?m ?t (fst x) (snd x)"
    using bt.in_entries_iff [of "ag_state s"] by (auto simp: aggregate_wf_def)
  have "rfold (restore_entry J ?m ?t) rows [] = Inr ([] @ ag_state s)"
    by (rule restore_entries [OF assms(2) _ wf(2)]) (use wf(1) assms(3) in \<open>simp_all add: aggregate_state_def\<close>)
  moreover have "validate_aggregate_entries (ag_state s) ?m ?t = Inr ()"
    by (rule validate_entries) (use wf(2) in \<open>simp add: entry_wf_def\<close>)
  ultimately show ?thesis by (simp add: from_state_def with_value_mode_and_extrema_def)
qed

lemma aggregate_run_wf:
  assumes "run_inputs (aggregate_apply J) (with_value_mode_and_extrema mode track) ins = (s', Inr out)"
  shows "aggregate_wf J s' \<and> ag_value_mode s' = mode \<and> ag_track_extrema s' = track"
  using aggregate.run_view [OF aggregate_new_wf(1) _ assms] aggregate_run_totals [OF aggregate_new_wf(1,2) assms]
  by (simp add: list_all_iff with_value_mode_and_extrema_def)

section \<open>Properties\<close>

text \<open>
  C40: From an empty aggregate, for any sequence of inputs that is accepted: the aggregate can be
  saved; the emitted batches add up to the saved rows; there is at most one row per key; every
  row has weight one and holds the weighted sum and the count of all amounts received for its key,
  and with extrema the least and the greatest amount whose multiplicity is not zero; a key without
  a row has sum and count zero.
\<close>

theorem aggregate_correct:
  assumes "run_inputs (aggregate_apply J) (with_value_mode_and_extrema mode track) ins = (s', Inr out)"
  shows "\<exists>rows. aggregate_state s' = Inr rows \<and> (\<forall>x. zw J out x = zw J rows x)
    \<and> distinct (map (\<lambda>r. canonical_json J (rec_key r)) rows)
    \<and> (\<forall>r \<in> set rows. aggregate_row J mode track (concat ins) r)
    \<and> (\<forall>k. k \<notin> (\<lambda>r. canonical_json J (rec_key r)) ` set rows \<longrightarrow>
          total_sum J mode (concat ins) k = 0 \<and> key_weight J (concat ins) k = 0)"
proof -
  have "ag_value_mode s' = mode \<and> ag_track_extrema s' = track \<and> holds_totals J s' (concat ins)"
    using aggregate_run_totals [OF aggregate_new_wf(1,2) assms] by (simp add: with_value_mode_and_extrema_def)
  then have st: "ag_value_mode s' = mode" "ag_track_extrema s' = track" "holds_totals J s' (concat ins)" by blast+
  have view: "zw J out x = aggregate_view J s' x" and wf: "aggregate_wf J s'" for x
    using aggregate.run_view [OF aggregate_new_wf(1) _ assms, of x] by (simp_all add: aggregate_new_wf(3) list_all_iff)
  obtain rows where rows: "aggregate_state s' = Inr rows" "\<And>x. zw J rows x = aggregate_view J s' x"
    "map (\<lambda>r. canonical_json J (rec_key r)) rows = map fst (ag_state s')"
    "\<forall>r \<in> set rows. \<exists>k e. bt_get (ag_state s') k = Some e \<and> entry_to_record e 1 mode track = Inr r"
    using aggregate_state_rows [OF wf] st by auto
  have bt: "bt_wf (ag_state s')" using wf by (simp add: aggregate_wf_def)
  have "aggregate_row J mode track (concat ins) r" if "r \<in> set rows" for r
  proof -
    from rows(4) that obtain k e where e: "bt_get (ag_state s') k = Some e" "entry_to_record e 1 mode track = Inr r" by blast
    with wf st have shape: "entry_shape J mode track k e" by (simp add: aggregate_wf_def entry_wf_def)
    from st(3) have "entry_sum (Some e) = total_sum J mode (concat ins) k" "entry_count (Some e) = key_weight J (concat ins) k"
      "track \<longrightarrow> (\<forall>a. value_weight (entry_values (Some e)) a = multiplicity_of J mode (concat ins) k a)"
      unfolding holds_totals_def st(1,2) e(1) [symmetric] by blast+
    then show ?thesis by (intro entry_row [OF shape e(2)]) (simp_all add: entry_sum_def entry_count_def entry_values_def)
  qed
  moreover have "total_sum J mode (concat ins) k = 0 \<and> key_weight J (concat ins) k = 0"
    if "k \<notin> (\<lambda>r. canonical_json J (rec_key r)) ` set rows" for k
  proof -
    have "(\<lambda>r. canonical_json J (rec_key r)) ` set rows = fst ` set (ag_state s')"
      using arg_cong [OF rows(3), of set] by simp
    with that have "k \<notin> fst ` set (ag_state s')" by simp
    then have "bt_get (ag_state s') k = None" by (simp add: map_of_eq_None_iff)
    moreover have "entry_sum (bt_get (ag_state s') k) = total_sum J mode (concat ins) k"
      "entry_count (bt_get (ag_state s') k) = key_weight J (concat ins) k"
      using st(3) unfolding holds_totals_def st(1) by blast+
    ultimately show ?thesis by (simp add: entry_sum_def entry_count_def)
  qed
  moreover have "distinct (map (\<lambda>r. canonical_json J (rec_key r)) rows)"
    unfolding rows(3) by (rule bt.entries_distinct [OF bt])
  ultimately show ?thesis using rows(1,2) view by auto
qed

text \<open>Orders of two customers, with amounts in cents; the first order of the second input is cancelled.\<close>

definition aggregate_sample :: "delta_batch list" where
  "aggregate_sample =
     [[delta_record_new (JString ''a'') (json_of_i64 5) 2, delta_record_new (JString ''b'') (json_of_i64 7) 1],
      [delta_record_new (JString ''b'') (json_of_i64 7) (- 1), delta_record_new (JString ''a'') (json_of_i64 3) 1]]"

theorem aggregate_correct_witness:
  "\<exists>s' out rows. run_inputs (aggregate_apply serde_ref) (with_value_mode_and_extrema IntegerMode True) aggregate_sample = (s', Inr out)
     \<and> aggregate_state s' = Inr rows \<and> (\<forall>x. zw serde_ref out x = zw serde_ref rows x)
     \<and> total_sum serde_ref IntegerMode (concat aggregate_sample) (canonical_json serde_ref (JString ''a'')) = 13"
proof -
  let ?run = "run_inputs (aggregate_apply serde_ref) (with_value_mode_and_extrema IntegerMode True) aggregate_sample"
  have "isl (snd ?run) = False" by code_simp
  then obtain s' out where run: "?run = (s', Inr out)" using not_isl_pair by blast
  have "total_sum serde_ref IntegerMode (concat aggregate_sample) (canonical_json serde_ref (JString ''a'')) = 13" by code_simp
  with aggregate_correct [OF run] run show ?thesis by blast
qed

text \<open>
  After any accepted sequence of inputs an aggregate can be saved without a panic, and the
  aggregate restored from the saved rows is the aggregate itself, extrema included. For decimals
  the precision is from 1 to 38 digits and the scale at most 38.
\<close>

theorem aggregate_state_roundtrip:
  assumes "mode_ok mode"
    and "run_inputs (aggregate_apply J) (with_value_mode_and_extrema mode track) ins = (s', Inr out)"
  shows "\<exists>rows. aggregate_state s' = Inr rows \<and> from_state J rows mode track = Inr s'"
proof -
  note wf = aggregate_run_wf [OF assms(2)]
  then obtain rows where "aggregate_state s' = Inr rows" using aggregate_state_rows [of J s'] by blast
  with from_state_state [of J s' rows] wf assms(1) show ?thesis by simp
qed

theorem aggregate_state_roundtrip_witness:
  "\<exists>s' out rows. run_inputs (aggregate_apply serde_ref) (with_value_mode_and_extrema IntegerMode True) aggregate_sample = (s', Inr out)
     \<and> aggregate_state s' = Inr rows \<and> from_state serde_ref rows IntegerMode True = Inr s' \<and> rows \<noteq> []"
proof -
  let ?run = "run_inputs (aggregate_apply serde_ref) (with_value_mode_and_extrema IntegerMode True) aggregate_sample"
  have "isl (snd ?run) = False" by code_simp
  then obtain s' out where run: "?run = (s', Inr out)" using not_isl_pair by blast
  have "aggregate_state (fst ?run) \<noteq> Inr []" by code_simp
  with aggregate_state_roundtrip [OF _ run] run show ?thesis by auto
qed

end
