(* ===== verification/Bag_Join.thy ===== *)
theory Bag_Join
  imports Native_Common
begin

text \<open>
  The duplicate-aware semi join and anti join (\<open>NativeSemiJoinOperator\<close> and
  \<open>NativeAntiJoinOperator\<close> of \<open>velorix-core/src/native_operator.rs\<close>). The two operators have the
  same code up to the sign of a transition, the rows they keep, and their names, so they are one
  model with a parameter for the kind. The specification \<open>bag_view\<close> says which left rows are
  visible: those whose key has a positive right multiplicity for the semi join, those whose key
  has none for the anti join.
\<close>

section \<open>Definitions\<close>

datatype bag_kind = Semi | Anti

record bag_join =
  bj_node_id :: string
  bj_left :: delta_batch
  bj_right :: delta_batch

fun bag_negative :: "bag_kind \<Rightarrow> native_operator_error" where
  "bag_negative Semi = NegativeSemiJoinMultiplicity"
| "bag_negative Anti = NegativeAntiJoinMultiplicity"

fun bag_name :: "bag_kind \<Rightarrow> string" where
  "bag_name Semi = ''semi''"
| "bag_name Anti = ''anti''"

definition bag_codec :: "bag_kind \<Rightarrow> string" where
  "bag_codec kind = ''velorix-native-'' @ bag_name kind @ ''-join-v1''"

text \<open>Whether a left row is visible at a right match count.\<close>

fun bag_keeps :: "bag_kind \<Rightarrow> int \<Rightarrow> bool" where
  "bag_keeps Semi c \<longleftrightarrow> c \<noteq> 0"
| "bag_keeps Anti c \<longleftrightarrow> c = 0"

text \<open>The sign with which the retained left bag is emitted at the first match.\<close>

fun bag_first_match_sign :: "bag_kind \<Rightarrow> int" where
  "bag_first_match_sign Semi = 1"
| "bag_first_match_sign Anti = - 1"

definition bag_new :: "string \<Rightarrow> bag_join" where
  "bag_new node_id = \<lparr>bj_node_id = node_id, bj_left = [], bj_right = []\<rparr>"

definition has_negative :: "delta_batch \<Rightarrow> bool" where
  "has_negative rows \<longleftrightarrow> list_ex (\<lambda>row. rec_weight row < 0) rows"

definition bag_validate_non_negative :: "bag_kind \<Rightarrow> serde \<Rightarrow> delta_batch \<Rightarrow> (native_operator_error, unit) result" where
  "bag_validate_non_negative kind J state =
     rbind (nnet_rows J state) (\<lambda>rows. if has_negative rows then Inl (bag_negative kind) else Inr ())"

definition bag_right_count_for_key :: "bag_kind \<Rightarrow> serde \<Rightarrow> delta_batch \<Rightarrow> json \<Rightarrow> (native_operator_error, int) result" where
  "bag_right_count_for_key kind = key_count (bag_negative kind)"

definition bag_retained_left_rows :: "bag_kind \<Rightarrow> serde \<Rightarrow> bag_join \<Rightarrow> json \<Rightarrow> int \<Rightarrow>
    (native_operator_error, delta_batch) result" where
  "bag_retained_left_rows kind J self key sign =
     rbind (nnet_rows J (bj_left self)) (\<lambda>rows.
       rmap_list (\<lambda>row.
         if rec_weight row < 0 then Inl (bag_negative kind)
         else rbind (ok_or (NOperator OpWeightOverflow) (i64_checked (rec_weight row * sign))) (\<lambda>weight.
           Inr (delta_record_new (rec_key row) (rec_value row) weight)))
         (filter (\<lambda>row. json_eq (rec_key row) key) rows))"

definition bag_apply_left :: "bag_kind \<Rightarrow> serde \<Rightarrow> bag_join \<Rightarrow> delta_batch \<Rightarrow>
    bag_join \<times> (native_operator_error, delta_batch) result" where
  "bag_apply_left kind J self input =
     (let next_left = batch_combine (bj_left self) input in
      case rbind (bag_validate_non_negative kind J next_left) (\<lambda>_.
           rbind (nnet_rows J input) (\<lambda>rows.
           rbind (rfilter_map (\<lambda>row.
             rbind (bag_right_count_for_key kind J (bj_right self) (rec_key row)) (\<lambda>c.
               Inr (if bag_keeps kind c then Some row else None))) rows) (\<lambda>output.
           rbind (nnet_rows J next_left) (\<lambda>left. Inr (left, output))))) of
        Inl e \<Rightarrow> (self, Inl e)
      | Inr (left, output) \<Rightarrow> (self\<lparr>bj_left := left\<rparr>, Inr output))"

text \<open>One touched key: emit the retained left bag when the match count leaves or reaches zero.\<close>

definition bag_transition :: "bag_kind \<Rightarrow> serde \<Rightarrow> bag_join \<Rightarrow> delta_batch \<Rightarrow> json \<Rightarrow> delta_batch \<Rightarrow>
    (native_operator_error, delta_batch) result" where
  "bag_transition kind J self next_right key output =
     rbind (bag_right_count_for_key kind J (bj_right self) key) (\<lambda>before.
     rbind (bag_right_count_for_key kind J next_right key) (\<lambda>after.
       if before = 0 \<and> after \<noteq> 0 then
         rbind (bag_retained_left_rows kind J self key (bag_first_match_sign kind)) (\<lambda>rows.
           Inr (batch_combine output rows))
       else if before \<noteq> 0 \<and> after = 0 then
         rbind (bag_retained_left_rows kind J self key (- bag_first_match_sign kind)) (\<lambda>rows.
           Inr (batch_combine output rows))
       else Inr output))"

definition bag_apply_right :: "bag_kind \<Rightarrow> serde \<Rightarrow> bag_join \<Rightarrow> delta_batch \<Rightarrow>
    bag_join \<times> (native_operator_error, delta_batch) result" where
  "bag_apply_right kind J self input =
     (let next_right = batch_combine (bj_right self) input in
      case rbind (bag_validate_non_negative kind J next_right) (\<lambda>_.
           rbind (rfold (bag_transition kind J self next_right) (bt_values (touched_key_map J input)) [])
             (\<lambda>output. rbind (nnet_rows J next_right) (\<lambda>right. Inr (right, output)))) of
        Inl e \<Rightarrow> (self, Inl e)
      | Inr (right, output) \<Rightarrow> (self\<lparr>bj_right := right\<rparr>, nnet_rows J output))"

definition bag_apply :: "bag_kind \<Rightarrow> serde \<Rightarrow> bag_join \<Rightarrow> string \<times> delta_batch \<Rightarrow>
    bag_join \<times> (native_operator_error, delta_batch) result" where
  "bag_apply kind J self i =
     (if fst i = ''left'' then bag_apply_left kind J self (snd i)
      else if fst i = ''right'' then bag_apply_right kind J self (snd i)
      else (self, Inl (InvalidGraph (bag_name kind @ '' join operator '' @ bj_node_id self
             @ '' does not accept input port '' @ fst i))))"

definition bag_checkpoint :: "bag_kind \<Rightarrow> bag_join \<Rightarrow> native_operator_checkpoint" where
  "bag_checkpoint kind self = \<lparr>cp_node_id = bj_node_id self, cp_codec_id = bag_codec kind,
     cp_codec_version = 1, cp_state = Binary (bj_left self) (bj_right self)\<rparr>"

definition bag_restore :: "bag_kind \<Rightarrow> serde \<Rightarrow> bag_join \<Rightarrow> native_operator_checkpoint \<Rightarrow>
    bag_join \<times> (native_operator_error, unit) result" where
  "bag_restore kind J self checkpoint =
     (case rbind (validate_checkpoint_header checkpoint (bj_node_id self) (bag_codec kind)) (\<lambda>_.
        case cp_state checkpoint of
          Binary left_rows right_rows \<Rightarrow>
            rbind (nnet_rows J left_rows) (\<lambda>left.
              if has_negative left
              then Inl (InvalidCheckpoint (bag_name kind @ '' join checkpoint contains negative multiplicity''))
              else rbind (nnet_rows J right_rows) (\<lambda>right.
                if has_negative right
                then Inl (InvalidCheckpoint (bag_name kind @ '' join checkpoint contains negative multiplicity''))
                else Inr (left, right)))
        | _ \<Rightarrow> Inl (InvalidCheckpoint (bag_name kind @ '' join checkpoint requires left and right state''))) of
        Inl e \<Rightarrow> (self, Inl e)
      | Inr (left, right) \<Rightarrow> (self\<lparr>bj_left := left, bj_right := right\<rparr>, Inr ()))"

text \<open>The operations of the anti join.\<close>

definition anti_validate_non_negative :: "serde \<Rightarrow> delta_batch \<Rightarrow> (native_operator_error, unit) result" where
  "anti_validate_non_negative = bag_validate_non_negative Anti"

definition anti_right_count_for_key :: "serde \<Rightarrow> delta_batch \<Rightarrow> json \<Rightarrow> (native_operator_error, int) result" where
  "anti_right_count_for_key = bag_right_count_for_key Anti"

definition anti_retained_left_rows :: "serde \<Rightarrow> bag_join \<Rightarrow> json \<Rightarrow> int \<Rightarrow> (native_operator_error, delta_batch) result" where
  "anti_retained_left_rows = bag_retained_left_rows Anti"

definition anti_join_apply :: "serde \<Rightarrow> bag_join \<Rightarrow> string \<times> delta_batch \<Rightarrow>
    bag_join \<times> (native_operator_error, delta_batch) result" where
  "anti_join_apply = bag_apply Anti"

definition anti_join_checkpoint :: "bag_join \<Rightarrow> native_operator_checkpoint" where
  "anti_join_checkpoint = bag_checkpoint Anti"

definition anti_join_restore :: "serde \<Rightarrow> bag_join \<Rightarrow> native_operator_checkpoint \<Rightarrow>
    bag_join \<times> (native_operator_error, unit) result" where
  "anti_join_restore = bag_restore Anti"

definition semi_join_apply :: "serde \<Rightarrow> bag_join \<Rightarrow> string \<times> delta_batch \<Rightarrow>
    bag_join \<times> (native_operator_error, delta_batch) result" where
  "semi_join_apply = bag_apply Semi"

section \<open>Specification\<close>

definition bag_visible :: "bag_kind \<Rightarrow> serde \<Rightarrow> delta_batch \<Rightarrow> delta_batch \<Rightarrow> string \<times> string \<Rightarrow> int" where
  "bag_visible kind J L R x = (if bag_keeps kind (key_weight J R (fst x)) then zw J L x else 0)"

definition bag_side_wf :: "serde \<Rightarrow> delta_batch \<Rightarrow> bool" where
  "bag_side_wf J rs \<longleftrightarrow> batch_wf rs \<and> consolidated J rs \<and> \<not> has_negative rs"

definition bag_wf :: "serde \<Rightarrow> bag_join \<Rightarrow> bool" where
  "bag_wf J s \<longleftrightarrow> serde_ok J \<and> bag_side_wf J (bj_left s) \<and> bag_side_wf J (bj_right s)"

definition bag_view :: "bag_kind \<Rightarrow> serde \<Rightarrow> bag_join \<Rightarrow> string \<times> string \<Rightarrow> int" where
  "bag_view kind J s = bag_visible kind J (bj_left s) (bj_right s)"


section \<open>Correctness of one delta\<close>

lemma has_negative_iff: "has_negative rs \<longleftrightarrow> (\<exists>r \<in> set rs. rec_weight r < 0)"
  by (simp add: has_negative_def list_ex_iff)

lemma bag_keeps_sign:
  "(if before = 0 \<and> after \<noteq> 0 then bag_first_match_sign kind
    else if before \<noteq> 0 \<and> after = 0 then - bag_first_match_sign kind else 0) =
   of_bool (bag_keeps kind after) - of_bool (bag_keeps kind before)"
  by (cases kind) auto

lemma bag_apply_left_Inr:
  assumes "bag_apply_left kind J s d = (s', Inr out)"
  obtains rows left where "net_rows J d = Inr rows" "net_rows J (bj_left s @ d) = Inr left"
    "\<not> has_negative left" "s' = s\<lparr>bj_left := left\<rparr>"
    "rfilter_map (\<lambda>row. rbind (key_count (bag_negative kind) J (bj_right s) (rec_key row)) (\<lambda>c.
       Inr (if bag_keeps kind c then Some row else None))) rows = Inr out"
  using assms
  by (auto simp: bag_apply_left_def bag_validate_non_negative_def bag_right_count_for_key_def
      batch_combine_def Let_def res_simps split: sum.splits if_splits)

lemma bag_apply_right_Inr:
  assumes "bag_apply_right kind J s d = (s', Inr out)"
  obtains raw right where "rfold (bag_transition kind J s (bj_right s @ d)) (bt_values (touched_key_map J d)) [] = Inr raw"
    "net_rows J (bj_right s @ d) = Inr right" "\<not> has_negative right" "s' = s\<lparr>bj_right := right\<rparr>"
    "net_rows J raw = Inr out"
  using assms
  by (auto simp: bag_apply_right_def bag_validate_non_negative_def batch_combine_def Let_def res_simps
      split: sum.splits if_splits)

context serde_laws
begin

lemma net_side_wf:
  "batch_wf rs \<Longrightarrow> net_rows J rs = Inr out \<Longrightarrow> \<not> has_negative out \<Longrightarrow> bag_side_wf J out"
  by (simp add: bag_side_wf_def net_rows_wf net_rows_consolidated)

lemma zw_kept_rows:
  assumes "batch_wf R"
  shows "batch_wf rows \<Longrightarrow>
    rfilter_map (\<lambda>row. rbind (key_count e J R (rec_key row)) (\<lambda>c.
       Inr (if bag_keeps kind c then Some row else None))) rows = Inr out \<Longrightarrow>
    batch_wf out \<and> zw J out x = (if bag_keeps kind (key_weight J R (fst x)) then zw J rows x else 0)"
proof (induction rows arbitrary: out)
  case (Cons r rows)
  from Cons.prems(2) obtain c out' where c: "key_count e J R (rec_key r) = Inr c"
    and out': "rfilter_map (\<lambda>row. rbind (key_count e J R (rec_key row)) (\<lambda>c.
       Inr (if bag_keeps kind c then Some row else None))) rows = Inr out'"
    and out: "out = (if bag_keeps kind c then r # out' else out')"
    by (auto simp: res_simps split: if_splits)
  have wf: "row_wf r" "batch_wf rows" using Cons.prems(1) by simp_all
  then have "c = key_weight J R (canonical_json J (rec_key r))"
    using key_count_Inr(1) [OF assms _ c] by (simp add: row_wf_def pair_wf_def)
  moreover have "canonical_record J r = x \<Longrightarrow> canonical_json J (rec_key r) = fst x"
    unfolding canonical_record_def by (metis fst_conv)
  ultimately show ?case using Cons.IH [OF wf(2) out'] wf(1) by (auto simp: out)
qed simp

lemma bag_left_delta:
  assumes "bag_wf J s" and "batch_wf d" and "bag_apply_left kind J s d = (s', Inr out)"
  shows "bag_wf J s' \<and> bag_view kind J s' x = bag_view kind J s x + zw J out x \<and>
    bj_right s' = bj_right s \<and> zw J (bj_left s') x = zw J (bj_left s) x + zw J d x"
proof -
  from assms(3) obtain rows left where l: "net_rows J d = Inr rows" "net_rows J (bj_left s @ d) = Inr left"
    "\<not> has_negative left" "s' = s\<lparr>bj_left := left\<rparr>"
    and out: "rfilter_map (\<lambda>row. rbind (key_count (bag_negative kind) J (bj_right s) (rec_key row)) (\<lambda>c.
       Inr (if bag_keeps kind c then Some row else None))) rows = Inr out"
    by (rule bag_apply_left_Inr)
  have wf: "batch_wf (bj_left s @ d)" "batch_wf (bj_right s)"
    using assms(1,2) by (simp_all add: bag_wf_def bag_side_wf_def)
  have "zw J left x = zw J (bj_left s) x + zw J d x" using net_rows_zw [OF wf(1) l(2)] by simp
  moreover have "zw J out x = (if bag_keeps kind (key_weight J (bj_right s) (fst x)) then zw J d x else 0)"
    using zw_kept_rows [OF wf(2) net_rows_wf [OF assms(2) l(1)] out, of x] net_rows_zw [OF assms(2) l(1), of x] by simp
  moreover have "bag_side_wf J left" by (rule net_side_wf [OF wf(1) l(2,3)])
  ultimately show ?thesis using assms(1)
    by (simp add: l(4) bag_wf_def bag_view_def bag_visible_def)
qed

lemma retained_rows_Inr:
  assumes "batch_wf (bj_left s)" and "json_wf key"
    and "bag_retained_left_rows kind J s key sign = Inr rows"
  shows "batch_wf rows \<and> zw J rows x = (if canonical_json J key = fst x then sign * zw J (bj_left s) x else 0)"
proof -
  from assms(3) obtain left where left: "net_rows J (bj_left s) = Inr left"
    and rows: "rmap_list (\<lambda>row. if rec_weight row < 0 then Inl (bag_negative kind)
         else rbind (ok_or (NOperator OpWeightOverflow) (i64_checked (rec_weight row * sign))) (\<lambda>weight.
           Inr (delta_record_new (rec_key row) (rec_value row) weight)))
       (filter (\<lambda>row. json_eq (rec_key row) key) left) = Inr rows"
    by (auto simp: bag_retained_left_rows_def res_simps)
  have *: "batch_wf rs \<Longrightarrow> rmap_list (\<lambda>row. if rec_weight row < 0 then Inl (bag_negative kind)
         else rbind (ok_or (NOperator OpWeightOverflow) (i64_checked (rec_weight row * sign))) (\<lambda>weight.
           Inr (delta_record_new (rec_key row) (rec_value row) weight))) rs = Inr rows \<Longrightarrow>
     batch_wf rows \<and> zw J rows x = sign * zw J rs x" for rs rows
  proof (induction rs arbitrary: rows)
    case (Cons r rs)
    from Cons.prems(2) obtain rest where rest: "rmap_list (\<lambda>row. if rec_weight row < 0 then Inl (bag_negative kind)
         else rbind (ok_or (NOperator OpWeightOverflow) (i64_checked (rec_weight row * sign))) (\<lambda>weight.
           Inr (delta_record_new (rec_key row) (rec_value row) weight))) rs = Inr rest"
      and r: "i64_range (rec_weight r * sign)"
      and rows: "rows = delta_record_new (rec_key r) (rec_value r) (rec_weight r * sign) # rest"
      by (auto simp: res_simps split: if_splits)
    have "canonical_record J (delta_record_new (rec_key r) (rec_value r) (rec_weight r * sign)) = canonical_record J r"
      by (rule record_ids_cong) simp_all
    with Cons.IH [OF _ rest] Cons.prems(1) r show ?case
      by (auto simp: rows row_wf_def distrib_left mult.commute)
  qed simp
  have wf: "batch_wf left" by (rule net_rows_wf [OF assms(1) left])
  then have "batch_wf (filter (\<lambda>row. json_eq (rec_key row) key) left)" by (simp add: batch_wf_iff)
  from * [OF this rows] zw_filter_key [OF wf assms(2), of x] net_rows_zw [OF assms(1) left, of x]
  show ?thesis by simp
qed

lemma bag_transition_rows:
  assumes "batch_wf (bj_left s)" "batch_wf (bj_right s)" "batch_wf next_right" "json_wf key"
    and "bag_transition kind J s next_right key out0 = Inr out1"
  shows "\<exists>rows. out1 = out0 @ rows \<and> batch_wf rows \<and> zw J rows x = (if canonical_json J key = fst x
      then (of_bool (bag_keeps kind (key_weight J next_right (fst x)))
            - of_bool (bag_keeps kind (key_weight J (bj_right s) (fst x)))) * zw J (bj_left s) x else 0)"
proof -
  let ?k = "canonical_json J key"
  from assms(5) obtain before after where
    cnt: "key_count (bag_negative kind) J (bj_right s) key = Inr before"
      "key_count (bag_negative kind) J next_right key = Inr after"
    by (auto simp: bag_transition_def bag_right_count_for_key_def res_simps)
  define sign where "sign = (of_bool (bag_keeps kind after) - of_bool (bag_keeps kind before) :: int)"
  have sgn: "sign = (if before = 0 \<and> after \<noteq> 0 then bag_first_match_sign kind
    else if before \<noteq> 0 \<and> after = 0 then - bag_first_match_sign kind else 0)"
    unfolding sign_def by (rule bag_keeps_sign [symmetric])
  have "\<exists>rows. out1 = out0 @ rows \<and> batch_wf rows \<and> zw J rows x = (if ?k = fst x then sign * zw J (bj_left s) x else 0)"
  proof (cases "(before = 0) = (after = 0)")
    case True
    then show ?thesis using assms(5) cnt
      by (auto simp: bag_transition_def bag_right_count_for_key_def sgn intro!: exI [of _ "[]"])
  next
    case False
    then obtain rows where "bag_retained_left_rows kind J s key sign = Inr rows" "out1 = out0 @ rows"
      using assms(5) cnt
      by (auto simp: bag_transition_def bag_right_count_for_key_def batch_combine_def sgn res_simps)
    with retained_rows_Inr [OF assms(1,4)] show ?thesis by blast
  qed
  moreover have "before = key_weight J (bj_right s) ?k" "after = key_weight J next_right ?k"
    using key_count_Inr(1) [OF assms(2,4) cnt(1)] key_count_Inr(1) [OF assms(3,4) cnt(2)] by simp_all
  ultimately show ?thesis by (auto simp: sign_def)
qed

lemma bag_transitions:
  assumes "batch_wf (bj_left s)" "batch_wf (bj_right s)" "batch_wf d"
    and "rfold (bag_transition kind J s (bj_right s @ d)) (bt_values (touched_key_map J d)) [] = Inr out"
  shows "batch_wf out \<and> zw J out x = (of_bool (bag_keeps kind (key_weight J (bj_right s @ d) (fst x)))
      - of_bool (bag_keeps kind (key_weight J (bj_right s) (fst x)))) * zw J (bj_left s) x"
proof -
  have wf: "batch_wf (bj_right s @ d)" using assms(2,3) by simp
  show ?thesis
    using touched_fold [OF bag_transition_rows [OF assms(1,2) wf, of _ kind _ _ x] _ assms(3) _ assms(4)] by simp
qed

lemma bag_right_delta:
  assumes "bag_wf J s" and "batch_wf d" and "bag_apply_right kind J s d = (s', Inr out)"
  shows "bag_wf J s' \<and> bag_view kind J s' x = bag_view kind J s x + zw J out x \<and>
    bj_left s' = bj_left s \<and> zw J (bj_right s') x = zw J (bj_right s) x + zw J d x"
proof -
  from assms(3) obtain raw right where r:
    "rfold (bag_transition kind J s (bj_right s @ d)) (bt_values (touched_key_map J d)) [] = Inr raw"
    "net_rows J (bj_right s @ d) = Inr right" "\<not> has_negative right" "s' = s\<lparr>bj_right := right\<rparr>"
    "net_rows J raw = Inr out"
    by (rule bag_apply_right_Inr)
  have wf: "batch_wf (bj_left s)" "batch_wf (bj_right s)" "batch_wf (bj_right s @ d)"
    using assms(1,2) by (simp_all add: bag_wf_def bag_side_wf_def)
  let ?c = "(of_bool (bag_keeps kind (key_weight J (bj_right s @ d) (fst x)))
    - of_bool (bag_keeps kind (key_weight J (bj_right s) (fst x)))) * zw J (bj_left s) x"
  have raw: "batch_wf raw" "zw J raw x = ?c"
    using bag_transitions [OF wf(1,2) assms(2) r(1), of x] by simp_all
  have "zw J out x = ?c" using net_rows_zw [OF raw(1) r(5)] raw(2) by simp
  moreover have "key_weight J right (fst x) = key_weight J (bj_right s @ d) (fst x)"
    by (rule net_rows_key_weight [OF wf(3) r(2)])
  moreover have "bag_side_wf J right" by (rule net_side_wf [OF wf(3) r(2,3)])
  moreover have "zw J right x = zw J (bj_right s) x + zw J d x" using net_rows_zw [OF wf(3) r(2)] by simp
  ultimately show ?thesis using assms(1)
    by (auto simp: r(4) bag_wf_def bag_view_def bag_visible_def of_bool_def)
qed

text \<open>
  The rows emitted for the touched keys never repeat a row identity, so consolidating them
  cannot overflow: the last fallible step of the right input comes after the state is replaced,
  but it does not fail.
\<close>

lemma retained_rows_keys:
  assumes "bag_side_wf J (bj_left s)" and "json_wf key" and "bag_retained_left_rows kind J s key sign = Inr rows"
  shows "distinct (map (canonical_record J) rows) \<and>
    (\<forall>r \<in> set rows. canonical_json J (rec_key r) = canonical_json J key)"
proof -
  let ?f = "\<lambda>row. if rec_weight row < 0 then Inl (bag_negative kind)
         else rbind (ok_or (NOperator OpWeightOverflow) (i64_checked (rec_weight row * sign))) (\<lambda>weight.
           Inr (delta_record_new (rec_key row) (rec_value row) weight))"
  let ?rs = "filter (\<lambda>row. json_eq (rec_key row) key) (bj_left s)"
  have wf: "batch_wf (bj_left s)" "consolidated J (bj_left s)" using assms(1) by (simp_all add: bag_side_wf_def)
  have rows: "rmap_list ?f ?rs = Inr rows"
    using assms(3) consolidated_net_rows [OF wf(2)] by (simp add: bag_retained_left_rows_def)
  have "map (canonical_record J) rows = map (canonical_record J) rs" if "rmap_list ?f rs = Inr rows" for rs rows
    using that
  proof (induction rs arbitrary: rows)
    case (Cons r rs)
    then obtain rest where "rmap_list ?f rs = Inr rest"
      "rows = delta_record_new (rec_key r) (rec_value r) (rec_weight r * sign) # rest"
      by (auto simp: res_simps split: if_splits)
    with Cons.IH show ?case by (simp add: canonical_record_def)
  qed simp
  from this [OF rows] have ids: "map (canonical_record J) rows = map (canonical_record J) ?rs" .
  have "distinct (map (canonical_record J) ?rs)"
    using consolidated_distinct [OF wf(2,1)] by (rule distinct_map_filter)
  moreover have "canonical_json J (rec_key r) = canonical_json J key" if r: "r \<in> set rows" for r
  proof -
    from r have "canonical_record J r \<in> set (map (canonical_record J) ?rs)" unfolding ids [symmetric] by simp
    then obtain q where q: "q \<in> set (bj_left s)" "json_eq (rec_key q) key" "canonical_record J r = canonical_record J q"
      by auto
    from q(3) have "canonical_json J (rec_key r) = canonical_json J (rec_key q)" by (simp add: canonical_record_def)
    with filter_key_iff [OF wf(1) assms(2) q(1)] q(2) show ?thesis by simp
  qed
  ultimately show ?thesis by (simp add: ids)
qed

lemma bag_transitions_distinct:
  assumes "bag_side_wf J (bj_left s)"
  shows "list_all json_wf keys \<Longrightarrow> distinct (map (canonical_json J) keys) \<Longrightarrow>
    distinct (map (canonical_record J) out0) \<Longrightarrow>
    (\<forall>r \<in> set out0. canonical_json J (rec_key r) \<notin> canonical_json J ` set keys) \<Longrightarrow>
    rfold (bag_transition kind J s next_right) keys out0 = Inr out \<Longrightarrow>
    distinct (map (canonical_record J) out)"
proof (induction keys arbitrary: out0)
  case (Cons key keys)
  from Cons.prems(5) obtain out1 where out1: "bag_transition kind J s next_right key out0 = Inr out1"
    "rfold (bag_transition kind J s next_right) keys out1 = Inr out" by (auto simp: res_simps)
  from out1(1) obtain rows where rows: "out1 = out0 @ rows"
    "rows = [] \<or> (\<exists>sign. bag_retained_left_rows kind J s key sign = Inr rows)"
    by (auto simp: bag_transition_def batch_combine_def res_simps split: if_splits)
  have key: "json_wf key" using Cons.prems(1) by simp
  have r: "distinct (map (canonical_record J) rows)"
    "\<And>r. r \<in> set rows \<Longrightarrow> canonical_json J (rec_key r) = canonical_json J key"
    using rows(2) retained_rows_keys [OF assms key] by auto
  have "canonical_record J a \<noteq> canonical_record J b" if "a \<in> set out0" "b \<in> set rows" for a b
    using Cons.prems(4) that r(2) [OF that(2)] by (auto simp: canonical_record_def)
  then have "canonical_record J ` set out0 \<inter> canonical_record J ` set rows = {}" by blast
  then have "distinct (map (canonical_record J) out1)"
    using Cons.prems(3) r(1) by (simp add: rows(1))
  moreover have "\<forall>r \<in> set out1. canonical_json J (rec_key r) \<notin> canonical_json J ` set keys"
    using Cons.prems(2,4) r(2) by (auto simp: rows(1))
  ultimately show ?case using Cons.IH [OF _ _ _ _ out1(2)] Cons.prems(1,2) by simp
qed simp

lemma bag_apply_error:
  assumes "bag_wf J s" and "batch_wf (snd i)" and "bag_apply kind J s i = (s', Inl e)"
  shows "s' = s"
proof (cases "fst i = ''right''")
  case True
  let ?d = "snd i"
  have wf: "bag_side_wf J (bj_left s)" "batch_wf (bj_left s)" "batch_wf (bj_right s)" "batch_wf (bj_right s @ ?d)"
    using assms(1,2) by (simp_all add: bag_wf_def bag_side_wf_def)
  have "\<exists>out. net_rows J raw = Inr out"
    if raw: "rfold (bag_transition kind J s (bj_right s @ ?d)) (bt_values (touched_key_map J ?d)) [] = Inr raw" for raw
  proof -
    have d: "distinct (map (canonical_record J) raw)"
      by (rule bag_transitions_distinct [OF wf(1) touched_keys_wf [OF assms(2)] touched_keys_distinct _ _ raw]) simp_all
    have b: "batch_wf raw" using bag_transitions [OF wf(2,3) assms(2) raw] by simp
    then have "distinct (map (enc J) raw)"
      using d by (auto simp: distinct_map inj_on_def batch_wf_iff enc_eq_iff_canonical)
    with b show ?thesis by (intro net_rows_fresh) (auto simp: batch_wf_iff row_wf_def)
  qed
  with assms(3) True show ?thesis
    by (fastforce simp: bag_apply_def bag_apply_right_def batch_combine_def Let_def res_simps split: sum.splits)
next
  case False
  with assms(3) show ?thesis
    by (auto simp: bag_apply_def bag_apply_left_def Let_def split: sum.splits if_splits)
qed

lemma bag_delta:
  assumes "bag_wf J s" and "batch_wf (snd i)" and "bag_apply kind J s i = (s', Inr out)"
  shows "bag_wf J s' \<and> bag_view kind J s' x = bag_view kind J s x + zw J out x
    \<and> zw J (bj_left s') x = zw J (bj_left s) x + (if fst i = ''left'' then zw J (snd i) x else 0)
    \<and> zw J (bj_right s') x = zw J (bj_right s) x + (if fst i = ''right'' then zw J (snd i) x else 0)"
proof (cases "fst i = ''left''")
  case True
  with assms bag_left_delta [of s "snd i" kind s' out x] show ?thesis by (simp add: bag_apply_def)
next
  case False
  with assms bag_right_delta [of s "snd i" kind s' out x] show ?thesis
    by (simp add: bag_apply_def split: if_splits)
qed

end

lemma bag_wf_serde: "bag_wf J s \<Longrightarrow> serde_laws J"
  by (rule serde_laws.intro) (simp add: bag_wf_def)

interpretation bag: incremental_view J "bag_apply kind J" "\<lambda>i. batch_wf (snd i)" "bag_wf J" "bag_view kind J"
  for J kind
  by unfold_locales (use serde_laws.bag_delta [OF bag_wf_serde] in blast)+


section \<open>Properties\<close>

lemma bag_new_wf: "serde_ok J \<Longrightarrow> bag_wf J (bag_new n)"
  by (simp add: bag_wf_def bag_new_def bag_side_wf_def has_negative_def)

lemma bag_run_state:
  assumes "bag_wf J s" and "list_all (\<lambda>i. batch_wf (snd i)) ins"
    and "run_inputs (bag_apply kind J) s ins = (s', Inr out)"
  shows "bag_wf J s' \<and> zw J (bj_left s') x = zw J (bj_left s) x + zw J (port_inputs ''left'' ins) x
    \<and> zw J (bj_right s') x = zw J (bj_right s) x + zw J (port_inputs ''right'' ins) x"
  using assms
proof (induction ins arbitrary: s out)
  case (Cons i ins)
  from Cons.prems(2) have ok: "batch_wf (snd i)" "list_all (\<lambda>i. batch_wf (snd i)) ins" by simp_all
  from Cons.prems(3) obtain t o1 o2 where
    t: "bag_apply kind J s i = (t, Inr o1)" "run_inputs (bag_apply kind J) t ins = (s', Inr o2)"
    by (auto split: prod.splits sum.splits)
  note step = serde_laws.bag_delta [OF bag_wf_serde [OF Cons.prems(1)] Cons.prems(1) ok(1) t(1), of x]
  from step Cons.IH [OF conjunct1 [OF step] ok(2) t(2)] show ?case by auto
qed simp

lemma bag_run_visible:
  assumes "serde_ok J" and "list_all (\<lambda>i. batch_wf (snd i)) ins"
    and "run_inputs (bag_apply kind J) (bag_new n) ins = (s', Inr out)"
  shows "zw J out x = bag_visible kind J (port_inputs ''left'' ins) (port_inputs ''right'' ins) x \<and>
    0 \<le> key_weight J (port_inputs ''right'' ins) (fst x)"
proof -
  note wf = bag_new_wf [OF assms(1), of n]
  have run: "zw J (bj_left s') y = zw J (port_inputs ''left'' ins) y"
    "zw J (bj_right s') y = zw J (port_inputs ''right'' ins) y" "bag_wf J s'" for y
    using bag_run_state [OF wf assms(2,3), of y] by (simp_all add: bag_new_def)
  have kw: "key_weight J (bj_right s') (fst x) = key_weight J (port_inputs ''right'' ins) (fst x)"
    by (rule key_weight_cong) (rule run(2))
  have "zw J out x = bag_view kind J s' x"
    by (rule bag.run_from_empty [OF wf _ assms(2,3)]) (simp add: bag_view_def bag_visible_def bag_new_def)
  moreover have "0 \<le> key_weight J (bj_right s') (fst x)"
    using run(3) by (intro key_weight_nonneg) (auto simp: bag_wf_def bag_side_wf_def has_negative_iff)
  ultimately show ?thesis by (simp add: bag_view_def bag_visible_def run(1) kw)
qed

definition bag_sample :: "(string \<times> delta_batch) list" where
  "bag_sample =
     [(''left'', [delta_record_new (JString ''k'') (JBool True) 2, delta_record_new (JString ''m'') JNull 1]),
      (''right'', [delta_record_new (JString ''k'') JNull 1]),
      (''right'', [delta_record_new (JString ''k'') (JBool False) 4]),
      (''left'', [delta_record_new (JString ''k'') (JBool True) (- 1)])]"

lemma bag_sample_wf: "list_all (\<lambda>i. batch_wf (snd i)) bag_sample"
  by (simp add: bag_sample_def row_wf_def pair_wf_def i64_range_def)



text \<open>
  The anti join computes the anti join: the emitted batches add up to the left rows whose
  key has no right multiplicity.
\<close>

theorem anti_join_correct:
  assumes "serde_ok J" and "list_all (\<lambda>i. batch_wf (snd i)) ins"
    and "run_inputs (anti_join_apply J) (bag_new n) ins = (s', Inr out)"
  shows "zw J out x = (if key_weight J (port_inputs ''right'' ins) (fst x) = 0
    then zw J (port_inputs ''left'' ins) x else 0)"
  using bag_run_visible [OF assms(1,2) assms(3) [unfolded anti_join_apply_def], of x]
  by (auto simp: bag_visible_def)

theorem anti_join_correct_witness:
  "\<exists>s' out. run_inputs (anti_join_apply serde_ref) (bag_new ''n'') bag_sample = (s', Inr out) \<and>
     zw serde_ref out (''\"k\"'', ''true'') = 0 \<and> zw serde_ref out (''\"m\"'', ''null'') = 1"
proof -
  have "isl (snd (run_inputs (anti_join_apply serde_ref) (bag_new ''n'') bag_sample)) = False" by code_simp
  then obtain s' out where run: "run_inputs (anti_join_apply serde_ref) (bag_new ''n'') bag_sample = (s', Inr out)"
    using not_isl_pair by blast
  have "key_weight serde_ref (port_inputs ''right'' bag_sample) ''\"k\"'' = 5"
    "key_weight serde_ref (port_inputs ''right'' bag_sample) ''\"m\"'' = 0"
    "zw serde_ref (port_inputs ''left'' bag_sample) (''\"m\"'', ''null'') = 1" by code_simp+
  with anti_join_correct [OF serde_ref_ok bag_sample_wf run] run show ?thesis by simp
qed

text \<open>
  A failing delta leaves a semi or anti join as it was. This includes the right input,
  whose state is replaced before its last fallible step.
\<close>

theorem bag_apply_atomic:
  assumes "bag_wf J s" and "batch_wf (snd i)" and "bag_apply kind J s i = (s', Inl e)"
  shows "s' = s"
  by (rule serde_laws.bag_apply_error [OF bag_wf_serde [OF assms(1)] assms])

theorem bag_apply_atomic_witness:
  "bag_apply Semi serde_ref (bag_new ''n'') (''right'', [delta_record_new (JString ''k'') JNull (- 1)]) =
     (bag_new ''n'', Inl NegativeSemiJoinMultiplicity)"
proof -
  let ?i = "(''right'', [delta_record_new (JString ''k'') JNull (- 1)])"
  have wf: "batch_wf (snd ?i)" by (simp add: row_wf_def pair_wf_def i64_range_def)
  have "snd (bag_apply Semi serde_ref (bag_new ''n'') ?i) = Inl NegativeSemiJoinMultiplicity" by code_simp
  moreover have "fst (bag_apply Semi serde_ref (bag_new ''n'') ?i) = bag_new ''n''"
    by (rule bag_apply_atomic [OF bag_new_wf [OF serde_ref_ok] wf]) (use calculation in \<open>simp add: prod_eq_iff\<close>)
  ultimately show ?thesis by (simp add: prod_eq_iff)
qed

text \<open>
  A semi or anti join restored from a checkpoint of an operator with the same node id is in
  exactly the state the checkpoint was taken from.
\<close>

theorem bag_checkpoint_roundtrip:
  assumes "bag_wf J s" and "bj_node_id t = bj_node_id s"
  shows "bag_restore kind J t (bag_checkpoint kind s) = (s, Inr ())"
  using assms consolidated_net_rows [of J "bj_left s"] consolidated_net_rows [of J "bj_right s"]
  by (simp add: bag_restore_def bag_checkpoint_def validate_checkpoint_header_def bag_wf_def bag_side_wf_def)

theorem bag_checkpoint_roundtrip_witness:
  "\<exists>s' out. run_inputs (bag_apply Anti serde_ref) (bag_new ''n'') bag_sample = (s', Inr out) \<and> bj_left s' \<noteq> [] \<and>
     bag_restore Anti serde_ref (bag_new ''n'') (bag_checkpoint Anti s') = (s', Inr ())"
proof -
  have *: "(\<lambda>r. isl (snd r) = False \<and> bj_left (fst r) \<noteq> [] \<and> bj_node_id (fst r) = ''n'')
     (run_inputs (bag_apply Anti serde_ref) (bag_new ''n'') bag_sample)" by code_simp
  then obtain s' out where run: "run_inputs (bag_apply Anti serde_ref) (bag_new ''n'') bag_sample = (s', Inr out)"
    using not_isl_pair by blast
  with * have s': "bj_left s' \<noteq> []" "bj_node_id (bag_new ''n'') = bj_node_id s'" by (simp_all add: bag_new_def)
  have "bag_wf serde_ref s'" using bag_run_state [OF bag_new_wf [OF serde_ref_ok] bag_sample_wf run] by simp
  from bag_checkpoint_roundtrip [OF this s'(2)] run s'(1) show ?thesis by blast
qed

end
