(* ===== verification/Outer_Join.thy ===== *)
theory Outer_Join
  imports Bag_Join
begin

text \<open>
  The left and the full outer join (\<open>NativeLeftJoinOperator\<close> and \<open>NativeFullJoinOperator\<close> of
  \<open>velorix-core/src/native_operator.rs\<close>), both built on the keyed equi-join. Matched rows come
  from the equi-join. Unmatched rows are emitted while the match count of their key is zero, and
  are retracted or restored when the count leaves or reaches zero. The specifications
  \<open>left_join_weight\<close> and \<open>full_join_weight\<close> are the ordinary outer joins of two batches.

  Both operators change the retained join before the fallible steps that follow, so unlike the
  semi and anti join a failing delta can leave a changed state; the model returns that state.
\<close>

section \<open>Definitions\<close>

type_synonym unmatched_fun = "json \<Rightarrow> (operator_error, json) result"

record left_join =
  lj_node_id :: string
  lj_join :: keyed_equi_join
  lj_unmatched :: unmatched_fun

record full_join =
  fj_node_id :: string
  fj_join :: keyed_equi_join
  fj_unmatched_left :: unmatched_fun
  fj_unmatched_right :: unmatched_fun

text \<open>The steps the two operators share. \<open>negative\<close> is the error of the operator.\<close>

definition unmatched_rows :: "native_operator_error \<Rightarrow> serde \<Rightarrow> unmatched_fun \<Rightarrow> delta_batch \<Rightarrow> json \<Rightarrow> int \<Rightarrow>
    (native_operator_error, delta_batch) result" where
  "unmatched_rows negative J U side key sign =
     rbind (nnet_rows J side) (\<lambda>rows.
       rmap_list (\<lambda>row.
         if rec_weight row < 0 then Inl negative
         else rbind (rmap_err NOperator (U (rec_value row))) (\<lambda>value.
              rbind (ok_or (NOperator OpWeightOverflow) (i64_checked (rec_weight row * sign))) (\<lambda>weight.
                Inr (delta_record_new (rec_key row) value weight))))
         (filter (\<lambda>row. json_eq (rec_key row) key) rows))"

definition emit_unmatched :: "native_operator_error \<Rightarrow> serde \<Rightarrow> unmatched_fun \<Rightarrow> delta_batch \<Rightarrow> delta_record \<Rightarrow>
    delta_batch \<Rightarrow> (native_operator_error, delta_batch) result" where
  "emit_unmatched negative J U other row output =
     rbind (key_count negative J other (rec_key row)) (\<lambda>c.
       if c = 0 then
         rbind (rmap_err NOperator (U (rec_value row))) (\<lambda>value.
           Inr (batch_combine output [delta_record_new (rec_key row) value (rec_weight row)]))
       else Inr output)"

definition outer_transition :: "native_operator_error \<Rightarrow> serde \<Rightarrow> unmatched_fun \<Rightarrow> delta_batch \<Rightarrow> delta_batch \<Rightarrow>
    delta_batch \<Rightarrow> json \<Rightarrow> delta_batch \<Rightarrow> (native_operator_error, delta_batch) result" where
  "outer_transition negative J U retained before after key output =
     rbind (key_count negative J before key) (\<lambda>b.
     rbind (key_count negative J after key) (\<lambda>a.
       if b = 0 \<and> a \<noteq> 0 then
         rbind (unmatched_rows negative J U retained key (- 1)) (\<lambda>rows. Inr (batch_combine output rows))
       else if b \<noteq> 0 \<and> a = 0 then
         rbind (unmatched_rows negative J U retained key 1) (\<lambda>rows. Inr (batch_combine output rows))
       else Inr output))"

definition left_join_new :: "string \<Rightarrow> join_fun \<Rightarrow> unmatched_fun \<Rightarrow> int \<Rightarrow> left_join \<times> int" where
  "left_join_new node_id F U next_id =
     (let (j, next_id') = equi_join_new F next_id
      in (\<lparr>lj_node_id = node_id, lj_join = j, lj_unmatched = U\<rparr>, next_id'))"

definition left_right_count_for_key :: "serde \<Rightarrow> delta_batch \<Rightarrow> json \<Rightarrow> (native_operator_error, int) result" where
  "left_right_count_for_key = key_count NegativeLeftJoinMultiplicity"

definition left_unmatched_rows :: "serde \<Rightarrow> left_join \<Rightarrow> delta_batch \<Rightarrow> json \<Rightarrow> int \<Rightarrow>
    (native_operator_error, delta_batch) result" where
  "left_unmatched_rows J self = unmatched_rows NegativeLeftJoinMultiplicity J (lj_unmatched self)"

definition left_join_apply :: "serde \<Rightarrow> left_join \<Rightarrow> string \<times> delta_batch \<Rightarrow>
    left_join \<times> (native_operator_error, delta_batch) result" where
  "left_join_apply J self i =
     (if fst i = ''left'' then
        (case apply_left J (lj_join self) (snd i) of
           (j, Inl e) \<Rightarrow> (self\<lparr>lj_join := j\<rparr>, Inl (NOperator e))
         | (j, Inr rows) \<Rightarrow> (self\<lparr>lj_join := j\<rparr>,
             rbind (nnet_rows J (snd i)) (\<lambda>inputs.
             rbind (rfold (emit_unmatched NegativeLeftJoinMultiplicity J (lj_unmatched self)
                      (right_state (lj_join self))) inputs rows) (\<lambda>output.
             nnet_rows J output))))
      else if fst i = ''right'' then
        (case apply_right J (lj_join self) (snd i) of
           (j, Inl e) \<Rightarrow> (self\<lparr>lj_join := j\<rparr>, Inl (NOperator e))
         | (j, Inr rows) \<Rightarrow> (self\<lparr>lj_join := j\<rparr>,
             rbind (rfold (outer_transition NegativeLeftJoinMultiplicity J (lj_unmatched self)
                      (left_state j) (right_state (lj_join self)) (right_state j))
                      (bt_values (touched_key_map J (snd i))) rows) (\<lambda>output.
             nnet_rows J output)))
      else (self, Inl (InvalidGraph (''left join operator '' @ lj_node_id self
             @ '' does not accept input port '' @ fst i))))"

definition outer_checkpoint :: "string \<Rightarrow> string \<Rightarrow> keyed_equi_join \<Rightarrow> native_operator_checkpoint" where
  "outer_checkpoint node_id codec_id j = \<lparr>cp_node_id = node_id, cp_codec_id = codec_id,
     cp_codec_version = 1, cp_state = Binary (left_state j) (right_state j)\<rparr>"

text \<open>Restoring the retained join of an outer join; \<open>name\<close> is its name in the error texts.\<close>

definition outer_restore :: "string \<Rightarrow> serde \<Rightarrow> string \<Rightarrow> string \<Rightarrow> keyed_equi_join \<Rightarrow>
    native_operator_checkpoint \<Rightarrow> keyed_equi_join \<times> (native_operator_error, unit) result" where
  "outer_restore name J node_id codec_id j checkpoint =
     (case rbind (validate_checkpoint_header checkpoint node_id codec_id) (\<lambda>_.
        case cp_state checkpoint of
          Binary left_rows right_rows \<Rightarrow>
            rbind (nnet_rows J left_rows) (\<lambda>left.
              if has_negative left
              then Inl (InvalidCheckpoint (name @ '' join checkpoint contains negative multiplicity''))
              else rbind (nnet_rows J right_rows) (\<lambda>right.
                if has_negative right
                then Inl (InvalidCheckpoint (name @ '' join checkpoint contains negative multiplicity''))
                else Inr (left_rows, right_rows)))
        | _ \<Rightarrow> Inl (InvalidCheckpoint (name @ '' join checkpoint requires left and right state''))) of
        Inl e \<Rightarrow> (j, Inl e)
      | Inr (left_rows, right_rows) \<Rightarrow>
          (case restore_state J j left_rows right_rows of (j', res) \<Rightarrow> (j', rmap_err NOperator res)))"

definition left_join_checkpoint :: "left_join \<Rightarrow> native_operator_checkpoint" where
  "left_join_checkpoint self = outer_checkpoint (lj_node_id self) ''velorix-native-left-join-v1'' (lj_join self)"

definition left_join_restore :: "serde \<Rightarrow> left_join \<Rightarrow> native_operator_checkpoint \<Rightarrow>
    left_join \<times> (native_operator_error, unit) result" where
  "left_join_restore J self checkpoint =
     (case outer_restore ''left'' J (lj_node_id self) ''velorix-native-left-join-v1'' (lj_join self) checkpoint of
        (j, res) \<Rightarrow> (self\<lparr>lj_join := j\<rparr>, res))"

definition full_join_new :: "string \<Rightarrow> join_fun \<Rightarrow> unmatched_fun \<Rightarrow> unmatched_fun \<Rightarrow> int \<Rightarrow> full_join \<times> int" where
  "full_join_new node_id F UL UR next_id =
     (let (j, next_id') = equi_join_new F next_id
      in (\<lparr>fj_node_id = node_id, fj_join = j, fj_unmatched_left = UL, fj_unmatched_right = UR\<rparr>, next_id'))"

definition full_count_for_key :: "serde \<Rightarrow> delta_batch \<Rightarrow> json \<Rightarrow> (native_operator_error, int) result" where
  "full_count_for_key = key_count NegativeFullJoinMultiplicity"

definition unmatched_left_rows :: "serde \<Rightarrow> full_join \<Rightarrow> delta_batch \<Rightarrow> json \<Rightarrow> int \<Rightarrow>
    (native_operator_error, delta_batch) result" where
  "unmatched_left_rows J self = unmatched_rows NegativeFullJoinMultiplicity J (fj_unmatched_left self)"

definition unmatched_right_rows :: "serde \<Rightarrow> full_join \<Rightarrow> delta_batch \<Rightarrow> json \<Rightarrow> int \<Rightarrow>
    (native_operator_error, delta_batch) result" where
  "unmatched_right_rows J self = unmatched_rows NegativeFullJoinMultiplicity J (fj_unmatched_right self)"

text \<open>
  The body of one port of the full join: the unmatched rows of the input's own side, then the
  transitions of the other side's unmatched rows.
\<close>

definition full_output :: "serde \<Rightarrow> unmatched_fun \<Rightarrow> unmatched_fun \<Rightarrow> delta_batch \<Rightarrow> delta_batch \<Rightarrow> delta_batch \<Rightarrow>
    delta_batch \<Rightarrow> delta_batch \<Rightarrow> (native_operator_error, delta_batch) result" where
  "full_output J own others other before after input rows =
     rbind (nnet_rows J input) (\<lambda>inputs.
     rbind (rfold (emit_unmatched NegativeFullJoinMultiplicity J own other) inputs rows) (\<lambda>output.
     rbind (rfold (outer_transition NegativeFullJoinMultiplicity J others other before after)
              (bt_values (touched_key_map J input)) output) (\<lambda>output.
     nnet_rows J output)))"

definition full_join_apply :: "serde \<Rightarrow> full_join \<Rightarrow> string \<times> delta_batch \<Rightarrow>
    full_join \<times> (native_operator_error, delta_batch) result" where
  "full_join_apply J self i =
     (if fst i = ''left'' then
        (case apply_left J (fj_join self) (snd i) of
           (j, Inl e) \<Rightarrow> (self\<lparr>fj_join := j\<rparr>, Inl (NOperator e))
         | (j, Inr rows) \<Rightarrow> (self\<lparr>fj_join := j\<rparr>,
             full_output J (fj_unmatched_left self) (fj_unmatched_right self) (right_state (fj_join self))
               (left_state (fj_join self)) (left_state j) (snd i) rows))
      else if fst i = ''right'' then
        (case apply_right J (fj_join self) (snd i) of
           (j, Inl e) \<Rightarrow> (self\<lparr>fj_join := j\<rparr>, Inl (NOperator e))
         | (j, Inr rows) \<Rightarrow> (self\<lparr>fj_join := j\<rparr>,
             full_output J (fj_unmatched_right self) (fj_unmatched_left self) (left_state (fj_join self))
               (right_state (fj_join self)) (right_state j) (snd i) rows))
      else (self, Inl (InvalidGraph (''full join operator '' @ fj_node_id self
             @ '' does not accept input port '' @ fst i))))"

definition full_join_checkpoint :: "full_join \<Rightarrow> native_operator_checkpoint" where
  "full_join_checkpoint self = outer_checkpoint (fj_node_id self) ''velorix-native-full-join-v1'' (fj_join self)"

definition full_join_restore :: "serde \<Rightarrow> full_join \<Rightarrow> native_operator_checkpoint \<Rightarrow>
    full_join \<times> (native_operator_error, unit) result" where
  "full_join_restore J self checkpoint =
     (case outer_restore ''full'' J (fj_node_id self) ''velorix-native-full-join-v1'' (fj_join self) checkpoint of
        (j, res) \<Rightarrow> (self\<lparr>fj_join := j\<rparr>, res))"

text \<open>A null extension, for concrete runs.\<close>

definition null_extend :: unmatched_fun where
  "null_extend a = Inr (JArray [a, JNull])"

section \<open>Specification\<close>

definition unmatched_weight :: "serde \<Rightarrow> unmatched_fun \<Rightarrow> delta_batch \<Rightarrow> string \<times> string \<Rightarrow> int" where
  "unmatched_weight J U rs x = (\<Sum>r\<leftarrow>rs.
     if canonical_json J (rec_key r) = fst x \<and> joined J (U (rec_value r)) = Some (snd x) then rec_weight r else 0)"

definition left_join_weight :: "serde \<Rightarrow> join_fun \<Rightarrow> unmatched_fun \<Rightarrow> delta_batch \<Rightarrow> delta_batch \<Rightarrow>
    string \<times> string \<Rightarrow> int" where
  "left_join_weight J F U L R x = join_weight J F L R x +
     (if key_weight J R (fst x) = 0 then unmatched_weight J U L x else 0)"

definition full_join_weight :: "serde \<Rightarrow> join_fun \<Rightarrow> unmatched_fun \<Rightarrow> unmatched_fun \<Rightarrow> delta_batch \<Rightarrow> delta_batch \<Rightarrow>
    string \<times> string \<Rightarrow> int" where
  "full_join_weight J F UL UR L R x = left_join_weight J F UL L R x +
     (if key_weight J L (fst x) = 0 then unmatched_weight J UR R x else 0)"

text \<open>What is asked of the closures: to treat rows with equal texts alike, and to return values
  that keep a row well formed.\<close>

definition unmatched_respects :: "serde \<Rightarrow> unmatched_fun \<Rightarrow> bool" where
  "unmatched_respects J U \<longleftrightarrow> (\<forall>a b. canonical_json J a = canonical_json J b \<longrightarrow> joined J (U a) = joined J (U b))"

definition unmatched_closed :: "unmatched_fun \<Rightarrow> bool" where
  "unmatched_closed U \<longleftrightarrow> (\<forall>k a v. pair_wf k a \<longrightarrow> U a = Inr v \<longrightarrow> pair_wf k v)"

definition join_closed :: "join_fun \<Rightarrow> bool" where
  "join_closed F \<longleftrightarrow> (\<forall>k a b v. pair_wf k a \<longrightarrow> json_wf b \<longrightarrow> (F a b = Inr v \<longrightarrow> pair_wf k v) \<and> (F b a = Inr v \<longrightarrow> pair_wf k v))"


section \<open>The retained rows stay well formed\<close>

lemma side_add_batch_wf:
  assumes "side_wf J s" and "batch_wf (side_batch s)" and "row_wf r" and "side_add J r s = Inr s'"
  shows "batch_wf (side_batch s')"
  unfolding batch_wf_iff
proof
  fix q assume q: "q \<in> set (side_batch s')"
  have wf': "side_wf J s'" by (rule side_add_Inr(1) [OF assms(1,4)])
  from iffD1 [OF in_side_batch [OF wf'] q] obtain e
    where e: "side_get s' (canonical_record J q) = Some e" "q = to_record e" by blast
  let ?w = "side_weight s (canonical_record J r) + rec_weight r"
  from assms(4) have w: "i64_range ?w" and s': "s' = put_cell (canonical_record J r) (cell_of r ?w) s"
    by (auto simp: side_add_cell res_simps cell_weight_Inr)
  show "row_wf q"
  proof (cases "canonical_record J q = canonical_record J r")
    case True
    with e(1) have "cell_of r ?w = Some e" by (simp add: s' side_get_put_cell [OF assms(1)])
    with w assms(3) show ?thesis by (auto simp: e(2) row_wf_def cell_of_def split: if_splits)
  next
    case False
    with e(1) have "side_get s (canonical_record J q) = Some e" by (simp add: s' side_get_put_cell [OF assms(1)])
    then have "q \<in> set (side_batch s)" using e(2) by (subst in_side_batch [OF assms(1)]) blast
    with assms(2) show ?thesis by (simp add: batch_wf_iff)
  qed
qed

lemma side_applied_batch_wf:
  "side_wf J s \<Longrightarrow> batch_wf (side_batch s) \<Longrightarrow> batch_wf rs \<Longrightarrow> side_applied J s rs = Inr s' \<Longrightarrow> batch_wf (side_batch s')"
proof (induction rs arbitrary: s)
  case (Cons r rs)
  then obtain t where t: "side_add J r s = Inr t" "side_applied J t rs = Inr s'" by (auto simp: res_simps)
  from Cons.IH [OF side_add_Inr(1) [OF Cons.prems(1) t(1)] side_add_batch_wf [OF Cons.prems(1,2) _ t(1)] _ t(2)] Cons.prems(3)
  show ?case by simp
qed simp

lemma join_closedD: "join_closed F \<Longrightarrow> pair_wf k a \<Longrightarrow> json_wf b \<Longrightarrow> F a b = Inr v \<Longrightarrow> pair_wf k v"
  unfolding join_closed_def by blast

lemma join_against_wf:
  assumes "join_closed F" and "batch_wf (side_batch s)" and "side_wf J s"
  shows "batch_wf d \<Longrightarrow> join_against J d s F = Inr out \<Longrightarrow> batch_wf out"
proof (induction d arbitrary: out)
  case Nil
  then show ?case by (simp add: join_against_def)
next
  case (Cons r d)
  from Cons.prems(2) obtain o1 o2 where o: "join_record F r (net_records_for_key J s (rec_key r)) = Inr o1"
    "join_against J d s F = Inr o2" "out = o1 @ o2" by (auto simp: join_against_Cons res_simps)
  have "batch_wf qs \<Longrightarrow> join_record F r qs = Inr out1 \<Longrightarrow> batch_wf out1" for qs out1
  proof (induction qs arbitrary: out1)
    case Nil
    then show ?case by (simp add: join_record_def)
  next
    case (Cons q qs)
    from Cons.prems(2) obtain v rest where v: "i64_range (rec_weight r * rec_weight q)" "F (rec_value r) (rec_value q) = Inr v"
      "join_record F r qs = Inr rest" "out1 = delta_record_new (rec_key r) v (rec_weight r * rec_weight q) # rest"
      by (auto simp: join_record_Inr_Cons)
    have "pair_wf (rec_key r) v"
      by (rule join_closedD [OF assms(1) _ _ v(2)])
         (use Cons.prems(1) \<open>batch_wf (r # d)\<close> in \<open>simp_all add: row_wf_def pair_wf_def\<close>)
    with v Cons.IH [OF _ v(3)] Cons.prems(1) show ?case by (simp add: row_wf_def)
  qed
  moreover have "batch_wf (net_records_for_key J s (rec_key r))"
    using assms(2) by (simp add: net_records_for_key_filter [OF assms(3)] batch_wf_iff)
  ultimately show ?case using o Cons.IH [OF _ o(2)] Cons.prems(1) by auto
qed

lemma join_closed_flip: "join_closed F \<Longrightarrow> join_closed (\<lambda>a b. F b a)"
  unfolding join_closed_def by blast

definition outer_wf :: "serde \<Rightarrow> keyed_equi_join \<Rightarrow> bool" where
  "outer_wf J j \<longleftrightarrow> serde_ok J \<and> join_wf J j \<and> join_closed (join_values j) \<and>
     batch_wf (left_state j) \<and> batch_wf (right_state j)"

lemma outer_side_step:
  assumes "outer_wf J j" and "batch_wf (snd i)" and "apply_side J j i = (j', Inr out)"
  shows "outer_wf J j' \<and> batch_wf out"
proof (cases "fst i")
  case JLeft
  with assms(3) obtain s where s: "join_against J (snd i) (ej_right j) (join_values j) = Inr out"
    "side_applied J (ej_left j) (snd i) = Inr s" "j' = j\<lparr>ej_left := s, revision := u64_wrapping_inc (revision j)\<rparr>"
    by (auto simp: apply_side_def apply_left_Inr)
  have wf: "side_wf J (ej_left j)" "side_wf J (ej_right j)" "join_closed (join_values j)"
    "batch_wf (side_batch (ej_left j))" "batch_wf (side_batch (ej_right j))"
    using assms(1) by (simp_all add: outer_wf_def join_wf_def left_state_def right_state_def)
  have "join_wf J j'" using apply_side_state [OF _ assms(3)] assms(1) by (simp add: outer_wf_def)
  with assms(1) side_applied_batch_wf [OF wf(1,4) assms(2) s(2)] join_against_wf [OF wf(3,5,2) assms(2) s(1)]
  show ?thesis by (simp add: s(3) outer_wf_def left_state_def right_state_def)
next
  case JRight
  with assms(3) obtain s where s: "join_against J (snd i) (ej_left j) (\<lambda>a b. join_values j b a) = Inr out"
    "side_applied J (ej_right j) (snd i) = Inr s" "j' = j\<lparr>ej_right := s, revision := u64_wrapping_inc (revision j)\<rparr>"
    by (auto simp: apply_side_def apply_right_Inr)
  have wf: "side_wf J (ej_left j)" "side_wf J (ej_right j)" "join_closed (\<lambda>a b. join_values j b a)"
    "batch_wf (side_batch (ej_left j))" "batch_wf (side_batch (ej_right j))"
    using assms(1) by (simp_all add: outer_wf_def join_wf_def left_state_def right_state_def join_closed_flip)
  have "join_wf J j'" using apply_side_state [OF _ assms(3)] assms(1) by (simp add: outer_wf_def)
  with assms(1) side_applied_batch_wf [OF wf(2,5) assms(2) s(2)] join_against_wf [OF wf(3,4,1) assms(2) s(1)]
  show ?thesis by (simp add: s(3) outer_wf_def left_state_def right_state_def)
qed

section \<open>Unmatched rows\<close>

lemma unmatched_weight_simps [simp]:
  "unmatched_weight J U [] x = 0"
  "unmatched_weight J U (r # rs) x = (if canonical_json J (rec_key r) = fst x
     \<and> joined J (U (rec_value r)) = Some (snd x) then rec_weight r else 0) + unmatched_weight J U rs x"
  by (simp_all add: unmatched_weight_def)

lemma unmatched_weight_add:
  assumes "unmatched_respects J U" and "\<And>y. zw J T y = zw J L y + zw J D y"
  shows "unmatched_weight J U T x = unmatched_weight J U L x + unmatched_weight J U D x"
proof -
  define G where "G c = joined J (U (SOME a. canonical_json J a = c))" for c
  have G: "joined J (U a) = G (canonical_json J a)" for a
    using assms(1) someI [of "\<lambda>b. canonical_json J b = canonical_json J a" a]
    unfolding unmatched_respects_def G_def by metis
  define f where "f y = (if fst y = fst x \<and> G (snd y) = Some (snd x) then 1 else 0 :: int)" for y
  have "unmatched_weight J U L x = (\<Sum>l\<leftarrow>L. f (canonical_record J l) * rec_weight l)" for L
    unfolding unmatched_weight_def
    by (intro arg_cong [where f = sum_list] map_cong refl) (simp add: f_def canonical_record_def G)
  then show ?thesis using zw_sum_add [of J T L D f, OF assms(2)] by simp
qed

lemma unmatched_weight_cong:
  "unmatched_respects J U \<Longrightarrow> (\<And>y. zw J L y = zw J L' y) \<Longrightarrow> unmatched_weight J U L x = unmatched_weight J U L' x"
  using unmatched_weight_add [of J U L L' "[]" x] by simp

lemma unmatched_weight_key: "(\<And>r. r \<in> set rs \<Longrightarrow> P r \<longleftrightarrow> canonical_json J (rec_key r) = k) \<Longrightarrow>
  unmatched_weight J U (filter P rs) x = (if k = fst x then unmatched_weight J U rs x else 0)"
  by (induction rs) auto


lemma unmatched_closedD: "unmatched_closed U \<Longrightarrow> pair_wf k a \<Longrightarrow> U a = Inr v \<Longrightarrow> pair_wf k v"
  unfolding unmatched_closed_def by blast

definition outer_value :: "serde \<Rightarrow> unmatched_fun \<Rightarrow> bool" where
  "outer_value J U \<longleftrightarrow> unmatched_respects J U \<and> unmatched_closed U"

context serde_laws
begin

lemma emit_unmatched_fold:
  assumes "outer_value J U" and "batch_wf other"
  shows "batch_wf rows \<Longrightarrow> batch_wf out0 \<Longrightarrow> rfold (emit_unmatched negative J U other) rows out0 = Inr out \<Longrightarrow>
    batch_wf out \<and> zw J out x = zw J out0 x +
      (if key_weight J other (fst x) = 0 then unmatched_weight J U rows x else 0)"
proof (induction rows arbitrary: out0)
  case (Cons r rows)
  from Cons.prems(1) have r: "row_wf r" "batch_wf rows" by simp_all
  from Cons.prems(3) obtain out1 where out1: "emit_unmatched negative J U other r out0 = Inr out1"
      "rfold (emit_unmatched negative J U other) rows out1 = Inr out"
    by (auto simp: res_simps)
  from out1(1) obtain c where c: "key_count negative J other (rec_key r) = Inr c"
    by (auto simp: emit_unmatched_def res_simps)
  have ck: "c = key_weight J other (canonical_json J (rec_key r))"
    by (rule key_count_Inr(1) [OF assms(2) _ c]) (use r(1) in \<open>simp add: row_wf_def pair_wf_def\<close>)
  have "\<exists>new. out1 = out0 @ new \<and> batch_wf new \<and>
      zw J new x = (if key_weight J other (fst x) = 0 then unmatched_weight J U [r] x else 0)"
  proof (cases "c = 0")
    case True
    with out1(1) c obtain v where v: "U (rec_value r) = Inr v"
      "out1 = out0 @ [delta_record_new (rec_key r) v (rec_weight r)]"
      by (auto simp: emit_unmatched_def batch_combine_def res_simps)
    have "pair_wf (rec_key r) v"
      by (rule unmatched_closedD [of U _ "rec_value r", OF _ _ v(1)]) (use assms(1) r(1) in \<open>simp_all add: outer_value_def row_wf_def\<close>)
    with v r(1) ck True show ?thesis
      by (auto simp: row_wf_def canonical_record_def joined_def prod_eq_iff)
  next
    case False
    with out1(1) c ck show ?thesis
      by (auto simp: emit_unmatched_def intro!: exI [of _ "[]"])
  qed
  then obtain new where new: "out1 = out0 @ new" "batch_wf new"
      "zw J new x = (if key_weight J other (fst x) = 0 then unmatched_weight J U [r] x else 0)" by blast
  from Cons.IH [OF r(2) _ out1(2)] Cons.prems(2) new show ?case by auto
qed simp

lemma unmatched_rows_Inr:
  assumes "outer_value J U" and "batch_wf side" and "json_wf key"
    and "unmatched_rows negative J U side key sign = Inr rows"
  shows "batch_wf rows \<and> zw J rows x = (if canonical_json J key = fst x then sign * unmatched_weight J U side x else 0)"
proof -
  let ?f = "\<lambda>row. if rec_weight row < 0 then Inl negative
         else rbind (rmap_err NOperator (U (rec_value row))) (\<lambda>value.
              rbind (ok_or (NOperator OpWeightOverflow) (i64_checked (rec_weight row * sign))) (\<lambda>weight.
                Inr (delta_record_new (rec_key row) value weight)))"
  from assms(4) obtain net where net: "net_rows J side = Inr net"
    and rows: "rmap_list ?f (filter (\<lambda>row. json_eq (rec_key row) key) net) = Inr rows"
    by (auto simp: unmatched_rows_def res_simps)
  have *: "batch_wf rs \<Longrightarrow> rmap_list ?f rs = Inr rows \<Longrightarrow>
      batch_wf rows \<and> zw J rows x = sign * unmatched_weight J U rs x" for rs rows
  proof (induction rs arbitrary: rows)
    case (Cons r rs)
    from Cons.prems(2) obtain v rest where v: "U (rec_value r) = Inr v" "rmap_list ?f rs = Inr rest"
      "i64_range (rec_weight r * sign)" "rows = delta_record_new (rec_key r) v (rec_weight r * sign) # rest"
      by (auto simp: res_simps split: if_splits)
    have "pair_wf (rec_key r) v"
      by (rule unmatched_closedD [of U _ "rec_value r", OF _ _ v(1)]) (use assms(1) Cons.prems(1) in \<open>simp_all add: outer_value_def row_wf_def\<close>)
    with Cons.IH [OF _ v(2)] Cons.prems(1) v show ?case
      by (auto simp: row_wf_def canonical_record_def joined_def prod_eq_iff distrib_left mult.commute)
  qed simp
  have wf: "batch_wf net" by (rule net_rows_wf [OF assms(2) net])
  then have f: "batch_wf (filter (\<lambda>row. json_eq (rec_key row) key) net)" by (simp add: batch_wf_iff)
  have "unmatched_weight J U net x = unmatched_weight J U side x"
    using assms(1) net_rows_zw [OF assms(2) net] by (intro unmatched_weight_cong) (simp_all add: outer_value_def)
  moreover have "unmatched_weight J U (filter (\<lambda>row. json_eq (rec_key row) key) net) x =
      (if canonical_json J key = fst x then unmatched_weight J U net x else 0)"
    by (rule unmatched_weight_key) (rule filter_key_iff [OF wf assms(3)])
  ultimately show ?thesis using * [OF f rows] by simp
qed

lemma outer_transition_rows:
  assumes "outer_value J U" and "batch_wf retained" "batch_wf before" "batch_wf after" and "json_wf key"
    and "outer_transition negative J U retained before after key out0 = Inr out1"
  shows "\<exists>rows. out1 = out0 @ rows \<and> batch_wf rows \<and> zw J rows x = (if canonical_json J key = fst x
      then (of_bool (key_weight J after (fst x) = 0) - of_bool (key_weight J before (fst x) = 0))
        * unmatched_weight J U retained x else 0)"
proof -
  let ?k = "canonical_json J key"
  from assms(6) obtain b a where
    cnt: "key_count negative J before key = Inr b" "key_count negative J after key = Inr a"
    by (auto simp: outer_transition_def res_simps)
  define sign where "sign = (of_bool (a = 0) - of_bool (b = 0) :: int)"
  have "\<exists>rows. out1 = out0 @ rows \<and> batch_wf rows \<and>
      zw J rows x = (if ?k = fst x then sign * unmatched_weight J U retained x else 0)"
  proof (cases "(b = 0) = (a = 0)")
    case True
    then show ?thesis using assms(6) cnt
      by (auto simp: outer_transition_def sign_def intro!: exI [of _ "[]"])
  next
    case False
    then obtain rows where "unmatched_rows negative J U retained key sign = Inr rows" "out1 = out0 @ rows"
      using assms(6) cnt
      by (auto simp: outer_transition_def batch_combine_def sign_def res_simps)
    with unmatched_rows_Inr [OF assms(1,2,5)] show ?thesis by blast
  qed
  moreover have "b = key_weight J before ?k" "a = key_weight J after ?k"
    using key_count_Inr(1) [OF assms(3,5) cnt(1)] key_count_Inr(1) [OF assms(4,5) cnt(2)] by simp_all
  ultimately show ?thesis by (auto simp: sign_def)
qed

lemma outer_transitions:
  assumes "outer_value J U" and "batch_wf retained" "batch_wf before" "batch_wf after" "batch_wf d" "batch_wf out0"
    and "\<And>y. zw J after y = zw J before y + zw J d y"
    and "rfold (outer_transition negative J U retained before after) (bt_values (touched_key_map J d)) out0 = Inr out"
  shows "batch_wf out \<and> zw J out x = zw J out0 x +
    (of_bool (key_weight J after (fst x) = 0) - of_bool (key_weight J before (fst x) = 0)) * unmatched_weight J U retained x"
proof -
  have "key_weight J after (fst x) = key_weight J (before @ d) (fst x)"
    by (rule key_weight_cong) (simp add: assms(7))
  then show ?thesis
    by (intro touched_fold [OF outer_transition_rows [OF assms(1-4)] _ assms(5,6,8)]) simp_all
qed

end


section \<open>One delta of the left and of the full join\<close>

definition left_join_wf :: "serde \<Rightarrow> left_join \<Rightarrow> bool" where
  "left_join_wf J s \<longleftrightarrow> outer_wf J (lj_join s) \<and> outer_value J (lj_unmatched s)"

definition left_join_view :: "serde \<Rightarrow> left_join \<Rightarrow> string \<times> string \<Rightarrow> int" where
  "left_join_view J s = left_join_weight J (join_values (lj_join s)) (lj_unmatched s)
     (left_state (lj_join s)) (right_state (lj_join s))"

definition full_join_wf :: "serde \<Rightarrow> full_join \<Rightarrow> bool" where
  "full_join_wf J s \<longleftrightarrow> outer_wf J (fj_join s) \<and> outer_value J (fj_unmatched_left s) \<and> outer_value J (fj_unmatched_right s)"

definition full_join_view :: "serde \<Rightarrow> full_join \<Rightarrow> string \<times> string \<Rightarrow> int" where
  "full_join_view J s = full_join_weight J (join_values (fj_join s)) (fj_unmatched_left s) (fj_unmatched_right s)
     (left_state (fj_join s)) (right_state (fj_join s))"

lemma apply_sides [simp]:
  "apply_side J j (JLeft, d) = apply_left J j d" "apply_side J j (JRight, d) = apply_right J j d"
  by (simp_all add: apply_side_def)

text \<open>What a delta on one side does to the retained join of an outer join.\<close>

lemma outer_step:
  assumes "outer_wf J j" and "batch_wf d" and "apply_side J j (side, d) = (j', Inr rows)"
  shows "outer_wf J j'" "batch_wf rows" "join_values j' = join_values j"
    "\<And>y. zw J (left_state j') y = zw J (left_state j) y + (if side = JLeft then zw J d y else 0)"
    "\<And>y. zw J (right_state j') y = zw J (right_state j) y + (if side = JRight then zw J d y else 0)"
    "side = JLeft \<Longrightarrow> right_state j' = right_state j" "side = JRight \<Longrightarrow> left_state j' = left_state j"
    "\<And>x. join_view J j' x = join_view J j x + zw J rows x"
proof -
  have wf: "join_wf J j" using assms(1) by (simp add: outer_wf_def)
  note st = apply_side_state [OF wf assms(3)]
  show "outer_wf J j'" "batch_wf rows" using outer_side_step [OF assms(1) _ assms(3)] assms(2) by simp_all
  show "join_values j' = join_values j" using st by blast
  show "zw J (left_state j') y = zw J (left_state j) y + (if side = JLeft then zw J d y else 0)"
    "zw J (right_state j') y = zw J (right_state j) y + (if side = JRight then zw J d y else 0)" for y
    using st [of y] by simp_all
  show "side = JLeft \<Longrightarrow> right_state j' = right_state j" "side = JRight \<Longrightarrow> left_state j' = left_state j"
    using assms(3) by (auto simp: apply_left_Inr apply_right_Inr right_state_def left_state_def)
  show "join_view J j' x = join_view J j x + zw J rows x" for x by (rule apply_side_delta [OF wf assms(3)])
qed

lemma outer_wf_states: "outer_wf J j \<Longrightarrow> batch_wf (left_state j)" "outer_wf J j \<Longrightarrow> batch_wf (right_state j)"
  by (simp_all add: outer_wf_def)

context serde_laws
begin

lemma emit_unmatched_input:
  assumes "outer_value J U" and "batch_wf other" and "batch_wf d" and "net_rows J d = Inr inputs" and "batch_wf out0"
    and "rfold (emit_unmatched negative J U other) inputs out0 = Inr out"
  shows "batch_wf out \<and> zw J out x = zw J out0 x +
    (if key_weight J other (fst x) = 0 then unmatched_weight J U d x else 0)"
proof -
  have "unmatched_weight J U inputs x = unmatched_weight J U d x"
    using assms(1) net_rows_zw [OF assms(3,4)] by (intro unmatched_weight_cong) (simp_all add: outer_value_def)
  with emit_unmatched_fold [OF assms(1,2) net_rows_wf [OF assms(3,4)] assms(5,6), of x] show ?thesis by simp
qed

lemma left_join_left:
  assumes "left_join_wf J s" and "batch_wf d" and "left_join_apply J s (''left'', d) = (s', Inr out)"
  shows "\<exists>j rows. apply_side J (lj_join s) (JLeft, d) = (j, Inr rows) \<and> s' = s\<lparr>lj_join := j\<rparr> \<and>
    left_join_view J s' x = left_join_view J s x + zw J out x"
proof -
  let ?U = "lj_unmatched s" and ?j = "lj_join s"
  from assms(3) obtain j rows inputs raw where j: "apply_side J ?j (JLeft, d) = (j, Inr rows)" "s' = s\<lparr>lj_join := j\<rparr>"
    and o: "net_rows J d = Inr inputs"
      "rfold (emit_unmatched NegativeLeftJoinMultiplicity J ?U (right_state ?j)) inputs rows = Inr raw"
      "net_rows J raw = Inr out"
    by (auto simp: left_join_apply_def res_simps split: prod.splits sum.splits)
  have wf: "outer_wf J ?j" "outer_value J ?U" using assms(1) by (simp_all add: left_join_wf_def)
  note st = outer_step [OF wf(1) assms(2) j(1)]
  have out: "batch_wf raw" "zw J raw x = zw J rows x +
      (if key_weight J (right_state ?j) (fst x) = 0 then unmatched_weight J ?U d x else 0)"
    using emit_unmatched_input [OF wf(2) outer_wf_states(2) [OF wf(1)] assms(2) o(1) st(2) o(2), of x] by simp_all
  have "unmatched_weight J ?U (left_state j) x = unmatched_weight J ?U (left_state ?j) x + unmatched_weight J ?U d x"
    by (rule unmatched_weight_add) (use wf(2) st(4) in \<open>simp_all add: outer_value_def\<close>)
  moreover have "zw J out x = zw J raw x" by (rule net_rows_zw [OF out(1) o(3)])
  ultimately have "left_join_view J s' x = left_join_view J s x + zw J out x"
    using out(2) st(3,6) st(8) [of x] by (simp add: j(2) left_join_view_def left_join_weight_def join_view_def)
  with j show ?thesis by blast
qed

lemma left_join_right:
  assumes "left_join_wf J s" and "batch_wf d" and "left_join_apply J s (''right'', d) = (s', Inr out)"
  shows "\<exists>j rows. apply_side J (lj_join s) (JRight, d) = (j, Inr rows) \<and> s' = s\<lparr>lj_join := j\<rparr> \<and>
    left_join_view J s' x = left_join_view J s x + zw J out x"
proof -
  let ?U = "lj_unmatched s" and ?j = "lj_join s"
  from assms(3) obtain j rows raw where j: "apply_side J ?j (JRight, d) = (j, Inr rows)" "s' = s\<lparr>lj_join := j\<rparr>"
    and o: "rfold (outer_transition NegativeLeftJoinMultiplicity J ?U (left_state j) (right_state ?j) (right_state j))
        (bt_values (touched_key_map J d)) rows = Inr raw" "net_rows J raw = Inr out"
    by (auto simp: left_join_apply_def res_simps split: prod.splits sum.splits)
  have wf: "outer_wf J ?j" "outer_value J ?U" using assms(1) by (simp_all add: left_join_wf_def)
  note st = outer_step [OF wf(1) assms(2) j(1)]
  have out: "batch_wf raw" "zw J raw x = zw J rows x +
      (of_bool (key_weight J (right_state j) (fst x) = 0) - of_bool (key_weight J (right_state ?j) (fst x) = 0))
        * unmatched_weight J ?U (left_state j) x"
    using outer_transitions [OF wf(2) outer_wf_states(1) [OF st(1)] outer_wf_states(2) [OF wf(1)]
        outer_wf_states(2) [OF st(1)] assms(2) st(2) _ o(1), of x] st(5) by simp_all
  have "zw J out x = zw J raw x" by (rule net_rows_zw [OF out(1) o(2)])
  then have "left_join_view J s' x = left_join_view J s x + zw J out x"
    using out(2) st(3,7) st(8) [of x]
    by (simp add: j(2) left_join_view_def left_join_weight_def join_view_def of_bool_def)
  with j show ?thesis by blast
qed

lemma full_output_delta:
  assumes "outer_value J own" "outer_value J others" "batch_wf other" "batch_wf before" "batch_wf after" "batch_wf d" "batch_wf rows"
    and "\<And>y. zw J after y = zw J before y + zw J d y"
    and "full_output J own others other before after d rows = Inr out"
  shows "zw J out x = zw J rows x + (if key_weight J other (fst x) = 0 then unmatched_weight J own d x else 0)
    + (of_bool (key_weight J after (fst x) = 0) - of_bool (key_weight J before (fst x) = 0)) * unmatched_weight J others other x"
proof -
  from assms(9) obtain inputs o1 o2 where o: "net_rows J d = Inr inputs"
    "rfold (emit_unmatched NegativeFullJoinMultiplicity J own other) inputs rows = Inr o1"
    "rfold (outer_transition NegativeFullJoinMultiplicity J others other before after)
       (bt_values (touched_key_map J d)) o1 = Inr o2" "net_rows J o2 = Inr out"
    by (auto simp: full_output_def res_simps)
  note e = emit_unmatched_input [OF assms(1,3,6) o(1) assms(7) o(2)]
  note t = outer_transitions [OF assms(2-6) conjunct1 [OF e] assms(8) o(3)]
  from e [of x] t [of x] net_rows_zw [OF conjunct1 [OF t] o(4), of x] show ?thesis by simp
qed

lemma full_join_left:
  assumes "full_join_wf J s" and "batch_wf d" and "full_join_apply J s (''left'', d) = (s', Inr out)"
  shows "\<exists>j rows. apply_side J (fj_join s) (JLeft, d) = (j, Inr rows) \<and> s' = s\<lparr>fj_join := j\<rparr> \<and>
    full_join_view J s' x = full_join_view J s x + zw J out x"
proof -
  let ?j = "fj_join s" and ?UL = "fj_unmatched_left s" and ?UR = "fj_unmatched_right s"
  from assms(3) obtain j rows where j: "apply_side J ?j (JLeft, d) = (j, Inr rows)" "s' = s\<lparr>fj_join := j\<rparr>"
    and o: "full_output J ?UL ?UR (right_state ?j) (left_state ?j) (left_state j) d rows = Inr out"
    by (auto simp: full_join_apply_def res_simps split: prod.splits sum.splits)
  have wf: "outer_wf J ?j" "outer_value J ?UL" "outer_value J ?UR" using assms(1) by (simp_all add: full_join_wf_def)
  note st = outer_step [OF wf(1) assms(2) j(1)]
  have "unmatched_weight J ?UL (left_state j) x = unmatched_weight J ?UL (left_state ?j) x + unmatched_weight J ?UL d x"
    by (rule unmatched_weight_add) (use wf(2) st(4) in \<open>simp_all add: outer_value_def\<close>)
  then have "full_join_view J s' x = full_join_view J s x + zw J out x"
    using full_output_delta [OF wf(2,3) outer_wf_states(2) [OF wf(1)] outer_wf_states(1) [OF wf(1)]
        outer_wf_states(1) [OF st(1)] assms(2) st(2) _ o, of x] st(3,4,6) st(8) [of x]
    by (simp add: j(2) full_join_view_def full_join_weight_def left_join_weight_def join_view_def of_bool_def)
  with j show ?thesis by blast
qed

lemma full_join_right:
  assumes "full_join_wf J s" and "batch_wf d" and "full_join_apply J s (''right'', d) = (s', Inr out)"
  shows "\<exists>j rows. apply_side J (fj_join s) (JRight, d) = (j, Inr rows) \<and> s' = s\<lparr>fj_join := j\<rparr> \<and>
    full_join_view J s' x = full_join_view J s x + zw J out x"
proof -
  let ?j = "fj_join s" and ?UL = "fj_unmatched_left s" and ?UR = "fj_unmatched_right s"
  from assms(3) obtain j rows where j: "apply_side J ?j (JRight, d) = (j, Inr rows)" "s' = s\<lparr>fj_join := j\<rparr>"
    and o: "full_output J ?UR ?UL (left_state ?j) (right_state ?j) (right_state j) d rows = Inr out"
    by (auto simp: full_join_apply_def res_simps split: prod.splits sum.splits)
  have wf: "outer_wf J ?j" "outer_value J ?UL" "outer_value J ?UR" using assms(1) by (simp_all add: full_join_wf_def)
  note st = outer_step [OF wf(1) assms(2) j(1)]
  have "unmatched_weight J ?UR (right_state j) x = unmatched_weight J ?UR (right_state ?j) x + unmatched_weight J ?UR d x"
    by (rule unmatched_weight_add) (use wf(3) st(5) in \<open>simp_all add: outer_value_def\<close>)
  then have "full_join_view J s' x = full_join_view J s x + zw J out x"
    using full_output_delta [OF wf(3,2) outer_wf_states(1) [OF wf(1)] outer_wf_states(2) [OF wf(1)]
        outer_wf_states(2) [OF st(1)] assms(2) st(2) _ o, of x] st(3,5,7) st(8) [of x]
    by (simp add: j(2) full_join_view_def full_join_weight_def left_join_weight_def join_view_def of_bool_def)
  with j show ?thesis by blast
qed

end


section \<open>Runs\<close>

lemma outer_wf_serde: "outer_wf J j \<Longrightarrow> serde_laws J"
  by (rule serde_laws.intro) (simp add: outer_wf_def)

text \<open>The change of the two retained sides in a step, in terms of the ports.\<close>

definition ports_step :: "serde \<Rightarrow> keyed_equi_join \<Rightarrow> string \<times> delta_batch \<Rightarrow> keyed_equi_join \<Rightarrow> bool" where
  "ports_step J j i j' \<longleftrightarrow> join_values j' = join_values j \<and> (\<forall>y.
     zw J (left_state j') y = zw J (left_state j) y + (if fst i = ''left'' then zw J (snd i) y else 0) \<and>
     zw J (right_state j') y = zw J (right_state j) y + (if fst i = ''right'' then zw J (snd i) y else 0))"

lemma ports_stepD:
  assumes "ports_step J j i j'"
  shows "join_values j' = join_values j"
    and "zw J (left_state j') y = zw J (left_state j) y + (if fst i = ''left'' then zw J (snd i) y else 0)"
    and "zw J (right_state j') y = zw J (right_state j) y + (if fst i = ''right'' then zw J (snd i) y else 0)"
  using assms unfolding ports_step_def by blast+

lemma left_join_step:
  assumes "left_join_wf J s" and "batch_wf (snd i)" and "left_join_apply J s i = (s', Inr out)"
  shows "left_join_wf J s' \<and> left_join_view J s' x = left_join_view J s x + zw J out x
    \<and> lj_unmatched s' = lj_unmatched s \<and> ports_step J (lj_join s) i (lj_join s')"
proof -
  have J: "serde_laws J" using assms(1) outer_wf_serde by (auto simp: left_join_wf_def)
  have wf: "outer_wf J (lj_join s)" using assms(1) by (simp add: left_join_wf_def)
  obtain p d where i: "i = (p, d)" by (cases i)
  consider (left) "p = ''left''" | (right) "p = ''right''"
    using assms(3) by (auto simp: i left_join_apply_def split: if_splits)
  then show ?thesis
  proof cases
    case left
    with serde_laws.left_join_left [OF J assms(1), of d s' out x] assms(2,3)
    obtain j rows where j: "apply_side J (lj_join s) (JLeft, d) = (j, Inr rows)" "s' = s\<lparr>lj_join := j\<rparr>"
      "left_join_view J s' x = left_join_view J s x + zw J out x" by (auto simp: i)
    from assms(2) have "batch_wf d" by (simp add: i)
    from outer_step [OF wf this j(1)] j assms(1) left show ?thesis
      by (simp add: i left_join_wf_def ports_step_def)
  next
    case right
    with serde_laws.left_join_right [OF J assms(1), of d s' out x] assms(2,3)
    obtain j rows where j: "apply_side J (lj_join s) (JRight, d) = (j, Inr rows)" "s' = s\<lparr>lj_join := j\<rparr>"
      "left_join_view J s' x = left_join_view J s x + zw J out x" by (auto simp: i)
    from assms(2) have "batch_wf d" by (simp add: i)
    from outer_step [OF wf this j(1)] j assms(1) right show ?thesis
      by (simp add: i left_join_wf_def ports_step_def)
  qed
qed

lemma full_join_step:
  assumes "full_join_wf J s" and "batch_wf (snd i)" and "full_join_apply J s i = (s', Inr out)"
  shows "full_join_wf J s' \<and> full_join_view J s' x = full_join_view J s x + zw J out x
    \<and> fj_unmatched_left s' = fj_unmatched_left s \<and> fj_unmatched_right s' = fj_unmatched_right s
    \<and> ports_step J (fj_join s) i (fj_join s')"
proof -
  have J: "serde_laws J" using assms(1) outer_wf_serde by (auto simp: full_join_wf_def)
  have wf: "outer_wf J (fj_join s)" using assms(1) by (simp add: full_join_wf_def)
  obtain p d where i: "i = (p, d)" by (cases i)
  consider (left) "p = ''left''" | (right) "p = ''right''"
    using assms(3) by (auto simp: i full_join_apply_def split: if_splits)
  then show ?thesis
  proof cases
    case left
    with serde_laws.full_join_left [OF J assms(1), of d s' out x] assms(2,3)
    obtain j rows where j: "apply_side J (fj_join s) (JLeft, d) = (j, Inr rows)" "s' = s\<lparr>fj_join := j\<rparr>"
      "full_join_view J s' x = full_join_view J s x + zw J out x" by (auto simp: i)
    from assms(2) have "batch_wf d" by (simp add: i)
    from outer_step [OF wf this j(1)] j assms(1) left show ?thesis
      by (simp add: i full_join_wf_def ports_step_def)
  next
    case right
    with serde_laws.full_join_right [OF J assms(1), of d s' out x] assms(2,3)
    obtain j rows where j: "apply_side J (fj_join s) (JRight, d) = (j, Inr rows)" "s' = s\<lparr>fj_join := j\<rparr>"
      "full_join_view J s' x = full_join_view J s x + zw J out x" by (auto simp: i)
    from assms(2) have "batch_wf d" by (simp add: i)
    from outer_step [OF wf this j(1)] j assms(1) right show ?thesis
      by (simp add: i full_join_wf_def ports_step_def)
  qed
qed

interpretation left_outer: incremental_view J "left_join_apply J" "\<lambda>i. batch_wf (snd i)" "left_join_wf J" "left_join_view J"
  for J
  by unfold_locales (use left_join_step in blast)+

interpretation full_outer: incremental_view J "full_join_apply J" "\<lambda>i. batch_wf (snd i)" "full_join_wf J" "full_join_view J"
  for J
  by unfold_locales (use full_join_step in blast)+

lemma run_ports:
  assumes "\<And>s i s' out. I s \<Longrightarrow> batch_wf (snd i) \<Longrightarrow> ap s i = (s', Inr out) \<Longrightarrow>
      I s' \<and> c s' = c s \<and> ports_step J (jn s) i (jn s')"
  shows "I s \<Longrightarrow> list_all (\<lambda>i. batch_wf (snd i)) ins \<Longrightarrow> run_inputs ap s ins = (s', Inr out) \<Longrightarrow>
    I s' \<and> c s' = c s \<and> join_values (jn s') = join_values (jn s)
    \<and> zw J (left_state (jn s')) y = zw J (left_state (jn s)) y + zw J (port_inputs ''left'' ins) y
    \<and> zw J (right_state (jn s')) y = zw J (right_state (jn s)) y + zw J (port_inputs ''right'' ins) y"
proof (induction ins arbitrary: s out)
  case (Cons i ins)
  from Cons.prems(2) have ok: "batch_wf (snd i)" "list_all (\<lambda>i. batch_wf (snd i)) ins" by simp_all
  from Cons.prems(3) obtain t o1 o2 where
    t: "ap s i = (t, Inr o1)" "run_inputs ap t ins = (s', Inr o2)"
    by (auto split: prod.splits sum.splits)
  note step = assms [OF Cons.prems(1) ok(1) t(1)]
  then have ps: "ports_step J (jn s) i (jn t)" by blast
  from step Cons.IH [OF conjunct1 [OF step] ok(2) t(2)] ports_stepD(1) [OF ps] ports_stepD(2,3) [OF ps, of y]
  show ?case by auto
qed simp

lemma left_join_keeps:
  "left_join_wf J s \<Longrightarrow> batch_wf (snd i) \<Longrightarrow> left_join_apply J s i = (s', Inr out) \<Longrightarrow>
    left_join_wf J s' \<and> lj_unmatched s' = lj_unmatched s \<and> ports_step J (lj_join s) i (lj_join s')"
  using left_join_step by blast

lemma full_join_keeps:
  "full_join_wf J s \<Longrightarrow> batch_wf (snd i) \<Longrightarrow> full_join_apply J s i = (s', Inr out) \<Longrightarrow>
    full_join_wf J s' \<and> (fj_unmatched_left s', fj_unmatched_right s') = (fj_unmatched_left s, fj_unmatched_right s)
    \<and> ports_step J (fj_join s) i (fj_join s')"
  using full_join_step by blast

lemma outer_new_wf:
  "serde_ok J \<Longrightarrow> join_respects J F \<Longrightarrow> join_closed F \<Longrightarrow> outer_wf J (fst (equi_join_new F n))"
  by (simp add: outer_wf_def new_join_wf)

definition outer_fun_ok :: "serde \<Rightarrow> join_fun \<Rightarrow> bool" where
  "outer_fun_ok J F \<longleftrightarrow> join_respects J F \<and> join_closed F"

lemma outer_sample_ok: "outer_fun_ok J pair_values" "outer_value J null_extend"
  by (auto simp: outer_fun_ok_def outer_value_def pair_values_respects join_closed_def pair_values_def pair_wf_def
      unmatched_respects_def unmatched_closed_def null_extend_def joined_def)

text \<open>
  The left join computes the left outer join. From a new operator, for any sequence of
  well-formed deltas on the two ports, the emitted batches add up to the inner join of all rows
  received, plus the null-extended left rows whose key has no right multiplicity.
\<close>

theorem left_join_correct:
  assumes "serde_ok J" and "outer_fun_ok J F" and "outer_value J U" and "list_all (\<lambda>i. batch_wf (snd i)) ins"
    and "run_inputs (left_join_apply J) (fst (left_join_new node F U n)) ins = (s', Inr out)"
  shows "zw J out x = left_join_weight J F U (port_inputs ''left'' ins) (port_inputs ''right'' ins) x"
proof -
  let ?s = "fst (left_join_new node F U n)"
  have s: "lj_join ?s = fst (equi_join_new F n)" "lj_unmatched ?s = U"
    by (simp_all add: left_join_new_def case_prod_unfold Let_def)
  have wf: "left_join_wf J ?s" using assms(1-3) by (simp add: left_join_wf_def s outer_new_wf outer_fun_ok_def)
  have run: "lj_unmatched s' = U" "join_values (lj_join s') = F"
    "zw J (left_state (lj_join s')) y = zw J (port_inputs ''left'' ins) y"
    "zw J (right_state (lj_join s')) y = zw J (port_inputs ''right'' ins) y" for y
    using run_ports [where ap = "left_join_apply J" and I = "left_join_wf J" and c = lj_unmatched and jn = lj_join and J = J
        and y = y, OF left_join_keeps wf assms(4,5)] by (simp_all add: s)
  have "zw J out x = left_join_view J s' x"
    by (rule left_outer.run_from_empty [OF wf _ assms(4,5)])
       (simp add: left_join_view_def left_join_weight_def s join_weight_def)
  also have "\<dots> = left_join_weight J F U (port_inputs ''left'' ins) (port_inputs ''right'' ins) x"
    unfolding left_join_view_def left_join_weight_def run(1,2)
    using join_weight_cong [of J F, OF _ run(3,4), of x] key_weight_cong [OF run(4), of "fst x"]
      unmatched_weight_cong [of J U, OF _ run(3), of x] assms(2,3)
    by (simp add: outer_fun_ok_def outer_value_def)
  finally show ?thesis .
qed

theorem left_join_correct_witness:
  "\<exists>s' out. run_inputs (left_join_apply serde_ref) (fst (left_join_new ''n'' pair_values null_extend 1)) bag_sample = (s', Inr out) \<and>
     zw serde_ref out (''\"k\"'', ''[true,null]'') = 1 \<and> zw serde_ref out (''\"m\"'', ''[null,null]'') = 1"
proof -
  let ?run = "run_inputs (left_join_apply serde_ref) (fst (left_join_new ''n'' pair_values null_extend 1)) bag_sample"
  have "isl (snd ?run) = False" by code_simp
  then obtain s' out where run: "?run = (s', Inr out)" using not_isl_pair by blast
  have "left_join_weight serde_ref pair_values null_extend (port_inputs ''left'' bag_sample) (port_inputs ''right'' bag_sample)
      (''\"k\"'', ''[true,null]'') = 1"
    "left_join_weight serde_ref pair_values null_extend (port_inputs ''left'' bag_sample) (port_inputs ''right'' bag_sample)
      (''\"m\"'', ''[null,null]'') = 1" by code_simp+
  with left_join_correct [OF serde_ref_ok outer_sample_ok bag_sample_wf run] run show ?thesis by simp
qed


definition full_sample :: "(string \<times> delta_batch) list" where
  "full_sample = bag_sample @ [(''right'', [delta_record_new (JString ''z'') (JBool True) 7])]"




text \<open>
  A left join can reach a state that its own restore rejects. A negative left row is
  accepted while the key has no match, and the checkpoint then taken is refused.
\<close>

theorem left_join_own_checkpoint_rejected:
  "\<exists>s' out. left_join_apply serde_ref (fst (left_join_new ''n'' pair_values null_extend 1))
       (''left'', [delta_record_new (JString ''k'') JNull (- 1)]) = (s', Inr out)
     \<and> snd (left_join_restore serde_ref s' (left_join_checkpoint s')) =
        Inl (InvalidCheckpoint ''left join checkpoint contains negative multiplicity'')"
proof -
  let ?r = "left_join_apply serde_ref (fst (left_join_new ''n'' pair_values null_extend 1))
       (''left'', [delta_record_new (JString ''k'') JNull (- 1)])"
  have "isl (snd ?r) = False" by code_simp
  then obtain s' out where "?r = (s', Inr out)" using not_isl_pair by blast
  moreover have "snd (left_join_restore serde_ref (fst ?r) (left_join_checkpoint (fst ?r))) =
        Inl (InvalidCheckpoint ''left join checkpoint contains negative multiplicity'')" by code_simp
  ultimately show ?thesis by auto
qed

context serde_laws
begin

lemma net_rows_side_batch:
  assumes "side_wf J s" and "batch_wf (side_batch s)" and "\<not> has_negative (side_batch s)"
  shows "\<exists>out. net_rows J (side_batch s) = Inr out \<and> \<not> has_negative out"
proof -
  have "distinct (map (enc J) (side_batch s))"
    using distinct_side_batch [OF assms(1)] assms(2)
    by (auto simp: distinct_map inj_on_def batch_wf_iff enc_eq_iff_canonical)
  then obtain out where out: "net_rows J (side_batch s) = Inr out"
    using net_rows_fresh [of J "side_batch s"] assms(2) by (auto simp: batch_wf_iff row_wf_def)
  have "0 \<le> rec_weight r" if "r \<in> set out" for r
  proof -
    have "rec_weight r = zw J out (canonical_record J r)"
      using zw_consolidated [OF net_rows_consolidated [OF out] net_rows_wf [OF assms(2) out] that] by simp
    also have "\<dots> = zw J (side_batch s) (canonical_record J r)" by (rule net_rows_zw [OF assms(2) out])
    also have "0 \<le> \<dots>"
      unfolding zw_def using assms(3) by (intro sum_list_nonneg) (auto simp: has_negative_iff)
    finally show ?thesis .
  qed
  then have "\<not> has_negative out" by (fastforce simp: has_negative_iff)
  with out show ?thesis by blast
qed

end

text \<open>
  Restoring a left or full join from its checkpoint reproduces the retained join, when the
  retained rows are well formed and none is negative.
\<close>

theorem outer_checkpoint_roundtrip:
  assumes "outer_wf J j" and "\<not> has_negative (left_state j)" and "\<not> has_negative (right_state j)"
    and "revision k + 1 < 2 ^ 64"
  shows "outer_restore name J node codec k (outer_checkpoint node codec j) =
    (k\<lparr>ej_left := ej_left j, ej_right := ej_right j, revision := revision k + 1\<rparr>, Inr ())"
proof -
  have wf: "side_wf J (ej_left j)" "side_wf J (ej_right j)" using assms(1) by (simp_all add: outer_wf_def join_wf_def)
  note net = serde_laws.net_rows_side_batch [OF outer_wf_serde [OF assms(1)]]
  obtain l r where "net_rows J (left_state j) = Inr l" "\<not> has_negative l" "net_rows J (right_state j) = Inr r" "\<not> has_negative r"
    using net [OF wf(1)] net [OF wf(2)] assms(1-3) by (auto simp: left_state_def right_state_def outer_wf_def)
  moreover have "restore_state J k (left_state j) (right_state j) =
      (k\<lparr>ej_left := ej_left j, ej_right := ej_right j, revision := revision k + 1\<rparr>, Inr ())"
    using side_restore [OF wf(1)] side_restore [OF wf(2)] assms(4)
    by (simp add: restore_state_def left_state_def right_state_def u64_checked_inc_def)
  ultimately show ?thesis
    by (simp add: outer_restore_def outer_checkpoint_def validate_checkpoint_header_def)
qed

theorem outer_checkpoint_roundtrip_witness:
  "\<exists>s' out. run_inputs (left_join_apply serde_ref) (fst (left_join_new ''n'' pair_values null_extend 1)) bag_sample = (s', Inr out) \<and>
     left_state (lj_join s') \<noteq> [] \<and>
     snd (outer_restore ''left'' serde_ref ''n'' ''c'' (fst (equi_join_new pair_values 9)) (outer_checkpoint ''n'' ''c'' (lj_join s'))) = Inr ()"
proof -
  let ?s = "fst (left_join_new ''n'' pair_values null_extend 1)"
  let ?run = "run_inputs (left_join_apply serde_ref) ?s bag_sample"
  have *: "(\<lambda>r. isl (snd r) = False \<and> left_state (lj_join (fst r)) \<noteq> [] \<and> \<not> has_negative (left_state (lj_join (fst r)))
     \<and> \<not> has_negative (right_state (lj_join (fst r)))) ?run" by code_simp
  then obtain s' out where run: "?run = (s', Inr out)" using not_isl_pair by blast
  have wf: "left_join_wf serde_ref ?s"
    using outer_sample_ok by (simp add: left_join_wf_def left_join_new_def case_prod_unfold Let_def outer_new_wf
        outer_fun_ok_def serde_ref_ok)
  have "left_join_wf serde_ref s'" using left_outer.run_view [OF wf bag_sample_wf run] by blast
  then have "outer_wf serde_ref (lj_join s')" by (simp add: left_join_wf_def)
  from outer_checkpoint_roundtrip [OF this, of "fst (equi_join_new pair_values 9)" "''left''" "''n''" "''c''"] run *
  show ?thesis by (auto simp: equi_join_new_def)
qed

end
