(* ===== verification/Top_K.thy ===== *)
theory Top_K
  imports Bag_Join
begin

text \<open>
  The incremental top-k operator (\<open>NativeTopKOperator\<close> of \<open>velorix-core/src/native_operator.rs\<close>).
  It retains the consolidated input and the selected output. Every delta recomputes the
  selection and emits the difference. The selection is proved to be a slice: with every row
  repeated as often as its multiplicity says, it is the rows from position \<open>offset\<close> on, at most
  \<open>limit\<close> of them, of the ranked input. The sort key closure of the source is the field
  \<open>tk_order_key\<close>.
\<close>

section \<open>Definitions\<close>

record top_k =
  tk_node_id :: string
  tk_offset :: nat
  tk_limit :: nat
  tk_descending :: bool
  tk_order_key :: "delta_record \<Rightarrow> (operator_error, string) result"
  tk_input :: delta_batch
  tk_output :: delta_batch

definition top_k_new :: "string \<Rightarrow> nat \<Rightarrow> nat \<Rightarrow> bool \<Rightarrow> (delta_record \<Rightarrow> (operator_error, string) result) \<Rightarrow>
    (native_operator_error, top_k) result" where
  "top_k_new node_id offset limit descending order_key =
     (if limit = 0 then Inl (InvalidGraph ''top-k limit must be positive'')
      else Inr \<lparr>tk_node_id = node_id, tk_offset = offset, tk_limit = limit, tk_descending = descending,
                tk_order_key = order_key, tk_input = [], tk_output = []\<rparr>)"

type_synonym ranked_row = "(string \<times> string \<times> string) \<times> delta_record"

definition rank_row :: "serde \<Rightarrow> top_k \<Rightarrow> delta_record \<Rightarrow> (native_operator_error, ranked_row) result" where
  "rank_row J self row =
     (if rec_weight row < 0 then Inl NegativeTopKMultiplicity
      else rbind (rmap_err NOperator (tk_order_key self row)) (\<lambda>key. Inr ((key, canonical_record J row), row)))"

text \<open>Both sort directions are stable.\<close>

definition rank_sort :: "bool \<Rightarrow> ranked_row list \<Rightarrow> ranked_row list" where
  "rank_sort descending rows = (if descending then rev (sort_key fst (rev rows)) else sort_key fst rows)"

primrec select_rows :: "delta_record list \<Rightarrow> nat \<Rightarrow> nat \<Rightarrow> (delta_error, delta_batch) result" where
  "select_rows [] skipped remaining = Inr []"
| "select_rows (row # rows) skipped remaining =
     (let multiplicity = nat (rec_weight row);
          skip = min skipped multiplicity;
          available = multiplicity - skip;
          taken = min remaining available
      in if 0 < taken then
           rbind (ok_or DeltaWeightOverflow (i64_checked (int taken))) (\<lambda>weight.
             if remaining - taken = 0 then Inr [row\<lparr>rec_weight := weight\<rparr>]
             else rbind (select_rows rows (skipped - skip) (remaining - taken)) (\<lambda>selected.
               Inr (row\<lparr>rec_weight := weight\<rparr> # selected)))
         else if remaining = 0 then Inr []
         else select_rows rows (skipped - skip) remaining)"

definition selected_output_from :: "serde \<Rightarrow> top_k \<Rightarrow> delta_batch \<Rightarrow> (native_operator_error, delta_batch) result" where
  "selected_output_from J self input_state =
     rbind (nnet_rows J input_state) (\<lambda>net.
     rbind (rmap_list (rank_row J self) net) (\<lambda>rows.
       rmap_err NDelta (select_rows (map snd (rank_sort (tk_descending self) rows))
         (tk_offset self) (tk_limit self))))"

definition top_k_apply :: "serde \<Rightarrow> top_k \<Rightarrow> string \<times> delta_batch \<Rightarrow>
    top_k \<times> (native_operator_error, delta_batch) result" where
  "top_k_apply J self i =
     (case rbind (require_port (fst i) ''input'') (\<lambda>_.
           rbind (nnet_rows J (batch_combine (tk_input self) (snd i))) (\<lambda>next_input.
           rbind (selected_output_from J self next_input) (\<lambda>next_output.
           rbind (rmap_err NDelta (batch_diff (tk_output self) next_output)) (\<lambda>delta.
             Inr (next_input, next_output, delta))))) of
        Inl e \<Rightarrow> (self, Inl e)
      | Inr (next_input, next_output, delta) \<Rightarrow>
          (self\<lparr>tk_input := next_input, tk_output := next_output\<rparr>, nnet_rows J delta))"

definition top_k_checkpoint :: "top_k \<Rightarrow> native_operator_checkpoint" where
  "top_k_checkpoint self = \<lparr>cp_node_id = tk_node_id self, cp_codec_id = ''velorix-native-top-k-v1'',
     cp_codec_version = 1, cp_state = Binary (tk_input self) (tk_output self)\<rparr>"

text \<open>Equality of batches as the derived \<open>PartialEq\<close> has it: record by record, JSON equality.\<close>

definition record_eq :: "delta_record \<Rightarrow> delta_record \<Rightarrow> bool" where
  "record_eq r s \<longleftrightarrow> json_eq (rec_key r) (rec_key s) \<and> json_eq (rec_value r) (rec_value s) \<and> rec_weight r = rec_weight s"

definition batch_eq :: "delta_batch \<Rightarrow> delta_batch \<Rightarrow> bool" where
  "batch_eq rs ss \<longleftrightarrow> list_all2 record_eq rs ss"

definition top_k_restore :: "serde \<Rightarrow> top_k \<Rightarrow> native_operator_checkpoint \<Rightarrow>
    top_k \<times> (native_operator_error, unit) result" where
  "top_k_restore J self checkpoint =
     (case rbind (validate_checkpoint_header checkpoint (tk_node_id self) ''velorix-native-top-k-v1'') (\<lambda>_.
        case cp_state checkpoint of
          Binary left_rows right_rows \<Rightarrow>
            rbind (nnet_rows J left_rows) (\<lambda>restored_input.
            rbind (nnet_rows J right_rows) (\<lambda>restored_output.
            rbind (selected_output_from J self restored_input) (\<lambda>selected.
              if \<not> batch_eq selected restored_output
              then Inl (InvalidCheckpoint ''top-k output state does not match input state'')
              else Inr (restored_input, restored_output))))
        | _ \<Rightarrow> Inl (InvalidCheckpoint ''top-k checkpoint requires input and output state'')) of
        Inl e \<Rightarrow> (self, Inl e)
      | Inr (restored_input, restored_output) \<Rightarrow>
          (self\<lparr>tk_input := restored_input, tk_output := restored_output\<rparr>, Inr ()))"

section \<open>Specification\<close>

text \<open>A batch with every row repeated as often as its multiplicity says.\<close>

definition expand :: "serde \<Rightarrow> delta_batch \<Rightarrow> (string \<times> string) list" where
  "expand J rs = concat (map (\<lambda>r. replicate (nat (rec_weight r)) (canonical_record J r)) rs)"

text \<open>The order of two rows in the ranking.\<close>

definition rank_key :: "serde \<Rightarrow> top_k \<Rightarrow> delta_record \<Rightarrow> string \<times> string \<times> string" where
  "rank_key J self r = (case tk_order_key self r of Inl _ \<Rightarrow> ([], canonical_record J r) | Inr key \<Rightarrow> (key, canonical_record J r))"

definition is_ranking :: "serde \<Rightarrow> top_k \<Rightarrow> delta_batch \<Rightarrow> delta_batch \<Rightarrow> bool" where
  "is_ranking J self rs ranked \<longleftrightarrow> mset ranked = mset rs \<and>
     (if tk_descending self then sorted (rev (map (rank_key J self) ranked)) else sorted (map (rank_key J self) ranked))"

section \<open>The selection is a slice of the ranking\<close>

lemma expand_simps [simp]:
  "expand J [] = []" "expand J (r # rs) = replicate (nat (rec_weight r)) (canonical_record J r) @ expand J rs"
  by (simp_all add: expand_def)

lemma take_drop_replicate:
  "take n (drop m (replicate k a @ xs)) = replicate (min n (k - m)) a @ take (n - (k - m)) (drop (m - k) xs)"
  by simp

lemma select_rows_Cons:
  assumes "k = nat (rec_weight row)" and "t = min n (k - m)"
  shows "select_rows (row # rows) m n =
     (if 0 < t then rbind (ok_or DeltaWeightOverflow (i64_checked (int t))) (\<lambda>weight.
         if n - t = 0 then Inr [row\<lparr>rec_weight := weight\<rparr>]
         else rbind (select_rows rows (m - k) (n - t)) (\<lambda>selected. Inr (row\<lparr>rec_weight := weight\<rparr> # selected)))
      else if n = 0 then Inr [] else select_rows rows (m - k) n)"
proof -
  have "nat (rec_weight row) - min m (nat (rec_weight row)) = nat (rec_weight row) - m"
    "m - min m (nat (rec_weight row)) = m - nat (rec_weight row)" by simp_all
  then show ?thesis unfolding select_rows.simps Let_def assms by (simp only:)
qed

declare select_rows.simps(2) [simp del]

lemma select_rows_slice:
  "0 < n \<Longrightarrow> select_rows rows m n = Inr sel \<Longrightarrow> expand J sel = take n (drop m (expand J rows))"
proof (induction rows arbitrary: m n sel)
  case (Cons row rows)
  define k where "k = nat (rec_weight row)"
  define t where "t = min n (k - m)"
  note step = select_rows_Cons [OF k_def t_def]
  have id: "canonical_record J (row\<lparr>rec_weight := w\<rparr>) = canonical_record J row" for w
    by (simp add: canonical_record_def)
  have exp: "take n (drop m (expand J (row # rows))) =
      replicate t (canonical_record J row) @ take (n - (k - m)) (drop (m - k) (expand J rows))"
    by (simp add: k_def t_def)
  consider (skip) "t = 0" | (last) "0 < t" "n - t = 0" | (more) "0 < t" "n - t \<noteq> 0" by blast
  then show ?case
  proof cases
    case skip
    with Cons.prems have "select_rows rows (m - k) n = Inr sel" by (simp add: step)
    moreover have "k - m = 0" using skip Cons.prems(1) by (simp add: t_def)
    ultimately have *: "select_rows rows (m - k) n = Inr sel" "k - m = 0" .
    from Cons.IH [OF Cons.prems(1) *(1)] *(2) skip show ?thesis by (simp add: exp del: expand_simps)
  next
    case last
    with Cons.prems have "sel = [row\<lparr>rec_weight := int t\<rparr>]" by (auto simp: step res_simps)
    moreover have "n - (k - m) = 0" using last by (simp add: t_def)
    ultimately have *: "sel = [row\<lparr>rec_weight := int t\<rparr>]" "n - (k - m) = 0" .
    show ?thesis unfolding exp *(1) by (simp add: id *(2) del: diff_is_0_eq diff_is_0_eq')
  next
    case more
    with Cons.prems obtain rest where rest: "select_rows rows (m - k) (n - t) = Inr rest"
      "sel = row\<lparr>rec_weight := int t\<rparr> # rest" by (auto simp: step res_simps)
    have nt: "n - t = n - (k - m)" using more(2) by (simp add: t_def)
    from Cons.IH [OF _ rest(1)] more(2) show ?thesis unfolding exp rest(2) nt [symmetric] by (simp add: id)
  qed
qed simp

lemma select_rows_total:
  "(\<And>r. r \<in> set rows \<Longrightarrow> i64_range (rec_weight r)) \<Longrightarrow> \<exists>sel. select_rows rows m n = Inr sel"
proof (induction rows arbitrary: m n)
  case (Cons row rows)
  define k where "k = nat (rec_weight row)"
  define t where "t = min n (k - m)"
  note step = select_rows_Cons [OF k_def t_def]
  have "i64_range (rec_weight row)" using Cons.prems by simp
  then have "ok_or DeltaWeightOverflow (i64_checked (int t)) = Inr (int t)"
    by (auto simp: i64_checked_def i64_range_def k_def t_def)
  moreover have "\<exists>sel. select_rows rows m n = Inr sel" for m n using Cons by simp
  then obtain sel sel' where "select_rows rows (m - k) (n - t) = Inr sel" "select_rows rows (m - k) n = Inr sel'" by metis
  ultimately show ?case by (simp add: step)
qed simp

lemma select_rows_rows:
  "select_rows rows m n = Inr sel \<Longrightarrow> r \<in> set sel \<Longrightarrow>
    0 < rec_weight r \<and> i64_range (rec_weight r) \<and> (\<exists>q \<in> set rows. rec_key r = rec_key q \<and> rec_value r = rec_value q)"
proof (induction rows arbitrary: m n sel)
  case (Cons row rows)
  define k where "k = nat (rec_weight row)"
  define t where "t = min n (k - m)"
  note step = select_rows_Cons [OF k_def t_def]
  from Cons.prems(1) obtain rest where "select_rows rows (m - k) (if 0 < t then n - t else n) = Inr rest \<or> rest = []"
    "sel = rest \<or> (0 < t \<and> i64_range (int t) \<and> sel = row\<lparr>rec_weight := int t\<rparr> # rest)"
    by (auto simp: step res_simps split: if_splits)
  then show ?case using Cons.prems(2) Cons.IH [of "m - k" "if 0 < t then n - t else n" rest] by auto
qed simp

lemma select_rows_distinct:
  "select_rows rows m n = Inr sel \<Longrightarrow> distinct (map (enc J) rows) \<Longrightarrow>
    distinct (map (enc J) sel) \<and> enc J ` set sel \<subseteq> enc J ` set rows"
proof (induction rows arbitrary: m n sel)
  case (Cons row rows)
  define k where "k = nat (rec_weight row)"
  define t where "t = min n (k - m)"
  note step = select_rows_Cons [OF k_def t_def]
  have e: "enc J (row\<lparr>rec_weight := w\<rparr>) = enc J row" for w by (simp add: enc_def)
  from Cons.prems(1) obtain rest where "select_rows rows (m - k) (if 0 < t then n - t else n) = Inr rest \<or> rest = []"
    and sel: "sel = rest \<or> sel = row\<lparr>rec_weight := int t\<rparr> # rest"
    by (auto simp: step res_simps split: if_splits)
  then have "distinct (map (enc J) rest) \<and> enc J ` set rest \<subseteq> enc J ` set rows"
    using Cons.prems(2) Cons.IH [of "m - k" "if 0 < t then n - t else n" rest] by auto
  moreover from this have "enc J row \<notin> enc J ` set rest" using Cons.prems(2) by auto
  ultimately show ?case using sel by (elim disjE) (auto simp: e)
qed simp


section \<open>One delta\<close>

definition rank_pair :: "serde \<Rightarrow> top_k \<Rightarrow> delta_record \<Rightarrow> ranked_row" where
  "rank_pair J self r = (rank_key J self r, r)"

lemma rank_rows_Inr:
  "rmap_list (rank_row J self) rs = Inr rows \<Longrightarrow> rows = map (rank_pair J self) rs \<and> (\<forall>r \<in> set rs. 0 \<le> rec_weight r)"
proof (induction rs arbitrary: rows)
  case (Cons r rs)
  from Cons.prems obtain y rest where "rank_row J self r = Inr y" "rmap_list (rank_row J self) rs = Inr rest" "rows = y # rest"
    by (auto simp: res_simps)
  moreover have "0 \<le> rec_weight r \<and> y = rank_pair J self r" if "rank_row J self r = Inr y" for y
    using that by (auto simp: rank_row_def rank_pair_def rank_key_def res_simps split: if_splits)
  ultimately show ?case using Cons.IH by simp
qed simp

lemma rank_sort_ranking:
  "is_ranking J self rs (map snd (rank_sort (tk_descending self) (map (rank_pair J self) rs)))"
proof -
  let ?p = "map (rank_pair J self) rs"
  have keys: "map (rank_key J self) (map snd q) = map fst q" if "set q \<subseteq> set ?p" for q
    using that by (auto simp: rank_pair_def)
  have snd_p: "image_mset snd (mset ?p) = mset rs"
    by (simp add: rank_pair_def image_mset.compositionality comp_def flip: mset_map)
  show ?thesis
  proof (cases "tk_descending self")
    case False
    have "sorted (map fst (sort_key fst ?p))" by simp
    then have "sorted (map (rank_key J self) (map snd (sort_key fst ?p)))"
      using keys [of "sort_key fst ?p"] by (simp only: set_sort subset_refl)
    with False snd_p show ?thesis by (simp add: is_ranking_def rank_sort_def)
  next
    case True
    have "sorted (map fst (sort_key fst (rev ?p)))" by simp
    moreover have "rev (map (rank_key J self) (map snd (rev (sort_key fst (rev ?p))))) = map fst (sort_key fst (rev ?p))"
      unfolding rev_map rev_rev_ident by (rule keys) simp
    ultimately have "sorted (rev (map (rank_key J self) (map snd (rev (sort_key fst (rev ?p))))))" by (simp only:)
    with True snd_p show ?thesis by (simp add: is_ranking_def rank_sort_def)
  qed
qed

lemma selected_Inr:
  assumes "consolidated J inp" and "selected_output_from J self inp = Inr sel"
  shows "\<exists>ranked. is_ranking J self inp ranked \<and> select_rows ranked (tk_offset self) (tk_limit self) = Inr sel
    \<and> (\<forall>r \<in> set inp. 0 \<le> rec_weight r)"
proof -
  from assms(2) consolidated_net_rows [OF assms(1)] obtain rows where
    rows: "rmap_list (rank_row J self) inp = Inr rows"
    "select_rows (map snd (rank_sort (tk_descending self) rows)) (tk_offset self) (tk_limit self) = Inr sel"
    by (auto simp: selected_output_from_def res_simps)
  from rank_rows_Inr [OF rows(1)] rows(2) rank_sort_ranking [of J self inp] show ?thesis by auto
qed

lemma zw_expand: "(\<And>r. r \<in> set rs \<Longrightarrow> 0 \<le> rec_weight r) \<Longrightarrow> zw J rs x = int (count_list (expand J rs) x)"
proof (induction rs)
  case (Cons r rs)
  have "count_list (replicate n y) x = (if y = x then n else 0)" for n and y :: "string \<times> string"
    by (induction n) auto
  with Cons show ?case by simp
qed simp

definition top_k_wf :: "serde \<Rightarrow> top_k \<Rightarrow> bool" where
  "top_k_wf J s \<longleftrightarrow> serde_ok J \<and> 0 < tk_limit s \<and> batch_wf (tk_input s) \<and> consolidated J (tk_input s) \<and>
     batch_wf (tk_output s) \<and> selected_output_from J s (tk_input s) = Inr (tk_output s)"

definition top_k_view :: "serde \<Rightarrow> top_k \<Rightarrow> string \<times> string \<Rightarrow> int" where
  "top_k_view J s = zw J (tk_output s)"

lemma selected_fields:
  "selected_output_from J (s\<lparr>tk_input := a, tk_output := b\<rparr>) = selected_output_from J s"
proof -
  have "rank_row J (s\<lparr>tk_input := a, tk_output := b\<rparr>) = rank_row J s"
    by (intro ext) (simp add: rank_row_def)
  then show ?thesis by (intro ext) (simp add: selected_output_from_def)
qed

lemma selected_wf:
  assumes "consolidated J inp" and "batch_wf inp" and "selected_output_from J self inp = Inr sel"
  shows "batch_wf sel"
  unfolding batch_wf_iff
proof
  fix r assume r: "r \<in> set sel"
  from selected_Inr [OF assms(1,3)] obtain ranked where ranked: "is_ranking J self inp ranked"
    "select_rows ranked (tk_offset self) (tk_limit self) = Inr sel" by blast
  from select_rows_rows [OF ranked(2) r] obtain q where q: "q \<in> set ranked" "rec_key r = rec_key q" "rec_value r = rec_value q"
    "i64_range (rec_weight r)" by blast
  have "set ranked = set inp" using ranked(1) by (auto simp: is_ranking_def dest: mset_eq_setD)
  with q(1) assms(2) have "row_wf q" by (simp add: batch_wf_iff)
  with q show "row_wf r" by (simp add: row_wf_def)
qed

lemma top_k_step:
  assumes "top_k_wf J s" and "batch_wf (snd i)" and "top_k_apply J s i = (s', Inr out)"
  shows "top_k_wf J s' \<and> top_k_view J s' x = top_k_view J s x + zw J out x
    \<and> zw J (tk_input s') x = zw J (tk_input s) x + zw J (snd i) x
    \<and> fst i = ''input'' \<and> tk_offset s' = tk_offset s \<and> tk_limit s' = tk_limit s"
proof -
  have J: "serde_laws J" using assms(1) by (intro serde_laws.intro) (simp add: top_k_wf_def)
  from assms(3) obtain inp sel delta where
    o: "fst i = ''input''" "net_rows J (tk_input s @ snd i) = Inr inp" "selected_output_from J s inp = Inr sel"
      "batch_diff (tk_output s) sel = Inr delta" "net_rows J delta = Inr out"
    and s': "s' = s\<lparr>tk_input := inp, tk_output := sel\<rparr>"
    by (auto simp: top_k_apply_def require_port_def batch_combine_def res_simps split: sum.splits if_splits)
  have wf: "batch_wf (tk_input s @ snd i)" "batch_wf (tk_output s)" using assms(1,2) by (simp_all add: top_k_wf_def)
  have inp: "batch_wf inp" "consolidated J inp" "zw J inp x = zw J (tk_input s) x + zw J (snd i) x"
    using serde_laws.net_rows_wf [OF J wf(1) o(2)] net_rows_consolidated [OF o(2)]
      serde_laws.net_rows_zw [OF J wf(1) o(2)] by simp_all
  have sel: "batch_wf sel" by (rule selected_wf [OF inp(2,1) o(3)])
  from o(4) obtain neg where neg: "rmap_list record_inverse (tk_output s) = Inr neg" "delta = neg @ sel"
    by (auto simp: batch_diff_def res_simps)
  have "batch_wf delta" using batch_inverse_weights(4) [OF neg(1)] wf(2) sel by (simp add: neg(2))
  from serde_laws.net_rows_zw [OF J this o(5), of x] batch_inverse_weights(2) [OF neg(1)]
  have "zw J out x = zw J sel x - zw J (tk_output s) x" by (simp add: neg(2))
  with assms(1) inp sel o(1,3) show ?thesis
    by (simp add: s' top_k_wf_def top_k_view_def selected_fields)
qed

interpretation topk: incremental_view J "top_k_apply J" "\<lambda>i. batch_wf (snd i)" "top_k_wf J" "top_k_view J"
  for J
  by unfold_locales (use top_k_step in blast)+

lemma top_k_run:
  "top_k_wf J s \<Longrightarrow> list_all (\<lambda>i. batch_wf (snd i)) ins \<Longrightarrow> run_inputs (top_k_apply J) s ins = (s', Inr out) \<Longrightarrow>
    zw J (tk_input s') x = zw J (tk_input s) x + zw J (port_inputs ''input'' ins) x
    \<and> tk_offset s' = tk_offset s \<and> tk_limit s' = tk_limit s"
proof (induction ins arbitrary: s out)
  case (Cons i ins)
  from Cons.prems(2) have ok: "batch_wf (snd i)" "list_all (\<lambda>i. batch_wf (snd i)) ins" by simp_all
  from Cons.prems(3) obtain t o1 o2 where
    t: "top_k_apply J s i = (t, Inr o1)" "run_inputs (top_k_apply J) t ins = (s', Inr o2)"
    by (auto split: prod.splits sum.splits)
  note step = top_k_step [OF Cons.prems(1) ok(1) t(1), of x]
  from step Cons.IH [OF conjunct1 [OF step] ok(2) t(2)] show ?case by auto
qed simp

section \<open>Properties\<close>

lemma top_k_new_wf: "serde_ok J \<Longrightarrow> top_k_new node offset limit desc ok = Inr s \<Longrightarrow> top_k_wf J s \<and> tk_input s = []
    \<and> tk_output s = [] \<and> tk_offset s = offset \<and> tk_limit s = limit"
  by (auto simp: top_k_new_def top_k_wf_def selected_output_from_def consolidated_net_rows rank_sort_def split: if_splits)


definition value_key :: "delta_record \<Rightarrow> (operator_error, string) result" where
  "value_key r = (case rec_value r of JString s \<Rightarrow> Inr s | _ \<Rightarrow> Inl NonIntegerAggregateValue)"

definition top_k_sample :: "(string \<times> delta_batch) list" where
  "top_k_sample =
     [(''input'', [delta_record_new (JString ''a'') (JString ''1'') 2, delta_record_new (JString ''b'') (JString ''3'') 2]),
      (''input'', [delta_record_new (JString ''c'') (JString ''2'') 1])]"


text \<open>
  Top-k refuses its own checkpoint. The saved output is in ranking order, restore puts it
  in encoding order before comparing it with a newly ranked selection, so a selection whose
  ranking is not its encoding order does not survive a checkpoint.
\<close>

theorem top_k_own_checkpoint_rejected:
  "\<exists>s s' out. top_k_new ''t'' 0 4 True value_key = Inr s \<and>
     run_inputs (top_k_apply serde_ref) s top_k_sample = (s', Inr out) \<and>
     snd (top_k_restore serde_ref s' (top_k_checkpoint s')) =
       Inl (InvalidCheckpoint ''top-k output state does not match input state'')"
proof -
  obtain s where s: "top_k_new ''t'' 0 4 True value_key = Inr s" by (simp add: top_k_new_def)
  have "(\<lambda>r. isl (snd r) = False \<and> snd (top_k_restore serde_ref (fst r) (top_k_checkpoint (fst r))) =
       Inl (InvalidCheckpoint ''top-k output state does not match input state''))
     (run_inputs (top_k_apply serde_ref) (projr (top_k_new ''t'' 0 4 True value_key)) top_k_sample)" by code_simp
  then show ?thesis using s not_isl_pair by (metis fst_conv sum.sel(2))
qed

end
