(* ===== verification/Native_Operators.thy ===== *)
theory Native_Operators
  imports Aggregate Bag_Join Outer_Join Top_K
begin

text \<open>
  The remaining native operators of \<open>velorix-core/src/native_operator.rs\<close> (filter, project,
  aggregate, binary join) and the trait \<open>NativeDeltaOperator\<close> all nine of them implement. A trait
  object is a value of \<open>native_operator\<close>; the methods of the trait dispatch on it. This
  theory holds the definitions; what the operator graph relies on is shown in \<open>Graph_Epoch\<close>.
\<close>

section \<open>Definitions\<close>

record native_filter =
  nf_node_id :: string
  nf_predicate :: "delta_record \<Rightarrow> (operator_error, bool) result"

definition filter_new :: "string \<Rightarrow> (delta_record \<Rightarrow> (operator_error, bool) result) \<Rightarrow> native_filter" where
  "filter_new node_id predicate = \<lparr>nf_node_id = node_id, nf_predicate = predicate\<rparr>"

definition filter_apply :: "native_filter \<Rightarrow> string \<times> delta_batch \<Rightarrow>
    native_filter \<times> (native_operator_error, delta_batch) result" where
  "filter_apply self i =
     (self, rbind (require_port (fst i) ''input'') (\<lambda>_.
        rmap_err NOperator (filter_delta_batch (nf_predicate self) (snd i))))"

definition filter_checkpoint :: "native_filter \<Rightarrow> native_operator_checkpoint" where
  "filter_checkpoint self = stateless_checkpoint (nf_node_id self) ''velorix-native-filter-v1''"

definition filter_restore :: "native_filter \<Rightarrow> native_operator_checkpoint \<Rightarrow>
    native_filter \<times> (native_operator_error, unit) result" where
  "filter_restore self checkpoint =
     (self, validate_checkpoint_identity checkpoint (nf_node_id self) ''velorix-native-filter-v1'')"

record native_project =
  np_node_id :: string
  np_project :: "delta_record \<Rightarrow> (operator_error, json \<times> json) result"

definition project_new :: "string \<Rightarrow> (delta_record \<Rightarrow> (operator_error, json \<times> json) result) \<Rightarrow> native_project" where
  "project_new node_id project = \<lparr>np_node_id = node_id, np_project = project\<rparr>"

definition project_apply :: "native_project \<Rightarrow> string \<times> delta_batch \<Rightarrow>
    native_project \<times> (native_operator_error, delta_batch) result" where
  "project_apply self i =
     (self, rbind (require_port (fst i) ''input'') (\<lambda>_.
        rmap_err NOperator (map_delta_batch (np_project self) (snd i))))"

definition project_checkpoint :: "native_project \<Rightarrow> native_operator_checkpoint" where
  "project_checkpoint self = stateless_checkpoint (np_node_id self) ''velorix-native-project-v1''"

definition project_restore :: "native_project \<Rightarrow> native_operator_checkpoint \<Rightarrow>
    native_project \<times> (native_operator_error, unit) result" where
  "project_restore self checkpoint =
     (self, validate_checkpoint_identity checkpoint (np_node_id self) ''velorix-native-project-v1'')"

record native_aggregate =
  na_node_id :: string
  na_aggregate :: keyed_sum_count_aggregate
  na_value_mode :: aggregate_value_mode
  na_track_extrema :: bool

definition native_aggregate_new :: "string \<Rightarrow> aggregate_value_mode \<Rightarrow> bool \<Rightarrow> native_aggregate" where
  "native_aggregate_new node_id value_mode track_extrema =
     \<lparr>na_node_id = node_id, na_aggregate = with_value_mode_and_extrema value_mode track_extrema,
      na_value_mode = value_mode, na_track_extrema = track_extrema\<rparr>"

definition native_aggregate_apply :: "serde \<Rightarrow> native_aggregate \<Rightarrow> string \<times> delta_batch \<Rightarrow>
    native_aggregate \<times> (native_operator_error, delta_batch) result" where
  "native_aggregate_apply J self i =
     (case require_port (fst i) ''input'' of
        Inl e \<Rightarrow> (self, Inl e)
      | Inr _ \<Rightarrow> (case aggregate_apply J (na_aggregate self) (snd i) of
          (aggregate, res) \<Rightarrow> (self\<lparr>na_aggregate := aggregate\<rparr>, rmap_err NOperator res)))"

text \<open>\<open>None\<close> is the panic of \<open>state\<close>.\<close>

definition native_aggregate_checkpoint :: "native_aggregate \<Rightarrow> native_operator_checkpoint option" where
  "native_aggregate_checkpoint self =
     (case aggregate_state (na_aggregate self) of
        Inl _ \<Rightarrow> None
      | Inr state \<Rightarrow> Some \<lparr>cp_node_id = na_node_id self, cp_codec_id = ''velorix-native-aggregate-v1'',
                            cp_codec_version = 1, cp_state = Unary state\<rparr>)"

definition native_aggregate_restore :: "serde \<Rightarrow> native_aggregate \<Rightarrow> native_operator_checkpoint \<Rightarrow>
    native_aggregate \<times> (native_operator_error, unit) result" where
  "native_aggregate_restore J self checkpoint =
     (case rbind (validate_checkpoint_header checkpoint (na_node_id self) ''velorix-native-aggregate-v1'') (\<lambda>_.
        case cp_state checkpoint of
          Unary state \<Rightarrow> rmap_err NOperator (from_state J state (na_value_mode self) (na_track_extrema self))
        | _ \<Rightarrow> Inl (InvalidCheckpoint ''aggregate checkpoint requires unary state'')) of
        Inl e \<Rightarrow> (self, Inl e)
      | Inr aggregate \<Rightarrow> (self\<lparr>na_aggregate := aggregate\<rparr>, Inr ()))"

record binary_join =
  nb_node_id :: string
  nb_join :: keyed_equi_join

definition binary_join_new :: "string \<Rightarrow> join_fun \<Rightarrow> int \<Rightarrow> binary_join \<times> int" where
  "binary_join_new node_id F next_id =
     (let (j, next_id') = equi_join_new F next_id in (\<lparr>nb_node_id = node_id, nb_join = j\<rparr>, next_id'))"

definition binary_join_apply :: "serde \<Rightarrow> binary_join \<Rightarrow> string \<times> delta_batch \<Rightarrow>
    binary_join \<times> (native_operator_error, delta_batch) result" where
  "binary_join_apply J self i =
     (if fst i = ''left'' then
        (case apply_left J (nb_join self) (snd i) of (j, res) \<Rightarrow> (self\<lparr>nb_join := j\<rparr>, rmap_err NOperator res))
      else if fst i = ''right'' then
        (case apply_right J (nb_join self) (snd i) of (j, res) \<Rightarrow> (self\<lparr>nb_join := j\<rparr>, rmap_err NOperator res))
      else (self, Inl (InvalidGraph (''join operator '' @ nb_node_id self
             @ '' does not accept input port '' @ fst i))))"

definition binary_join_checkpoint :: "binary_join \<Rightarrow> native_operator_checkpoint" where
  "binary_join_checkpoint self = \<lparr>cp_node_id = nb_node_id self, cp_codec_id = ''velorix-native-binary-join-v1'',
     cp_codec_version = 1, cp_state = Binary (left_state (nb_join self)) (right_state (nb_join self))\<rparr>"

definition binary_join_restore :: "serde \<Rightarrow> binary_join \<Rightarrow> native_operator_checkpoint \<Rightarrow>
    binary_join \<times> (native_operator_error, unit) result" where
  "binary_join_restore J self checkpoint =
     (case rbind (validate_checkpoint_header checkpoint (nb_node_id self) ''velorix-native-binary-join-v1'') (\<lambda>_.
        case cp_state checkpoint of
          Binary left_rows right_rows \<Rightarrow> Inr (left_rows, right_rows)
        | _ \<Rightarrow> Inl (InvalidCheckpoint ''binary join checkpoint requires left and right state'')) of
        Inl e \<Rightarrow> (self, Inl e)
      | Inr (left_rows, right_rows) \<Rightarrow> (case restore_state J (nb_join self) left_rows right_rows of
          (j, res) \<Rightarrow> (self\<lparr>nb_join := j\<rparr>, rmap_err NOperator res)))"

text \<open>The trait and its implementations.\<close>

datatype native_operator =
    FilterOp native_filter
  | ProjectOp native_project
  | AggregateOp native_aggregate
  | BinaryJoinOp binary_join
  | SemiJoinOp bag_join
  | AntiJoinOp bag_join
  | LeftJoinOp left_join
  | FullJoinOp full_join
  | TopKOp top_k

fun op_node_id :: "native_operator \<Rightarrow> string" where
  "op_node_id (FilterOp s) = nf_node_id s"
| "op_node_id (ProjectOp s) = np_node_id s"
| "op_node_id (AggregateOp s) = na_node_id s"
| "op_node_id (BinaryJoinOp s) = nb_node_id s"
| "op_node_id (SemiJoinOp s) = bj_node_id s"
| "op_node_id (AntiJoinOp s) = bj_node_id s"
| "op_node_id (LeftJoinOp s) = lj_node_id s"
| "op_node_id (FullJoinOp s) = fj_node_id s"
| "op_node_id (TopKOp s) = tk_node_id s"

fun op_input_ports :: "native_operator \<Rightarrow> string list" where
  "op_input_ports (FilterOp s) = [''input'']"
| "op_input_ports (ProjectOp s) = [''input'']"
| "op_input_ports (AggregateOp s) = [''input'']"
| "op_input_ports (BinaryJoinOp s) = [''left'', ''right'']"
| "op_input_ports (SemiJoinOp s) = [''left'', ''right'']"
| "op_input_ports (AntiJoinOp s) = [''left'', ''right'']"
| "op_input_ports (LeftJoinOp s) = [''left'', ''right'']"
| "op_input_ports (FullJoinOp s) = [''left'', ''right'']"
| "op_input_ports (TopKOp s) = [''input'']"

fun op_apply :: "serde \<Rightarrow> native_operator \<Rightarrow> string \<times> delta_batch \<Rightarrow>
    native_operator \<times> (native_operator_error, delta_batch) result" where
  "op_apply J (FilterOp s) i = map_prod FilterOp id (filter_apply s i)"
| "op_apply J (ProjectOp s) i = map_prod ProjectOp id (project_apply s i)"
| "op_apply J (AggregateOp s) i = map_prod AggregateOp id (native_aggregate_apply J s i)"
| "op_apply J (BinaryJoinOp s) i = map_prod BinaryJoinOp id (binary_join_apply J s i)"
| "op_apply J (SemiJoinOp s) i = map_prod SemiJoinOp id (semi_join_apply J s i)"
| "op_apply J (AntiJoinOp s) i = map_prod AntiJoinOp id (anti_join_apply J s i)"
| "op_apply J (LeftJoinOp s) i = map_prod LeftJoinOp id (left_join_apply J s i)"
| "op_apply J (FullJoinOp s) i = map_prod FullJoinOp id (full_join_apply J s i)"
| "op_apply J (TopKOp s) i = map_prod TopKOp id (top_k_apply J s i)"

fun op_checkpoint :: "native_operator \<Rightarrow> native_operator_checkpoint option" where
  "op_checkpoint (FilterOp s) = Some (filter_checkpoint s)"
| "op_checkpoint (ProjectOp s) = Some (project_checkpoint s)"
| "op_checkpoint (AggregateOp s) = native_aggregate_checkpoint s"
| "op_checkpoint (BinaryJoinOp s) = Some (binary_join_checkpoint s)"
| "op_checkpoint (SemiJoinOp s) = Some (bag_checkpoint Semi s)"
| "op_checkpoint (AntiJoinOp s) = Some (anti_join_checkpoint s)"
| "op_checkpoint (LeftJoinOp s) = Some (left_join_checkpoint s)"
| "op_checkpoint (FullJoinOp s) = Some (full_join_checkpoint s)"
| "op_checkpoint (TopKOp s) = Some (top_k_checkpoint s)"

fun op_restore :: "serde \<Rightarrow> native_operator \<Rightarrow> native_operator_checkpoint \<Rightarrow>
    native_operator \<times> (native_operator_error, unit) result" where
  "op_restore J (FilterOp s) c = map_prod FilterOp id (filter_restore s c)"
| "op_restore J (ProjectOp s) c = map_prod ProjectOp id (project_restore s c)"
| "op_restore J (AggregateOp s) c = map_prod AggregateOp id (native_aggregate_restore J s c)"
| "op_restore J (BinaryJoinOp s) c = map_prod BinaryJoinOp id (binary_join_restore J s c)"
| "op_restore J (SemiJoinOp s) c = map_prod SemiJoinOp id (bag_restore Semi J s c)"
| "op_restore J (AntiJoinOp s) c = map_prod AntiJoinOp id (anti_join_restore J s c)"
| "op_restore J (LeftJoinOp s) c = map_prod LeftJoinOp id (left_join_restore J s c)"
| "op_restore J (FullJoinOp s) c = map_prod FullJoinOp id (full_join_restore J s c)"
| "op_restore J (TopKOp s) c = map_prod TopKOp id (top_k_restore J s c)"

end
