(* ===== verification/Native_Graph.thy ===== *)
theory Native_Graph
  imports Native_Operators
begin

text \<open>
  The operator graph (\<open>NativeOperatorGraph\<close> in \<open>velorix-core/src/native_operator.rs\<close>): building it,
  validating it, applying an epoch through its operators, and checkpoint, restore and rollback. The
  graph works on trait objects, so its functions take the method table \<open>V\<close> of
  \<open>NativeDeltaOperator\<close>; \<open>native_ops\<close> is the table of the operators of this crate. A call that does
  not return, because a method panics or a loop runs forever, is \<open>None\<close>.

  This theory holds the definitions and the termination of the validation. What validation accepts
  is shown in \<open>Graph_Validation\<close>, what an epoch does in \<open>Graph_Epoch\<close>.
\<close>

section \<open>Definitions\<close>

record 'o delta_operator =
  dop_node_id :: "'o \<Rightarrow> string"
  dop_input_ports :: "'o \<Rightarrow> string list"
  dop_apply :: "'o \<Rightarrow> string \<times> delta_batch \<Rightarrow> 'o \<times> (native_operator_error, delta_batch) result"
  dop_checkpoint :: "'o \<Rightarrow> native_operator_checkpoint option"
  dop_restore :: "'o \<Rightarrow> native_operator_checkpoint \<Rightarrow> 'o \<times> (native_operator_error, unit) result"

definition native_ops :: "serde \<Rightarrow> native_operator delta_operator" where
  "native_ops J = \<lparr>dop_node_id = op_node_id, dop_input_ports = op_input_ports, dop_apply = op_apply J,
     dop_checkpoint = op_checkpoint, dop_restore = op_restore J\<rparr>"

record native_operator_edge =
  from_node_id :: string
  to_node_id :: string
  to_port_id :: string

record native_operator_input =
  in_node_id :: string
  in_port_id :: string
  in_batch :: delta_batch

record 'o native_operator_graph =
  ng_logical_epoch :: nat
  ng_operators :: "(string, 'o) btree_map"
  ng_edges :: "native_operator_edge list"

record native_operator_graph_checkpoint =
  gc_schema_version :: nat
  gc_logical_epoch :: nat
  gc_operators :: "native_operator_checkpoint list"

text \<open>The texts of the errors.\<close>

fun operator_error_text :: "operator_error \<Rightarrow> string" where
  "operator_error_text (OpDelta DeltaWeightOverflow) = ''delta weight arithmetic overflowed''"
| "operator_error_text OpWeightOverflow = ''delta weight arithmetic overflowed''"
| "operator_error_text NonIntegerAggregateValue = ''aggregate input value must be a signed integer''"
| "operator_error_text NonDecimalAggregateValue = ''aggregate input value must be a Decimal128 string''"
| "operator_error_text DecimalPrecisionOverflow = ''aggregate decimal value exceeds declared precision''"
| "operator_error_text InvalidAggregateStateValue = ''aggregate state value must contain integer `sum` and `count` fields''"

fun native_error_text :: "native_operator_error \<Rightarrow> string" where
  "native_error_text (NOperator e) = operator_error_text e"
| "native_error_text (NDelta DeltaWeightOverflow) = ''delta weight arithmetic overflowed''"
| "native_error_text (InvalidGraph m) = ''native operator graph is invalid: '' @ m"
| "native_error_text (InvalidCheckpoint m) = ''native operator checkpoint is invalid: '' @ m"
| "native_error_text (NonMonotonicEpoch c a) =
     ''logical epoch must increase: current='' @ dec c @ '', attempted='' @ dec a"
| "native_error_text NegativeTopKMultiplicity = ''top-k state contains a negative multiplicity''"
| "native_error_text NegativeLeftJoinMultiplicity = ''left-join state contains a negative multiplicity''"
| "native_error_text NegativeFullJoinMultiplicity = ''full-join state contains a negative multiplicity''"
| "native_error_text NegativeSemiJoinMultiplicity = ''semi-join state contains a negative multiplicity''"
| "native_error_text NegativeAntiJoinMultiplicity = ''anti-join state contains a negative multiplicity''"

definition require_identity :: "string \<Rightarrow> string \<Rightarrow> (string, unit) result" where
  "require_identity field value = (if blank value then Inl (field @ '' must be non-empty'') else Inr ())"

definition graph_new :: "'o native_operator_graph" where
  "graph_new = \<lparr>ng_logical_epoch = 0, ng_operators = [], ng_edges = []\<rparr>"

definition add_operator :: "'o delta_operator \<Rightarrow> 'o native_operator_graph \<Rightarrow> 'o \<Rightarrow>
    'o native_operator_graph \<times> (native_operator_error, unit) result" where
  "add_operator V self operator =
     (let node_id = dop_node_id V operator in
      case require_identity ''node_id'' node_id of
        Inl m \<Rightarrow> (self, Inl (InvalidGraph m))
      | Inr _ \<Rightarrow>
          if bt_get (ng_operators self) node_id \<noteq> None
          then (self, Inl (InvalidGraph ''operator node ids must be unique''))
          else (self\<lparr>ng_operators := bt_insert node_id operator (ng_operators self)\<rparr>, Inr ()))"

definition edge_key :: "native_operator_edge \<Rightarrow> string \<times> string \<times> string" where
  "edge_key e = (from_node_id e, to_node_id e, to_port_id e)"

definition add_edge :: "'o native_operator_graph \<Rightarrow> native_operator_edge \<Rightarrow> 'o native_operator_graph" where
  "add_edge self edge = self\<lparr>ng_edges := sort_key edge_key (ng_edges self @ [edge])\<rparr>"

definition validate_edge :: "'o delta_operator \<Rightarrow> (string, 'o) btree_map \<Rightarrow> native_operator_edge \<Rightarrow>
    native_operator_edge list \<Rightarrow> (native_operator_error, native_operator_edge list) result" where
  "validate_edge V operators edge unique_edges =
     (if edge \<in> set unique_edges then Inl (InvalidGraph ''operator edges must be unique'')
      else if bt_get operators (from_node_id edge) = None then Inl (InvalidGraph ''edge producer is missing'')
      else (case bt_get operators (to_node_id edge) of
          None \<Rightarrow> Inl (InvalidGraph ''edge consumer is missing'')
        | Some consumer \<Rightarrow>
            if to_port_id edge \<notin> set (dop_input_ports V consumer)
            then Inl (InvalidGraph (''operator '' @ to_node_id edge @ '' does not accept input port '' @ to_port_id edge))
            else Inr (edge # unique_edges)))"

text \<open>\<open>get_mut\<close> on a map, with an update of the value found.\<close>

definition bt_modify :: "'k \<Rightarrow> ('v \<Rightarrow> 'v) \<Rightarrow> ('k, 'v) btree_map \<Rightarrow> ('k, 'v) btree_map" where
  "bt_modify k f m = map (\<lambda>(k', v). (k', if k' = k then f v else v)) m"

text \<open>
  \<open>validate_acyclic\<close>: the error \<open>Inl ()\<close> stands for the panics of \<open>unwrap\<close> and of the subtraction
  below zero.
\<close>

definition count_edge :: "native_operator_edge \<Rightarrow> (string, nat) btree_map \<Rightarrow> (unit, (string, nat) btree_map) result" where
  "count_edge edge indegree =
     (case bt_get indegree (to_node_id edge) of
        None \<Rightarrow> Inl ()
      | Some degree \<Rightarrow> Inr (bt_modify (to_node_id edge) (\<lambda>d. d + 1) indegree))"

definition relax_edge :: "native_operator_edge \<Rightarrow> (string, nat) btree_map \<times> string list \<Rightarrow>
    (unit, (string, nat) btree_map \<times> string list) result" where
  "relax_edge edge st =
     (case bt_get (fst st) (to_node_id edge) of
        None \<Rightarrow> Inl ()
      | Some degree \<Rightarrow>
          if degree = 0 then Inl ()
          else Inr (bt_modify (to_node_id edge) (\<lambda>d. d - 1) (fst st),
                    if degree - 1 = 0 then snd st @ [to_node_id edge] else snd st))"

lemma modify_sum:
  "bt_get m k = Some d \<Longrightarrow> 0 < d \<Longrightarrow> sum_list (map snd (bt_modify k (\<lambda>d. d - 1) m)) < sum_list (map snd m)"
  for m :: "('k, nat) btree_map"
proof (induction m)
  case (Cons e m)
  have "sum_list (map snd (bt_modify k (\<lambda>d. d - 1) m)) \<le> sum_list (map snd m)" for m :: "('k, nat) btree_map"
    unfolding bt_modify_def map_map by (rule sum_list_mono) auto
  from this [of m] Cons show ?case by (cases e) (auto simp: bt_modify_def split: if_splits)
qed simp

lemma relax_edge_measure:
  "relax_edge e st = Inr st' \<Longrightarrow>
     sum_list (map snd (fst st')) + length (snd st') \<le> sum_list (map snd (fst st)) + length (snd st)"
  using modify_sum [of "fst st" "to_node_id e"]
  by (fastforce simp: relax_edge_def split: option.splits if_splits)

lemma relax_edges_measure:
  "rfold relax_edge es st = Inr st' \<Longrightarrow>
     sum_list (map snd (fst st')) + length (snd st') \<le> sum_list (map snd (fst st)) + length (snd st)"
proof (induction es arbitrary: st)
  case (Cons e es)
  then obtain st1 where "relax_edge e st = Inr st1" "rfold relax_edge es st1 = Inr st'" by (auto simp: res_simps)
  with Cons.IH [of st1] relax_edge_measure [of e st st1] show ?case by linarith
qed simp

function kahn :: "native_operator_edge list \<Rightarrow> (string, nat) btree_map \<Rightarrow> string list \<Rightarrow> nat \<Rightarrow> (unit, nat) result" where
  "kahn edges indegree [] visited = Inr visited"
| "kahn edges indegree (node_id # ready) visited =
     (case rfold relax_edge (filter (\<lambda>e. from_node_id e = node_id) edges) (indegree, ready) of
        Inl u \<Rightarrow> Inl u
      | Inr st \<Rightarrow> kahn edges (fst st) (snd st) (visited + 1))"
  by pat_completeness auto
termination
proof (relation "measure (\<lambda>(edges, indegree, ready, visited). sum_list (map snd indegree) + length ready)")
  fix edges :: "native_operator_edge list" and indegree :: "(string, nat) btree_map" and node_id :: string
    and ready :: "string list" and visited :: nat and st :: "(string, nat) btree_map \<times> string list"
  assume "rfold relax_edge (filter (\<lambda>e. from_node_id e = node_id) edges) (indegree, ready) = Inr st"
  from relax_edges_measure [OF this]
  show "((edges, fst st, snd st, visited + 1), (edges, indegree, node_id # ready, visited))
     \<in> measure (\<lambda>(edges, indegree, ready, visited). sum_list (map snd indegree) + length ready)" by simp
qed simp

definition validate_acyclic :: "(string, 'o) btree_map \<Rightarrow> native_operator_edge list \<Rightarrow>
    (native_operator_error, unit) result option" where
  "validate_acyclic operators edges =
     (case rfold count_edge edges (map (\<lambda>(node_id, _). (node_id, 0)) operators) of
        Inl _ \<Rightarrow> None
      | Inr indegree \<Rightarrow>
          (case kahn edges indegree (map fst (filter (\<lambda>(_, degree). degree = 0) indegree)) 0 of
             Inl _ \<Rightarrow> None
           | Inr visited \<Rightarrow> Some (if visited \<noteq> length operators
               then Inl (InvalidGraph ''operator graph contains a cycle'') else Inr ())))"

definition graph_validate :: "'o delta_operator \<Rightarrow> 'o native_operator_graph \<Rightarrow>
    (native_operator_error, unit) result option" where
  "graph_validate V self =
     (if ng_operators self = [] then Some (Inl (InvalidGraph ''at least one operator is required''))
      else (case rfold (validate_edge V (ng_operators self)) (ng_edges self) [] of
          Inl e \<Rightarrow> Some (Inl e)
        | Inr _ \<Rightarrow> validate_acyclic (ng_operators self) (ng_edges self)))"

text \<open>The queue loop of \<open>apply_epoch_inner\<close>, on the operators, the queue and the sinks.\<close>

type_synonym sinks = "(string, delta_batch) btree_map"

definition input_key :: "native_operator_input \<Rightarrow> string \<times> string" where
  "input_key i = (in_node_id i, in_port_id i)"

partial_function (option) drain :: "'o delta_operator \<Rightarrow> native_operator_edge list \<Rightarrow> (string, 'o) btree_map \<Rightarrow>
    native_operator_input list \<Rightarrow> sinks \<Rightarrow> ((string, 'o) btree_map \<times> (native_operator_error, sinks) result) option" where
  "drain V edges operators queue sinks =
     (case queue of
        [] \<Rightarrow> Some (operators, Inr sinks)
      | input # queue \<Rightarrow>
          (case bt_get operators (in_node_id input) of
             None \<Rightarrow> Some (operators, Inl (InvalidGraph (''input target operator '' @ in_node_id input @ '' is missing'')))
           | Some operator \<Rightarrow>
               if in_port_id input \<notin> set (dop_input_ports V operator)
               then Some (operators, Inl (InvalidGraph (''operator '' @ in_node_id input
                      @ '' does not accept input port '' @ in_port_id input)))
               else (case dop_apply V operator (in_port_id input, in_batch input) of (operator', res) \<Rightarrow>
                 (case res of
                    Inl e \<Rightarrow> Some (bt_insert (in_node_id input) operator' operators, Inl e)
                  | Inr out \<Rightarrow>
                      if filter (\<lambda>e. from_node_id e = in_node_id input) edges = [] then
                        drain V edges (bt_insert (in_node_id input) operator' operators) queue
                          (bt_insert (in_node_id input) (batch_combine
                             (case bt_get sinks (in_node_id input) of None \<Rightarrow> [] | Some b \<Rightarrow> b) out) sinks)
                      else
                        drain V edges (bt_insert (in_node_id input) operator' operators)
                          (queue @ map (\<lambda>e. \<lparr>in_node_id = to_node_id e, in_port_id = to_port_id e, in_batch = out\<rparr>)
                             (filter (\<lambda>e. from_node_id e = in_node_id input) edges)) sinks))))"

declare drain.simps [code]

definition net_sinks :: "serde \<Rightarrow> sinks \<Rightarrow> (native_operator_error, sinks) result" where
  "net_sinks J sinks = rmap_list (\<lambda>(node_id, out). rbind (nnet_rows J out) (\<lambda>rows. Inr (node_id, rows))) sinks"

definition apply_epoch_inner :: "serde \<Rightarrow> 'o delta_operator \<Rightarrow> 'o native_operator_graph \<Rightarrow> nat \<Rightarrow>
    native_operator_input list \<Rightarrow> ('o native_operator_graph \<times> (native_operator_error, sinks) result) option" where
  "apply_epoch_inner J V self logical_epoch inputs =
     (case drain V (ng_edges self) (ng_operators self) (sort_key input_key inputs) [] of
        None \<Rightarrow> None
      | Some (operators, Inl e) \<Rightarrow> Some (self\<lparr>ng_operators := operators\<rparr>, Inl e)
      | Some (operators, Inr sinks) \<Rightarrow>
          Some (self\<lparr>ng_operators := operators, ng_logical_epoch := logical_epoch\<rparr>, net_sinks J sinks))"

fun collect_checkpoints :: "'o delta_operator \<Rightarrow> 'o list \<Rightarrow> native_operator_checkpoint list option" where
  "collect_checkpoints V [] = Some []"
| "collect_checkpoints V (operator # operators) =
     (case dop_checkpoint V operator of None \<Rightarrow> None
      | Some c \<Rightarrow> (case collect_checkpoints V operators of None \<Rightarrow> None | Some cs \<Rightarrow> Some (c # cs)))"

definition graph_checkpoint :: "'o delta_operator \<Rightarrow> 'o native_operator_graph \<Rightarrow>
    (native_operator_error, native_operator_graph_checkpoint) result option" where
  "graph_checkpoint V self =
     (case graph_validate V self of
        None \<Rightarrow> None
      | Some (Inl e) \<Rightarrow> Some (Inl e)
      | Some (Inr _) \<Rightarrow> (case collect_checkpoints V (bt_values (ng_operators self)) of
          None \<Rightarrow> None
        | Some cs \<Rightarrow> Some (Inr \<lparr>gc_schema_version = 1, gc_logical_epoch = ng_logical_epoch self, gc_operators = cs\<rparr>)))"

fun restore_operators :: "'o delta_operator \<Rightarrow> (string, native_operator_checkpoint) btree_map \<Rightarrow> (string, 'o) btree_map \<Rightarrow>
    (string, 'o) btree_map \<times> (native_operator_error, unit) result" where
  "restore_operators V checkpoints [] = ([], Inr ())"
| "restore_operators V checkpoints ((node_id, operator) # operators) =
     (case bt_get checkpoints node_id of
        None \<Rightarrow> ((node_id, operator) # operators,
                 Inl (InvalidCheckpoint (''checkpoint for operator '' @ node_id @ '' is missing'')))
      | Some state \<Rightarrow> (case dop_restore V operator state of (operator', res) \<Rightarrow>
          (case res of
             Inl e \<Rightarrow> ((node_id, operator') # operators, Inl e)
           | Inr _ \<Rightarrow> (case restore_operators V checkpoints operators of
               (operators', res) \<Rightarrow> ((node_id, operator') # operators', res)))))"

definition restore_inner :: "'o delta_operator \<Rightarrow> 'o native_operator_graph \<Rightarrow> native_operator_graph_checkpoint \<Rightarrow>
    'o native_operator_graph \<times> (native_operator_error, unit) result" where
  "restore_inner V self checkpoint =
     (if gc_schema_version checkpoint \<noteq> 1
      then (self, Inl (InvalidCheckpoint ''unsupported checkpoint schema version''))
      else if length (gc_operators checkpoint) \<noteq> length (ng_operators self)
      then (self, Inl (InvalidCheckpoint ''checkpoint operator set does not match graph''))
      else (case restore_operators V (bt_collect (map (\<lambda>c. (cp_node_id c, c)) (gc_operators checkpoint)))
                   (ng_operators self) of
          (operators, Inl e) \<Rightarrow> (self\<lparr>ng_operators := operators\<rparr>, Inl e)
        | (operators, Inr _) \<Rightarrow>
            (self\<lparr>ng_operators := operators, ng_logical_epoch := gc_logical_epoch checkpoint\<rparr>, Inr ())))"

text \<open>Going back to the checkpoint taken before a call that failed.\<close>

definition roll_back :: "'o delta_operator \<Rightarrow> string \<Rightarrow> 'o native_operator_graph \<Rightarrow> native_operator_graph_checkpoint \<Rightarrow>
    native_operator_error \<Rightarrow> 'o native_operator_graph \<times> (native_operator_error, 'a) result" where
  "roll_back V what self previous e =
     (case restore_inner V self previous of
        (self', Inl r) \<Rightarrow> (self', Inl (InvalidCheckpoint (what @ '' failed with '' @ native_error_text e
             @ ''; graph rollback failed with '' @ native_error_text r)))
      | (self', Inr _) \<Rightarrow> (self', Inl e))"

definition apply_epoch :: "serde \<Rightarrow> 'o delta_operator \<Rightarrow> 'o native_operator_graph \<Rightarrow> nat \<Rightarrow>
    native_operator_input list \<Rightarrow> ('o native_operator_graph \<times> (native_operator_error, sinks) result) option" where
  "apply_epoch J V self logical_epoch inputs =
     (case graph_validate V self of
        None \<Rightarrow> None
      | Some (Inl e) \<Rightarrow> Some (self, Inl e)
      | Some (Inr _) \<Rightarrow>
          if logical_epoch \<le> ng_logical_epoch self
          then Some (self, Inl (NonMonotonicEpoch (ng_logical_epoch self) logical_epoch))
          else (case graph_checkpoint V self of
              None \<Rightarrow> None
            | Some (Inl e) \<Rightarrow> Some (self, Inl e)
            | Some (Inr previous) \<Rightarrow> (case apply_epoch_inner J V self logical_epoch inputs of
                None \<Rightarrow> None
              | Some (self', Inr outputs) \<Rightarrow> Some (self', Inr outputs)
              | Some (self', Inl e) \<Rightarrow> Some (roll_back V ''epoch'' self' previous e))))"

definition graph_restore :: "'o delta_operator \<Rightarrow> 'o native_operator_graph \<Rightarrow> native_operator_graph_checkpoint \<Rightarrow>
    ('o native_operator_graph \<times> (native_operator_error, unit) result) option" where
  "graph_restore V self checkpoint =
     (case graph_validate V self of
        None \<Rightarrow> None
      | Some (Inl e) \<Rightarrow> Some (self, Inl e)
      | Some (Inr _) \<Rightarrow> (case graph_checkpoint V self of
          None \<Rightarrow> None
        | Some (Inl e) \<Rightarrow> Some (self, Inl e)
        | Some (Inr previous) \<Rightarrow> (case restore_inner V self checkpoint of
            (self', Inr _) \<Rightarrow> Some (self', Inr ())
          | (self', Inl e) \<Rightarrow> Some (roll_back V ''restore'' self' previous e))))"

end
