(* ===== verification/Graph_Validation.thy ===== *)
theory Graph_Validation
  imports Native_Graph
begin

text \<open>
  Correctness of \<open>NativeOperatorGraph::validate\<close>. The heart is the loop that removes operators
  without open inputs: it never panics, it visits every operator that does not depend on a cycle,
  in an order in which producers come before consumers, and so it visits all of them exactly when
  the edges have no cycle.
\<close>

section \<open>Edges as a relation\<close>

definition edge_rel :: "native_operator_edge list \<Rightarrow> (string \<times> string) set" where
  "edge_rel edges = (\<lambda>e. (from_node_id e, to_node_id e)) ` set edges"

lemma finite_edge_rel [simp]: "finite (edge_rel edges)"
  by (simp add: edge_rel_def)

text \<open>The inputs of a node whose producer is not among the nodes visited.\<close>

definition open_inputs :: "native_operator_edge list \<Rightarrow> string set \<Rightarrow> string \<Rightarrow> nat" where
  "open_inputs edges X v = length (filter (\<lambda>e. to_node_id e = v \<and> from_node_id e \<notin> X) edges)"

definition degree_of :: "(string, nat) btree_map \<Rightarrow> string \<Rightarrow> nat" where
  "degree_of m v = (case bt_get m v of None \<Rightarrow> 0 | Some d \<Rightarrow> d)"

definition arrivals :: "native_operator_edge list \<Rightarrow> string \<Rightarrow> nat" where
  "arrivals edges v = length (filter (\<lambda>e. to_node_id e = v) edges)"

lemma arrivals_simps [simp]:
  "arrivals [] v = 0" "arrivals (e # es) v = (if to_node_id e = v then 1 else 0) + arrivals es v"
  by (simp_all add: arrivals_def)

definition keys_of :: "('k, 'v) btree_map \<Rightarrow> 'k set" where
  "keys_of m = fst ` set m"

lemma bt_get_modify: "bt_get (bt_modify k f m) k' = (if k' = k then map_option f (bt_get m k') else bt_get m k')"
  by (induction m) (auto simp: bt_modify_def)

lemma keys_modify [simp]: "map fst (bt_modify k f m) = map fst m"
  by (induction m) (auto simp: bt_modify_def)

lemma degree_modify:
  "v \<in> keys_of m \<Longrightarrow> degree_of (bt_modify k f m) v = (if v = k then f (degree_of m v) else degree_of m v)"
  by (cases "bt_get m v") (auto simp: degree_of_def bt_get_modify map_of_eq_None_iff keys_of_def)

lemma bt_get_degree: "v \<in> keys_of m \<Longrightarrow> bt_get m v = Some (degree_of m v)"
  by (cases "bt_get m v") (auto simp: degree_of_def map_of_eq_None_iff keys_of_def)

lemma keys_image: "map fst m' = map fst m \<Longrightarrow> keys_of m' = keys_of m"
  unfolding keys_of_def by (metis list.set_map)

section \<open>Counting and relaxing edges\<close>

lemma count_edges:
  assumes "\<forall>e \<in> set es. to_node_id e \<in> keys_of m"
  shows "\<exists>m'. rfold count_edge es m = Inr m' \<and> map fst m' = map fst m
    \<and> (\<forall>v \<in> keys_of m. degree_of m' v = degree_of m v + arrivals es v)"
  using assms
proof (induction es arbitrary: m)
  case (Cons e es)
  let ?m = "bt_modify (to_node_id e) (\<lambda>d. d + 1) m"
  have keys: "keys_of ?m = keys_of m" by (rule keys_image) simp
  from Cons.prems have "count_edge e m = Inr ?m" by (simp add: count_edge_def bt_get_degree)
  moreover obtain m' where "rfold count_edge es ?m = Inr m'" "map fst m' = map fst ?m"
    "\<forall>v \<in> keys_of m. degree_of m' v = degree_of ?m v + arrivals es v"
    using Cons.IH [of ?m] Cons.prems unfolding keys by auto
  ultimately show ?case by (simp add: degree_modify)
qed simp

lemma relax_edges:
  assumes "\<forall>e \<in> set es. to_node_id e \<in> keys_of m" and "\<forall>v \<in> keys_of m. arrivals es v \<le> degree_of m v"
  shows "\<exists>m' Z. rfold relax_edge es (m, R) = Inr (m', R @ Z) \<and> map fst m' = map fst m
    \<and> (\<forall>v \<in> keys_of m. degree_of m' v = degree_of m v - arrivals es v)
    \<and> distinct Z \<and> set Z = {v \<in> keys_of m. 0 < degree_of m v \<and> degree_of m v = arrivals es v}"
  using assms
proof (induction es arbitrary: m R)
  case (Cons e es)
  let ?k = "to_node_id e"
  let ?m = "bt_modify ?k (\<lambda>d. d - 1) m" and ?Z = "if degree_of m ?k = 1 then [?k] else []"
  have keys: "keys_of ?m = keys_of m" by (rule keys_image) simp
  from Cons.prems have k: "?k \<in> keys_of m" "0 < degree_of m ?k" by (auto dest: bspec [of _ _ ?k])
  then have step: "relax_edge e (m, R) = Inr (?m, R @ ?Z)" by (auto simp: relax_edge_def bt_get_degree)
  have deg: "degree_of ?m v = (if v = ?k then degree_of m v - 1 else degree_of m v)" if "v \<in> keys_of m" for v
    using that by (simp add: degree_modify)
  have "\<forall>v \<in> keys_of ?m. arrivals es v \<le> degree_of ?m v"
    using Cons.prems(2) deg unfolding keys by (auto split: if_splits)
  then obtain m' Z where IH: "rfold relax_edge es (?m, R @ ?Z) = Inr (m', (R @ ?Z) @ Z)" "map fst m' = map fst ?m"
    "\<forall>v \<in> keys_of m. degree_of m' v = degree_of ?m v - arrivals es v"
    "distinct Z" "set Z = {v \<in> keys_of m. 0 < degree_of ?m v \<and> degree_of ?m v = arrivals es v}"
    using Cons.IH [of ?m "R @ ?Z"] Cons.prems(1) unfolding keys by auto
  have "set (?Z @ Z) = {v \<in> keys_of m. 0 < degree_of m v \<and> degree_of m v = arrivals (e # es) v}"
    using k Cons.prems(2) deg unfolding set_append IH(5) by (auto split: if_splits)
  moreover have "distinct (?Z @ Z)" using IH(4) k deg unfolding distinct_append IH(5) by auto
  moreover have "\<forall>v \<in> keys_of m. degree_of m' v = degree_of m v - arrivals (e # es) v"
    using IH(3) deg by simp
  ultimately show ?case using step IH(1,2) by (intro exI [of _ m'] exI [of _ "?Z @ Z"]) simp
qed (auto intro: exI [of _ "[]"])

section \<open>The visiting loop\<close>

text \<open>Producers come before consumers.\<close>

definition topological :: "native_operator_edge list \<Rightarrow> string list \<Rightarrow> bool" where
  "topological edges P \<longleftrightarrow> (\<forall>xs v ys. P = xs @ v # ys \<longrightarrow> (\<forall>e \<in> set edges. to_node_id e = v \<longrightarrow> from_node_id e \<in> set xs))"

text \<open>
  The invariant: the visited and the ready nodes are exactly those without open inputs, and the map
  holds the number of open inputs of every node.
\<close>

definition kahn_inv :: "native_operator_edge list \<Rightarrow> (string, nat) btree_map \<Rightarrow> string list \<Rightarrow> string list \<Rightarrow> bool" where
  "kahn_inv edges m P R \<longleftrightarrow> (\<forall>e \<in> set edges. to_node_id e \<in> keys_of m) \<and> distinct (P @ R) \<and> topological edges P
     \<and> (\<forall>v \<in> keys_of m. degree_of m v = open_inputs edges (set P) v)
     \<and> set (P @ R) = {v \<in> keys_of m. open_inputs edges (set P) v = 0}"

lemma topological_snoc:
  assumes "topological edges P" and "open_inputs edges (set P) n = 0"
  shows "topological edges (P @ [n])"
  unfolding topological_def
proof (intro allI impI)
  fix xs v ys assume split: "P @ [n] = xs @ v # ys"
  show "\<forall>e \<in> set edges. to_node_id e = v \<longrightarrow> from_node_id e \<in> set xs"
  proof (cases ys rule: rev_cases)
    case Nil
    with split have "xs = P" "v = n" by auto
    with assms(2) show ?thesis by (auto simp: open_inputs_def filter_empty_conv)
  next
    case (snoc zs z)
    with split have "P = xs @ v # zs" by simp
    with assms(1) show ?thesis unfolding topological_def by blast
  qed
qed

lemma open_inputs_visit:
  assumes "n \<notin> X"
  shows "open_inputs edges X v = open_inputs edges (insert n X) v + arrivals (filter (\<lambda>e. from_node_id e = n) edges) v"
  using assms by (induction edges) (auto simp: open_inputs_def)

lemma kahn_step:
  assumes "kahn_inv edges m P (n # R)"
  shows "\<exists>m' Z. rfold relax_edge (filter (\<lambda>e. from_node_id e = n) edges) (m, R) = Inr (m', R @ Z)
    \<and> kahn_inv edges m' (P @ [n]) (R @ Z) \<and> map fst m' = map fst m"
proof -
  let ?es = "filter (\<lambda>e. from_node_id e = n) edges"
  from assms have inv: "\<forall>e \<in> set edges. to_node_id e \<in> keys_of m" "distinct (P @ n # R)" "topological edges P"
    "\<And>v. v \<in> keys_of m \<Longrightarrow> degree_of m v = open_inputs edges (set P) v"
    "set (P @ n # R) = {v \<in> keys_of m. open_inputs edges (set P) v = 0}" unfolding kahn_inv_def by blast+
  have n: "n \<notin> set P" "open_inputs edges (set P) n = 0" using inv(2,5) by auto
  have visit: "open_inputs edges (set P) v = open_inputs edges (set (P @ [n])) v + arrivals ?es v" for v
    using open_inputs_visit [OF n(1)] by simp
  obtain m' Z where r: "rfold relax_edge ?es (m, R) = Inr (m', R @ Z)" "map fst m' = map fst m"
    "\<forall>v \<in> keys_of m. degree_of m' v = degree_of m v - arrivals ?es v" "distinct Z"
    "set Z = {v \<in> keys_of m. 0 < degree_of m v \<and> degree_of m v = arrivals ?es v}"
    using relax_edges [of ?es m R] inv(1,4) visit by auto
  have keys: "keys_of m' = keys_of m" by (rule keys_image [OF r(2)])
  have Z: "set Z = {v \<in> keys_of m. 0 < open_inputs edges (set P) v \<and> open_inputs edges (set (P @ [n])) v = 0}"
    unfolding r(5) using inv(4) visit by auto
  have "kahn_inv edges m' (P @ [n]) (R @ Z)"
    unfolding kahn_inv_def keys
  proof (intro conjI)
    have "set Z \<inter> set (P @ n # R) = {}" unfolding inv(5) Z by auto
    then show "distinct ((P @ [n]) @ R @ Z)" using inv(2) r(4) by auto
    show "\<forall>v \<in> keys_of m. degree_of m' v = open_inputs edges (set (P @ [n])) v"
      using r(3) inv(4) visit by auto
    have "set ((P @ [n]) @ R @ Z) = set (P @ n # R) \<union> set Z" by auto
    also have "\<dots> = {v \<in> keys_of m. open_inputs edges (set (P @ [n])) v = 0}"
      unfolding inv(5) Z using visit by auto
    finally show "set ((P @ [n]) @ R @ Z) = {v \<in> keys_of m. open_inputs edges (set (P @ [n])) v = 0}" .
  qed (use inv(1) topological_snoc [OF inv(3) n(2)] in simp_all)
  with r(1,2) show ?thesis by blast
qed

lemma kahn_visits:
  "kahn_inv edges m P R \<Longrightarrow> \<exists>Q m'. kahn edges m R visited = Inr (visited + length Q)
     \<and> kahn_inv edges m' (P @ Q) [] \<and> map fst m' = map fst m"
proof (induction edges m R visited arbitrary: P rule: kahn.induct)
  case (1 edges m visited)
  then show ?case by (intro exI [of _ "[] :: string list"] exI [of _ m]) simp
next
  case (2 edges m n R visited)
  obtain m1 Z where s: "rfold relax_edge (filter (\<lambda>e. from_node_id e = n) edges) (m, R) = Inr (m1, R @ Z)"
    "kahn_inv edges m1 (P @ [n]) (R @ Z)" "map fst m1 = map fst m" using kahn_step [OF 2(2)] by blast
  then obtain Q m' where Q: "kahn edges m1 (R @ Z) (visited + 1) = Inr (visited + 1 + length Q)"
    "kahn_inv edges m' ((P @ [n]) @ Q) []" "map fst m' = map fst m1" using 2(1) [OF s(1), of "P @ [n]"] by auto
  then show ?case using s by (intro exI [of _ "n # Q"] exI [of _ m']) simp
qed

section \<open>Visiting all nodes means no cycle\<close>

lemma topological_wf:
  assumes "topological edges P" and "edge_rel edges \<subseteq> UNIV \<times> set P"
  shows "acyclic (edge_rel edges)"
proof -
  let ?pos = "\<lambda>v. length (takeWhile (\<lambda>x. x \<noteq> v) P)"
  have "edge_rel edges \<subseteq> measure ?pos"
  proof
    fix uv assume "uv \<in> edge_rel edges"
    then obtain e where e: "e \<in> set edges" "uv = (from_node_id e, to_node_id e)" by (auto simp: edge_rel_def)
    with assms(2) have "to_node_id e \<in> set P" by (auto simp: edge_rel_def)
    then obtain xs ys where P: "P = xs @ to_node_id e # ys" "to_node_id e \<notin> set xs" by (metis split_list_first)
    with assms(1) e(1) have u: "from_node_id e \<in> set xs" unfolding topological_def by blast
    have "?pos (to_node_id e) = length xs" using P(2) unfolding P(1) by (subst takeWhile_append2) auto
    moreover have "?pos (from_node_id e) < length xs"
    proof -
      obtain as bs where xs: "xs = as @ from_node_id e # bs" "from_node_id e \<notin> set as" using u by (metis split_list_first)
      then have "?pos (from_node_id e) = length as" unfolding P(1) xs(1) append_assoc by (subst takeWhile_append2) auto
      then show ?thesis by (simp add: xs(1))
    qed
    ultimately show "uv \<in> measure ?pos" by (simp add: e(2))
  qed
  then have "wf (edge_rel edges)" by (rule wf_subset [OF wf_measure])
  then show ?thesis by (rule wf_acyclic)
qed

lemma acyclic_visits_all:
  assumes "acyclic (edge_rel edges)" and "kahn_inv edges m P []" and "\<forall>e \<in> set edges. from_node_id e \<in> keys_of m"
  shows "set P = keys_of m"
proof (rule ccontr)
  assume ne: "set P \<noteq> keys_of m"
  from assms(2) have P: "set P = {v \<in> keys_of m. open_inputs edges (set P) v = 0}" by (simp add: kahn_inv_def)
  have "wf (edge_rel edges)" using assms(1) by (simp add: finite_acyclic_wf)
  moreover obtain z0 where "z0 \<in> keys_of m - set P" using ne P by blast
  ultimately obtain z where z: "z \<in> keys_of m - set P" "\<And>y. (y, z) \<in> edge_rel edges \<Longrightarrow> y \<notin> keys_of m - set P"
    by (rule wfE_min) blast
  have "from_node_id e \<in> set P" if "e \<in> set edges" "to_node_id e = z" for e
  proof -
    from that have "(from_node_id e, z) \<in> edge_rel edges" by (auto simp: edge_rel_def)
    from z(2) [OF this] assms(3) that(1) show ?thesis by blast
  qed
  then have "open_inputs edges (set P) z = 0" by (auto simp: open_inputs_def filter_empty_conv)
  with z(1) P show False by blast
qed

section \<open>Validation\<close>

text \<open>Edges between known operators, into ports that these have.\<close>

definition edge_ok :: "'o delta_operator \<Rightarrow> (string, 'o) btree_map \<Rightarrow> native_operator_edge \<Rightarrow> bool" where
  "edge_ok V ops e \<longleftrightarrow> bt_get ops (from_node_id e) \<noteq> None
     \<and> (\<exists>c. bt_get ops (to_node_id e) = Some c \<and> to_port_id e \<in> set (dop_input_ports V c))"

lemma validate_edges:
  "(\<exists>seen'. rfold (validate_edge V ops) edges seen = Inr seen') \<longleftrightarrow>
     distinct edges \<and> set edges \<inter> set seen = {} \<and> (\<forall>e \<in> set edges. edge_ok V ops e)"
proof (induction edges arbitrary: seen)
  case (Cons e edges)
  have step: "validate_edge V ops e seen = Inr seen' \<longleftrightarrow> e \<notin> set seen \<and> edge_ok V ops e \<and> seen' = e # seen" for seen'
    by (auto simp: validate_edge_def edge_ok_def split: option.splits if_splits)
  from Cons.IH [of "e # seen"] show ?case by (auto simp: rbind_eq_Inr step)
qed simp

lemma keys_of_iff: "k \<in> keys_of m \<longleftrightarrow> bt_get m k \<noteq> None"
  by (simp add: keys_of_def map_of_eq_None_iff)

lemma start_ready:
  assumes "distinct (map fst m)"
  shows "distinct (map fst (filter (\<lambda>(_, d). d = 0) m))"
    and "set (map fst (filter (\<lambda>(_, d). d = 0) m)) = {v \<in> keys_of m. degree_of m v = 0}"
proof -
  show "distinct (map fst (filter (\<lambda>(_, d). d = 0) m))" by (rule distinct_map_filter [OF assms])
  have "(v, 0) \<in> set m \<longleftrightarrow> v \<in> keys_of m \<and> degree_of m v = 0" for v
    unfolding keys_of_iff degree_of_def map_of_eq_Some_iff [OF assms, symmetric] by (auto split: option.splits)
  moreover have "set (map fst (filter (\<lambda>(_, d). d = 0) m)) = {v. (v, 0) \<in> set m}" by force
  ultimately show "set (map fst (filter (\<lambda>(_, d). d = 0) m)) = {v \<in> keys_of m. degree_of m v = 0}" by simp
qed

lemma validate_acyclic_correct:
  assumes ops: "bt_wf ops" and edges: "\<forall>e \<in> set edges. edge_ok V ops e"
  shows "validate_acyclic ops edges = Some (if acyclic (edge_rel edges) then Inr ()
    else Inl (InvalidGraph ''operator graph contains a cycle''))"
proof -
  let ?m0 = "map (\<lambda>(node_id, _). (node_id, 0::nat)) ops"
  have fst0: "map fst ?m0 = map fst ops" by auto
  have deg0: "degree_of ?m0 v = 0" for v by (induction ops) (auto simp: degree_of_def)
  from keys_image [OF fst0] have keys0: "keys_of ?m0 = keys_of ops" by (simp add: keys_of_def image_image case_prod_beta)
  have ends: "to_node_id e \<in> keys_of ops" "from_node_id e \<in> keys_of ops" if "e \<in> set edges" for e
    using edges that by (auto simp: edge_ok_def keys_of_iff)
  then obtain m where m: "rfold count_edge edges ?m0 = Inr m" "map fst m = map fst ?m0"
    "\<forall>v \<in> keys_of ops. degree_of m v = arrivals edges v"
    using count_edges [of edges ?m0] by (auto simp: keys0 deg0)
  have keys: "keys_of m = keys_of ops" using keys_image [OF m(2)] keys0 by simp
  have dist: "distinct (map fst m)" using bt.entries_distinct [OF ops] by (simp only: m(2) fst0)
  let ?R = "map fst (filter (\<lambda>(_, degree). degree = 0) m)"
  have inv0: "kahn_inv edges m [] ?R"
    using ends(1) start_ready [OF dist] m(3)
    by (auto simp: kahn_inv_def topological_def keys open_inputs_def arrivals_def)
  obtain Q m' where Q: "kahn edges m ?R 0 = Inr (length Q)" "kahn_inv edges m' Q []" "map fst m' = map fst m"
    using kahn_visits [OF inv0, of 0] by auto
  have keys': "keys_of m' = keys_of ops" using keys_image [OF Q(3)] keys by simp
  have sub: "distinct Q" "set Q \<subseteq> keys_of ops" "topological edges Q" using Q(2) keys' by (auto simp: kahn_inv_def)
  have size: "card (keys_of ops) = length ops"
    using distinct_card [OF bt.entries_distinct [OF ops]] unfolding keys_of_def by simp
  have fin: "finite (keys_of ops)" by (simp add: keys_of_def)
  have "length Q = length ops \<longleftrightarrow> set Q = keys_of ops"
    using sub size fin by (metis card_subset_eq distinct_card)
  also have "\<dots> \<longleftrightarrow> acyclic (edge_rel edges)"
  proof
    assume "set Q = keys_of ops"
    with ends have "edge_rel edges \<subseteq> UNIV \<times> set Q" by (auto simp: edge_rel_def)
    then show "acyclic (edge_rel edges)" by (rule topological_wf [OF sub(3)])
  next
    assume "acyclic (edge_rel edges)"
    from acyclic_visits_all [OF this Q(2)] ends(2) show "set Q = keys_of ops" by (simp add: keys')
  qed
  finally show ?thesis by (simp add: validate_acyclic_def m(1) Q(1))
qed

lemma graph_validate_cases:
  assumes "bt_wf (ng_operators g)"
  shows "graph_validate V g \<noteq> None \<and> (graph_validate V g = Some (Inr ()) \<longleftrightarrow>
    ng_operators g \<noteq> [] \<and> distinct (ng_edges g) \<and> (\<forall>e \<in> set (ng_edges g). edge_ok V (ng_operators g) e)
    \<and> acyclic (edge_rel (ng_edges g)))"
proof (cases "rfold (validate_edge V (ng_operators g)) (ng_edges g) []")
  case (Inl e)
  then show ?thesis using validate_edges [of V "ng_operators g" "ng_edges g" "[]"] by (auto simp: graph_validate_def)
next
  case (Inr seen)
  then have ok: "distinct (ng_edges g)" "\<forall>e \<in> set (ng_edges g). edge_ok V (ng_operators g) e"
    using validate_edges [of V "ng_operators g" "ng_edges g" "[]"] by auto
  with Inr validate_acyclic_correct [OF assms ok(2)] show ?thesis by (simp add: graph_validate_def)
qed

section \<open>Properties\<close>

text \<open>Two filters in a row, and the same with an edge back.\<close>

definition pass_all :: "delta_record \<Rightarrow> (operator_error, bool) result" where
  "pass_all r = Inr True"

definition two_filters :: "native_operator native_operator_graph" where
  "two_filters = \<lparr>ng_logical_epoch = 0,
     ng_operators = [(''a'', FilterOp (filter_new ''a'' pass_all)), (''b'', FilterOp (filter_new ''b'' pass_all))],
     ng_edges = [\<lparr>from_node_id = ''a'', to_node_id = ''b'', to_port_id = ''input''\<rparr>]\<rparr>"

definition filter_loop :: "native_operator native_operator_graph" where
  "filter_loop = add_edge two_filters \<lparr>from_node_id = ''b'', to_node_id = ''a'', to_port_id = ''input''\<rparr>"

text \<open>
  C35: Validating a graph never panics. It succeeds exactly when there is an operator, the edges are
  distinct, each leads from a known operator to a port that a known operator has, and the edges
  have no cycle.
\<close>

theorem graph_validate_correct:
  assumes "bt_wf (ng_operators g)"
  shows "graph_validate V g \<noteq> None \<and> (graph_validate V g = Some (Inr ()) \<longleftrightarrow>
    ng_operators g \<noteq> [] \<and> distinct (ng_edges g) \<and> (\<forall>e \<in> set (ng_edges g). edge_ok V (ng_operators g) e)
    \<and> acyclic (edge_rel (ng_edges g)))"
  by (rule graph_validate_cases [OF assms])

theorem graph_validate_correct_witness:
  "acyclic (edge_rel (ng_edges two_filters)) \<and> \<not> acyclic (edge_rel (ng_edges filter_loop))"
proof -
  let ?V = "native_ops serde_ref"
  have loop: "ng_operators filter_loop = ng_operators two_filters" by (simp add: filter_loop_def add_edge_def)
  have wf: "bt_wf (ng_operators two_filters)" by code_simp
  have "graph_validate ?V two_filters = Some (Inr ())" by code_simp
  then have "acyclic (edge_rel (ng_edges two_filters))" using graph_validate_correct [OF wf, of ?V] by simp
  moreover have "graph_validate ?V filter_loop = Some (Inl (InvalidGraph ''operator graph contains a cycle''))" by code_simp
  moreover have "distinct (ng_edges filter_loop)" by code_simp
  moreover have "\<forall>e \<in> set (ng_edges filter_loop). edge_ok ?V (ng_operators filter_loop) e"
    by (simp add: filter_loop_def add_edge_def two_filters_def edge_key_def edge_ok_def native_ops_def)
  ultimately show ?thesis
    using graph_validate_correct [of filter_loop ?V] wf by (simp add: loop two_filters_def)
qed

end
