(* ===== verification/Graph_Epoch.thy ===== *)
theory Graph_Epoch
  imports Graph_Validation
begin

text \<open>
  Epochs, checkpoints and rollback of the operator graph. The locale \<open>rollback_contract\<close> is what the
  graph needs of its operators to undo a failed epoch: a method never changes the identity of an
  operator, an operator can be saved, and it can go back to a state it saved. It is interpreted on
  the operators of this crate; the outer joins and the ranking operator are outside its invariant.
\<close>

section \<open>The queue loop returns\<close>

lemma drain_step:
  "drain V edges ops [] sinks = Some (ops, Inr sinks)"
  "drain V edges ops (i # queue) sinks =
     (case bt_get ops (in_node_id i) of
        None \<Rightarrow> Some (ops, Inl (InvalidGraph (''input target operator '' @ in_node_id i @ '' is missing'')))
      | Some x \<Rightarrow>
          if in_port_id i \<notin> set (dop_input_ports V x)
          then Some (ops, Inl (InvalidGraph (''operator '' @ in_node_id i @ '' does not accept input port '' @ in_port_id i)))
          else (case dop_apply V x (in_port_id i, in_batch i) of (y, res) \<Rightarrow>
            (case res of
               Inl e \<Rightarrow> Some (bt_insert (in_node_id i) y ops, Inl e)
             | Inr out \<Rightarrow>
                 if filter (\<lambda>e. from_node_id e = in_node_id i) edges = [] then
                   drain V edges (bt_insert (in_node_id i) y ops) queue
                     (bt_insert (in_node_id i) (batch_combine
                        (case bt_get sinks (in_node_id i) of None \<Rightarrow> [] | Some b \<Rightarrow> b) out) sinks)
                 else
                   drain V edges (bt_insert (in_node_id i) y ops)
                     (queue @ map (\<lambda>e. \<lparr>in_node_id = to_node_id e, in_port_id = to_port_id e, in_batch = out\<rparr>)
                        (filter (\<lambda>e. from_node_id e = in_node_id i) edges)) sinks)))"
  by (simp_all add: drain.simps)

definition queue_nodes :: "native_operator_input list \<Rightarrow> string multiset" where
  "queue_nodes queue = mset (map in_node_id queue)"

lemma queue_shrinks: "(queue_nodes queue, queue_nodes (i # queue)) \<in> mult ((edge_rel edges)\<inverse>)"
  using one_step_implies_mult [of "{#in_node_id i#}" "{#}" "(edge_rel edges)\<inverse>" "queue_nodes queue"]
  by (simp add: queue_nodes_def)

lemma queue_descends:
  "(queue_nodes (queue @ map (\<lambda>e. \<lparr>in_node_id = to_node_id e, in_port_id = to_port_id e, in_batch = out\<rparr>)
      (filter (\<lambda>e. from_node_id e = in_node_id i) edges)), queue_nodes (i # queue)) \<in> mult ((edge_rel edges)\<inverse>)"
proof -
  let ?K = "mset (map to_node_id (filter (\<lambda>e. from_node_id e = in_node_id i) edges))"
  have "\<forall>k \<in># ?K. \<exists>j \<in># {#in_node_id i#}. (k, j) \<in> (edge_rel edges)\<inverse>"
    by (force simp: edge_rel_def)
  from one_step_implies_mult [OF _ this, of "queue_nodes queue"]
  show ?thesis by (simp add: queue_nodes_def comp_def)
qed

lemma queue_induct:
  assumes "acyclic (edge_rel edges)"
    and step: "\<And>queue. (\<And>q. (queue_nodes q, queue_nodes queue) \<in> mult ((edge_rel edges)\<inverse>) \<Longrightarrow> Q q) \<Longrightarrow> Q queue"
  shows "Q queue"
proof -
  have "wf (mult ((edge_rel edges)\<inverse>))"
    using assms(1) by (intro wf_mult finite_acyclic_wf_converse) simp_all
  then have "wf (inv_image (mult ((edge_rel edges)\<inverse>)) queue_nodes)" by (rule wf_inv_image)
  then show ?thesis by (induction queue rule: wf_induct_rule) (rule step, simp add: in_inv_image)
qed

lemma drain_returns:
  assumes "acyclic (edge_rel edges)"
  shows "drain V edges ops queue sinks \<noteq> None"
proof (induction queue arbitrary: ops sinks rule: queue_induct [OF assms])
  case (1 queue)
  show ?case
  proof (cases queue)
    case (Cons i q)
    note IH = 1 [unfolded Cons, OF queue_shrinks] 1 [unfolded Cons, OF queue_descends]
    show ?thesis
      unfolding Cons drain_step(2) by (simp split: option.split prod.split sum.split del: not_None_eq add: IH)
  qed (simp add: drain_step)
qed

text \<open>Two maps with the same keys whose operators are related.\<close>

definition related :: "('o \<Rightarrow> 'o \<Rightarrow> bool) \<Rightarrow> (string, 'o) btree_map \<Rightarrow> (string, 'o) btree_map \<Rightarrow> bool" where
  "related R xs ys \<longleftrightarrow> list_all2 (\<lambda>x y. fst x = fst y \<and> R (snd x) (snd y)) xs ys"

lemma related_keys: "related R xs ys \<Longrightarrow> map fst ys = map fst xs"
  unfolding related_def by (induction rule: list_all2_induct) simp_all

text \<open>The invariant of a graph: operators are filed under their node ids and keep theirs.\<close>

definition graph_ok :: "'o delta_operator \<Rightarrow> ('o \<Rightarrow> bool) \<Rightarrow> 'o native_operator_graph \<Rightarrow> bool" where
  "graph_ok V I g \<longleftrightarrow> bt_wf (ng_operators g) \<and> (\<forall>x \<in> set (ng_operators g). fst x = dop_node_id V (snd x) \<and> I (snd x))"

section \<open>The contract of the operators\<close>

locale rollback_contract =
  fixes V :: "'o delta_operator"
    and inv :: "'o \<Rightarrow> bool" and ready :: "'o \<Rightarrow> bool"
    and same :: "'o \<Rightarrow> 'o \<Rightarrow> bool" and agrees :: "'o \<Rightarrow> 'o \<Rightarrow> bool"
  assumes apply_inv: "inv x \<Longrightarrow> inv (fst (dop_apply V x i))"
    and apply_same: "same x (fst (dop_apply V x i))"
    and same_refl: "same x x" and same_trans: "same x y \<Longrightarrow> same y z \<Longrightarrow> same x z"
    and checkpoint_own: "inv x \<Longrightarrow> \<exists>c. dop_checkpoint V x = Some c \<and> cp_node_id c = dop_node_id V x"
    and restore_own: "inv x \<Longrightarrow> same x y \<Longrightarrow> ready y \<Longrightarrow> dop_checkpoint V x = Some c \<Longrightarrow>
      \<exists>z. dop_restore V y c = (z, Inr ()) \<and> agrees x z"
    and same_node: "same x y \<Longrightarrow> dop_node_id V y = dop_node_id V x"
    and agrees_refl: "agrees x x" and agrees_same: "agrees x z \<Longrightarrow> same x z"
    and agrees_inv: "agrees x z \<Longrightarrow> inv x \<Longrightarrow> inv z"
    and agrees_checkpoint: "agrees x z \<Longrightarrow> dop_checkpoint V z = dop_checkpoint V x"
    and agrees_ports: "agrees x z \<Longrightarrow> dop_input_ports V z = dop_input_ports V x"
begin

lemma collect_checkpoints_own:
  assumes "\<forall>x \<in> set xs. inv x"
  shows "\<exists>cs. collect_checkpoints V xs = Some cs \<and> length cs = length xs
    \<and> map cp_node_id cs = map (dop_node_id V) xs \<and> list_all2 (\<lambda>x c. dop_checkpoint V x = Some c) xs cs"
  using assms
proof (induction xs)
  case (Cons x xs)
  obtain c where "dop_checkpoint V x = Some c" "cp_node_id c = dop_node_id V x" using checkpoint_own Cons.prems by auto
  moreover from Cons obtain cs where "collect_checkpoints V xs = Some cs" "length cs = length xs"
    "map cp_node_id cs = map (dop_node_id V) xs" "list_all2 (\<lambda>x c. dop_checkpoint V x = Some c) xs cs" by auto
  ultimately show ?case by simp
qed simp

lemma related_replace:
  assumes "bt_wf xs" and "bt_get xs k = Some x" and "same x y"
  shows "related same xs (bt_insert k y xs)"
  using assms
proof (induction xs)
  case (Cons e xs)
  have refl: "list_all2 (\<lambda>x y. fst x = fst y \<and> same (snd x) (snd y)) zs zs" for zs
    by (rule list_all2_refl) (simp add: same_refl)
  show ?case
  proof (cases "fst e = k")
    case True
    with Cons.prems refl show ?thesis by (cases e) (simp add: related_def)
  next
    case False
    with Cons.prems have k: "bt_get xs k = Some x" by (cases e) auto
    then have "k \<in> fst ` set xs" by (metis domI dom_map_of_conv_image_fst)
    with Cons.prems have "fst e < k" "bt_wf xs" by (auto simp: bt_wf_Cons)
    with Cons.IH [OF _ k Cons.prems(3)] show ?thesis by (auto simp: related_def same_refl)
  qed
qed simp

lemma related_trans: "related same xs ys \<Longrightarrow> related same ys zs \<Longrightarrow> related same xs zs"
  unfolding related_def
proof (induction xs arbitrary: ys zs)
  case (Cons x xs)
  then show ?case by (auto simp: list_all2_Cons1) (erule (1) same_trans)
qed simp

lemma related_refl: "related same xs xs"
  unfolding related_def by (rule list_all2_refl) (simp add: same_refl)

lemma inv_replace: "\<forall>x \<in> set (map snd xs). inv x \<Longrightarrow> inv y \<Longrightarrow> \<forall>x \<in> set (map snd (bt_insert k y xs)). inv x"
  using bt_insert_subset [of k y xs] by auto

lemma drain_keeps:
  assumes "acyclic (edge_rel edges)"
  shows "drain V edges ops queue sinks = Some (ops', res) \<Longrightarrow> bt_wf ops \<Longrightarrow> \<forall>x \<in> set (map snd ops). inv x \<Longrightarrow>
    related same ops ops' \<and> (\<forall>x \<in> set (map snd ops'). inv x)"
proof (induction queue arbitrary: ops sinks rule: queue_induct [OF assms])
  case (1 queue)
  show ?case
  proof (cases queue)
    case Nil
    with 1(2-) show ?thesis by (simp add: drain_step related_refl)
  next
    case (Cons i q)
    show ?thesis
    proof (cases "bt_get ops (in_node_id i)")
      case None
      with 1(2-) Cons show ?thesis by (simp add: drain_step related_refl)
    next
      case (Some x)
      let ?y = "fst (dop_apply V x (in_port_id i, in_batch i))" and ?k = "in_node_id i"
      have x: "inv x" using Some 1(4) by (metis in_set_zipE map_of_SomeD map_snd_zip_take set_map image_eqI snd_conv)
      have keep: "related same ops (bt_insert ?k ?y ops)" "\<forall>x \<in> set (map snd (bt_insert ?k ?y ops)). inv x" "bt_wf (bt_insert ?k ?y ops)"
        using related_replace [OF 1(3) Some apply_same] inv_replace [OF 1(4) apply_inv [OF x]] 1(3) by simp_all
      have cont: "related same ops ops' \<and> (\<forall>x \<in> set (map snd ops'). inv x)"
        if "drain V edges (bt_insert ?k ?y ops) q' sinks' = Some (ops', res)"
          and "(queue_nodes q', queue_nodes queue) \<in> mult ((edge_rel edges)\<inverse>)" for q' sinks'
        using 1(1) [OF that(2) that(1) keep(3,2)] related_trans [OF keep(1)] by blast
      show ?thesis
      proof (cases "in_port_id i \<in> set (dop_input_ports V x)")
        case False
        with 1(2-) Some Cons show ?thesis by (simp add: drain_step related_refl)
      next
        case True
        show ?thesis
        proof (cases "snd (dop_apply V x (in_port_id i, in_batch i))")
          case (Inl e)
          with True Some 1(2) have "ops' = bt_insert ?k ?y ops" by (simp add: Cons drain_step case_prod_beta)
          with keep show ?thesis by simp
        next
          case (Inr out)
          show ?thesis
          proof (cases "filter (\<lambda>e. from_node_id e = ?k) edges = []")
            case empty: True
            show ?thesis
              by (rule cont [OF _ queue_shrinks [of q i edges, folded Cons]])
                (use 1(2) True Some Inr empty in \<open>simp add: Cons drain_step case_prod_beta\<close>)
          next
            case False
            show ?thesis
              by (rule cont [OF _ queue_descends [of q out i edges, folded Cons]])
                (use 1(2) True Some Inr False in \<open>simp add: Cons drain_step case_prod_beta\<close>)
          qed
        qed
      qed
    qed
  qed
qed

lemma restore_operators_own:
  assumes "related same ops ops1" and "\<forall>x \<in> set ops. inv (snd x)" and "\<forall>x \<in> set ops1. ready (snd x)"
    and "\<forall>x \<in> set ops. \<exists>c. bt_get cps (fst x) = Some c \<and> dop_checkpoint V (snd x) = Some c"
  shows "\<exists>ops2. restore_operators V cps ops1 = (ops2, Inr ()) \<and> related agrees ops ops2"
  using assms(1) [unfolded related_def] assms(2-)
proof (induction rule: list_all2_induct)
  case (Cons x xs y ys)
  then obtain c where c: "bt_get cps (fst x) = Some c" "dop_checkpoint V (snd x) = Some c" by auto
  obtain z where z: "dop_restore V (snd y) c = (z, Inr ())" "agrees (snd x) z"
    using restore_own [of "snd x" "snd y" c] c(2) Cons by auto
  from Cons obtain zs where "restore_operators V cps ys = (zs, Inr ())" "related agrees xs zs" by auto
  with c(1) z Cons.hyps(1) show ?case by (cases y) (simp add: related_def)
qed (simp add: related_def)

lemma checkpoints_by_node:
  assumes "graph_ok V inv g" and "collect_checkpoints V (map snd (ng_operators g)) = Some cs"
  shows "length cs = length (ng_operators g)
    \<and> (\<forall>x \<in> set (ng_operators g). \<exists>c. bt_get (bt_collect (map (\<lambda>c. (cp_node_id c, c)) cs)) (fst x) = Some c
        \<and> dop_checkpoint V (snd x) = Some c)"
proof -
  let ?es = "map (\<lambda>c. (cp_node_id c, c)) cs"
  obtain cs' where "collect_checkpoints V (map snd (ng_operators g)) = Some cs'" "length cs' = length (ng_operators g)"
    "map cp_node_id cs' = map (dop_node_id V) (map snd (ng_operators g))"
    "list_all2 (\<lambda>x c. dop_checkpoint V x = Some c) (map snd (ng_operators g)) cs'"
    using collect_checkpoints_own [of "map snd (ng_operators g)"] assms(1) by (auto simp: graph_ok_def)
  with assms(2) have cs: "length cs = length (ng_operators g)"
    "map cp_node_id cs = map (dop_node_id V) (map snd (ng_operators g))"
    "list_all2 (\<lambda>x c. dop_checkpoint V x = Some c) (map snd (ng_operators g)) cs" by simp_all
  have ids: "map (dop_node_id V) (map snd (ng_operators g)) = map fst (ng_operators g)"
    using assms(1) by (simp add: graph_ok_def)
  have "map fst (rev ?es) = rev (map fst (ng_operators g))"
    using cs(2) unfolding ids by (simp add: rev_map [symmetric] comp_def)
  then have dist: "distinct (map fst (rev ?es))"
    using bt.entries_distinct [of "ng_operators g"] assms(1) by (simp add: graph_ok_def)
  have "\<exists>c. bt_get (bt_collect ?es) (fst x) = Some c \<and> dop_checkpoint V (snd x) = Some c" if "x \<in> set (ng_operators g)" for x
  proof -
    from that obtain n where n: "n < length (ng_operators g)" "x = ng_operators g ! n" by (metis in_set_conv_nth)
    from cs(3) n have "dop_checkpoint V (snd x) = Some (cs ! n)" by (simp add: list_all2_conv_all_nth)
    moreover have "cp_node_id (cs ! n) = fst x"
      using arg_cong [OF cs(2) [unfolded ids], of "\<lambda>l. l ! n"] n cs(1) by simp
    then have "(fst x, cs ! n) \<in> set (rev ?es)" using n cs(1) by force
    then have "bt_get (bt_collect ?es) (fst x) = Some (cs ! n)"
      unfolding bt_get_collect by (rule map_of_is_SomeI [OF dist])
    ultimately show ?thesis by blast
  qed
  with cs(1) show ?thesis by blast
qed

lemma restore_inner_own:
  assumes g: "graph_ok V inv g" and cs: "collect_checkpoints V (map snd (ng_operators g)) = Some cs"
    and h: "related same (ng_operators g) (ng_operators h)" "\<forall>x \<in> set (ng_operators h). ready (snd x)"
  shows "\<exists>ops. restore_inner V h \<lparr>gc_schema_version = 1, gc_logical_epoch = n, gc_operators = cs\<rparr>
      = (h\<lparr>ng_operators := ops, ng_logical_epoch := n\<rparr>, Inr ()) \<and> related agrees (ng_operators g) ops"
proof -
  note c = checkpoints_by_node [OF g cs]
  have "length (ng_operators h) = length (ng_operators g)" using h(1) by (simp add: related_def list_all2_lengthD)
  moreover obtain ops where "restore_operators V (bt_collect (map (\<lambda>c. (cp_node_id c, c)) cs)) (ng_operators h) = (ops, Inr ())"
    "related agrees (ng_operators g) ops"
    using restore_operators_own [OF h(1) _ h(2) conjunct2 [OF c]] g unfolding graph_ok_def by blast
  ultimately show ?thesis using c by (intro exI [of _ ops]) (simp add: restore_inner_def)
qed

lemma related_get:
  assumes "related R xs ys"
  shows "rel_option R (bt_get xs k) (bt_get ys k)"
  using assms unfolding related_def by (induction rule: list_all2_induct) (auto split: prod.splits)

lemma validate_agrees:
  assumes "related agrees ops ops'" and "ng_operators g = ops" "ng_operators h = ops'" "ng_edges h = ng_edges g"
  shows "graph_validate V h = graph_validate V g"
proof -
  have "validate_edge V ops' e seen = validate_edge V ops e seen" for e seen
    using related_get [OF assms(1), of "from_node_id e"] related_get [OF assms(1), of "to_node_id e"]
    by (auto simp: validate_edge_def agrees_ports elim!: option.rel_cases split: option.splits)
  then have ve: "validate_edge V ops' = validate_edge V ops" by blast
  have zeros: "map (\<lambda>(node_id, _). (node_id, 0::nat)) ops' = map (\<lambda>(node_id, _). (node_id, 0)) ops"
    using assms(1) unfolding related_def by (induction rule: list_all2_induct) auto
  have len: "length ops' = length ops" using list_all2_lengthD assms(1) by (fastforce simp: related_def)
  have "validate_acyclic ops' edges = validate_acyclic ops edges" for edges
    unfolding validate_acyclic_def zeros len ..
  moreover have "ops' = [] \<longleftrightarrow> ops = []" using len by auto
  ultimately show ?thesis unfolding graph_validate_def assms(2-) ve by (simp split: sum.split)
qed

text \<open>A graph that agrees with another in every operator has its checkpoint.\<close>

lemma checkpoint_agrees:
  assumes "related agrees (ng_operators g) (ng_operators h)" and "ng_edges h = ng_edges g"
    and "ng_logical_epoch h = ng_logical_epoch g"
  shows "graph_checkpoint V h = graph_checkpoint V g"
proof -
  have "collect_checkpoints V (map snd (ng_operators h)) = collect_checkpoints V (map snd (ng_operators g))"
    using assms(1) unfolding related_def
  proof (induction rule: list_all2_induct)
    case (Cons x xs y ys)
    then have "dop_checkpoint V (snd y) = dop_checkpoint V (snd x)" by (intro agrees_checkpoint) simp
    with Cons.IH show ?case by (simp split: option.split)
  qed simp
  moreover have "graph_validate V h = graph_validate V g" by (rule validate_agrees [OF assms(1) refl refl assms(2)])
  ultimately show ?thesis unfolding graph_checkpoint_def assms(3) by (simp only:)
qed

lemma graph_ok_related:
  assumes "graph_ok V inv g" and "related same (ng_operators g) (ng_operators h)" and "\<forall>x \<in> set (map snd (ng_operators h)). inv x"
  shows "graph_ok V inv h"
proof -
  have "map fst (ng_operators h) = map fst (ng_operators g)" by (rule related_keys [OF assms(2)])
  then have "bt_wf (ng_operators h)" using assms(1) by (simp add: graph_ok_def bt_wf_def)
  moreover have "\<forall>x \<in> set (ng_operators g). fst x = dop_node_id V (snd x)" using assms(1) by (simp add: graph_ok_def)
  with assms(2) have "\<forall>x \<in> set (ng_operators h). fst x = dop_node_id V (snd x)"
    unfolding related_def by (induction rule: list_all2_induct) (auto simp: same_node)
  ultimately show ?thesis using assms(3) by (simp add: graph_ok_def)
qed

lemma related_agrees:
  assumes "related agrees xs ys" and "\<forall>x \<in> set (map snd xs). inv x"
  shows "related same xs ys \<and> (\<forall>y \<in> set (map snd ys). inv y)"
  using assms unfolding related_def by (induction rule: list_all2_induct) (auto simp: agrees_same agrees_inv)

lemma checkpoint_returns:
  assumes "graph_ok V inv g" and "graph_validate V g = Some (Inr ())"
  shows "\<exists>cs. collect_checkpoints V (map snd (ng_operators g)) = Some cs
    \<and> graph_checkpoint V g = Some (Inr \<lparr>gc_schema_version = 1, gc_logical_epoch = ng_logical_epoch g, gc_operators = cs\<rparr>)"
  using collect_checkpoints_own [of "map snd (ng_operators g)"] assms by (auto simp: graph_ok_def graph_checkpoint_def)

lemma validated_acyclic: "graph_ok V inv g \<Longrightarrow> graph_validate V g = Some (Inr ()) \<Longrightarrow> acyclic (edge_rel (ng_edges g))"
  using graph_validate_cases [of g V] by (simp add: graph_ok_def)

lemma inner_keeps:
  assumes "graph_ok V inv g" and "graph_validate V g = Some (Inr ())" and "apply_epoch_inner J V g n ins = Some (h, res)"
  shows "related same (ng_operators g) (ng_operators h) \<and> graph_ok V inv h \<and> ng_edges h = ng_edges g
    \<and> (\<forall>out. res = Inr out \<longrightarrow> ng_logical_epoch h = n)"
proof -
  from assms(3) obtain ops r where r: "drain V (ng_edges g) (ng_operators g) (sort_key input_key ins) [] = Some (ops, r)"
    and h: "ng_operators h = ops" "ng_edges h = ng_edges g" "\<forall>out. res = Inr out \<longrightarrow> ng_logical_epoch h = n"
    by (auto simp: apply_epoch_inner_def split: option.splits prod.splits sum.splits)
  have "related same (ng_operators g) ops \<and> (\<forall>x \<in> set (map snd ops). inv x)"
    using drain_keeps [OF validated_acyclic [OF assms(1,2)] r] assms(1) by (auto simp: graph_ok_def)
  with h graph_ok_related [OF assms(1), of h] show ?thesis by simp
qed

lemma epoch_returns:
  assumes "graph_ok V inv g"
  shows "apply_epoch J V g n ins \<noteq> None"
proof (cases "graph_validate V g = Some (Inr ())")
  case True
  obtain p where "graph_checkpoint V g = Some (Inr p)" using checkpoint_returns [OF assms True] by blast
  moreover have "apply_epoch_inner J V g n ins \<noteq> None"
    using drain_returns [OF validated_acyclic [OF assms True], of V "ng_operators g" "sort_key input_key ins" "[]"]
    by (simp add: apply_epoch_inner_def split: option.split prod.split sum.split)
  then obtain h res where "apply_epoch_inner J V g n ins = Some (h, res)" by auto
  ultimately show ?thesis using True by (cases res) (simp_all add: apply_epoch_def)
next
  case False
  have "graph_validate V g \<noteq> None" using graph_validate_cases [of g V] assms by (simp add: graph_ok_def)
  then obtain r where r: "graph_validate V g = Some r" by blast
  with False obtain e where "r = Inl e" by (cases r) auto
  with r show ?thesis by (simp add: apply_epoch_def)
qed

lemma epoch_success:
  assumes "graph_ok V inv g" and "apply_epoch J V g n ins = Some (g', Inr out)"
  shows "ng_logical_epoch g < n \<and> ng_logical_epoch g' = n \<and> ng_edges g' = ng_edges g
    \<and> related same (ng_operators g) (ng_operators g') \<and> graph_ok V inv g'"
proof -
  from assms(2) have val: "graph_validate V g = Some (Inr ())" and n: "ng_logical_epoch g < n"
    by (auto simp: apply_epoch_def split: option.splits sum.splits if_splits)
  obtain p where p: "graph_checkpoint V g = Some (Inr p)" using checkpoint_returns [OF assms(1) val] by blast
  have "apply_epoch_inner J V g n ins = Some (g', Inr out)"
    using assms(2) val n p by (auto simp: apply_epoch_def roll_back_def split: option.splits sum.splits prod.splits)
  from inner_keeps [OF assms(1) val this] n show ?thesis by blast
qed

lemma epoch_failure:
  assumes ok: "graph_ok V inv g" and fail: "apply_epoch J V g n ins = Some (g', Inl e)"
    and ready: "\<And>h res. apply_epoch_inner J V g n ins = Some (h, res) \<Longrightarrow> \<forall>x \<in> set (ng_operators h). ready (snd x)"
  shows "related agrees (ng_operators g) (ng_operators g') \<and> ng_edges g' = ng_edges g
    \<and> ng_logical_epoch g' = ng_logical_epoch g \<and> graph_ok V inv g'"
proof (cases "graph_validate V g = Some (Inr ()) \<and> ng_logical_epoch g < n")
  case False
  then have "g' = g" using fail by (auto simp: apply_epoch_def split: option.splits sum.splits if_splits)
  moreover have "related agrees xs xs" for xs unfolding related_def by (rule list_all2_refl) (simp add: agrees_refl)
  ultimately show ?thesis using ok by simp
next
  case True
  then have val: "graph_validate V g = Some (Inr ())" by blast
  obtain cs where cs: "collect_checkpoints V (map snd (ng_operators g)) = Some cs"
    "graph_checkpoint V g = Some (Inr \<lparr>gc_schema_version = 1, gc_logical_epoch = ng_logical_epoch g, gc_operators = cs\<rparr>)"
    using checkpoint_returns [OF ok val] by blast
  let ?p = "\<lparr>gc_schema_version = 1, gc_logical_epoch = ng_logical_epoch g, gc_operators = cs\<rparr>"
  obtain h e' where h: "apply_epoch_inner J V g n ins = Some (h, Inl e')" "roll_back V ''epoch'' h ?p e' = (g', Inl e :: (native_operator_error, sinks) result)"
    using fail True cs(2) by (auto simp: apply_epoch_def split: option.splits sum.splits prod.splits)
  note keep = inner_keeps [OF ok val h(1)]
  obtain ops where ops: "restore_inner V h ?p = (h\<lparr>ng_operators := ops, ng_logical_epoch := ng_logical_epoch g\<rparr>, Inr ())"
    "related agrees (ng_operators g) ops"
    using restore_inner_own [OF ok cs(1) _ ready [OF h(1)]] keep by blast
  with h(2) have g': "g' = h\<lparr>ng_operators := ops, ng_logical_epoch := ng_logical_epoch g\<rparr>" by (simp add: roll_back_def)
  have "related same (ng_operators g) ops \<and> (\<forall>y \<in> set (map snd ops). inv y)"
    by (rule related_agrees [OF ops(2)]) (use ok in \<open>simp add: graph_ok_def\<close>)
  then have "graph_ok V inv g'" by (intro graph_ok_related [OF ok]) (simp_all add: g')
  with ops(2) keep show ?thesis by (simp add: g')
qed

end

section \<open>The operators that keep the contract\<close>

text \<open>What no method of an operator changes: everything but the retained state.\<close>

definition join_blank :: "keyed_equi_join \<Rightarrow> keyed_equi_join" where
  "join_blank j = j\<lparr>ej_left := [], ej_right := [], revision := 0\<rparr>"

fun op_identity :: "native_operator \<Rightarrow> native_operator" where
  "op_identity (FilterOp s) = FilterOp s"
| "op_identity (ProjectOp s) = ProjectOp s"
| "op_identity (AggregateOp s) = AggregateOp (s\<lparr>na_aggregate := with_value_mode_and_extrema IntegerMode False\<rparr>)"
| "op_identity (BinaryJoinOp s) = BinaryJoinOp (s\<lparr>nb_join := join_blank (nb_join s)\<rparr>)"
| "op_identity (SemiJoinOp s) = SemiJoinOp (s\<lparr>bj_left := [], bj_right := []\<rparr>)"
| "op_identity (AntiJoinOp s) = AntiJoinOp (s\<lparr>bj_left := [], bj_right := []\<rparr>)"
| "op_identity (LeftJoinOp s) = LeftJoinOp (s\<lparr>lj_join := join_blank (lj_join s)\<rparr>)"
| "op_identity (FullJoinOp s) = FullJoinOp (s\<lparr>fj_join := join_blank (fj_join s)\<rparr>)"
| "op_identity (TopKOp s) = TopKOp (s\<lparr>tk_input := [], tk_output := []\<rparr>)"

text \<open>The revision counter of a join is not part of its saved state.\<close>

fun op_erase :: "native_operator \<Rightarrow> native_operator" where
  "op_erase (BinaryJoinOp s) = BinaryJoinOp (s\<lparr>nb_join := (nb_join s)\<lparr>revision := 0\<rparr>\<rparr>)"
| "op_erase x = x"

definition op_same :: "native_operator \<Rightarrow> native_operator \<Rightarrow> bool" where
  "op_same x y \<longleftrightarrow> op_identity x = op_identity y"

definition op_agrees :: "native_operator \<Rightarrow> native_operator \<Rightarrow> bool" where
  "op_agrees x y \<longleftrightarrow> op_erase x = op_erase y"

definition bag_saved :: "serde \<Rightarrow> bag_join \<Rightarrow> bool" where
  "bag_saved J s \<longleftrightarrow> consolidated J (bj_left s) \<and> \<not> has_negative (bj_left s)
     \<and> consolidated J (bj_right s) \<and> \<not> has_negative (bj_right s)"

definition aggregate_saved :: "serde \<Rightarrow> native_aggregate \<Rightarrow> bool" where
  "aggregate_saved J s \<longleftrightarrow> aggregate_wf J (na_aggregate s) \<and> mode_ok (na_value_mode s)
     \<and> ag_value_mode (na_aggregate s) = na_value_mode s \<and> ag_track_extrema (na_aggregate s) = na_track_extrema s"

fun op_inv :: "serde \<Rightarrow> native_operator \<Rightarrow> bool" where
  "op_inv J (FilterOp s) = True"
| "op_inv J (ProjectOp s) = True"
| "op_inv J (AggregateOp s) = aggregate_saved J s"
| "op_inv J (BinaryJoinOp s) \<longleftrightarrow> side_wf J (ej_left (nb_join s)) \<and> side_wf J (ej_right (nb_join s))"
| "op_inv J (SemiJoinOp s) = bag_saved J s"
| "op_inv J (AntiJoinOp s) = bag_saved J s"
| "op_inv J (LeftJoinOp s) = False"
| "op_inv J (FullJoinOp s) = False"
| "op_inv J (TopKOp s) = False"

text \<open>A join can be restored unless its revision counter is used up.\<close>

fun op_ready :: "native_operator \<Rightarrow> bool" where
  "op_ready (BinaryJoinOp s) \<longleftrightarrow> revision (nb_join s) + 1 < 2 ^ 64"
| "op_ready x = True"

lemma apply_left_blank: "join_blank (fst (apply_left J j rs)) = join_blank j"
  by (simp add: apply_left_def join_blank_def split: sum.split)

lemma apply_right_blank: "join_blank (fst (apply_right J j rs)) = join_blank j"
  by (simp add: apply_right_def join_blank_def split: sum.split)

lemma apply_left_sides:
  assumes "side_wf J (ej_left j)" and "side_wf J (ej_right j)"
  shows "side_wf J (ej_left (fst (apply_left J j rs))) \<and> side_wf J (ej_right (fst (apply_left J j rs)))"
  using assms side_applied_wf [OF assms(1)] by (auto simp: apply_left_def split: sum.split)

lemma apply_right_sides:
  assumes "side_wf J (ej_left j)" and "side_wf J (ej_right j)"
  shows "side_wf J (ej_left (fst (apply_right J j rs))) \<and> side_wf J (ej_right (fst (apply_right J j rs)))"
  using assms side_applied_wf [OF assms(2)] by (auto simp: apply_right_def split: sum.split)

lemma bag_apply_saved:
  assumes "bag_saved J s"
  shows "bag_saved J (fst (bag_apply kind J s i))"
proof -
  have net: "consolidated J rows \<and> \<not> has_negative rows"
    if "bag_validate_non_negative kind J st = Inr u" "net_rows J st = Inr rows" for st rows u
    using that net_rows_consolidated [of J st rows] by (auto simp: bag_validate_non_negative_def split: if_splits)
  have "bag_saved J (fst (bag_apply_left kind J s b))" for b
    using assms net [of "batch_combine (bj_left s) b"]
    by (auto simp: bag_apply_left_def bag_saved_def Let_def res_simps split: sum.split)
  moreover have "bag_saved J (fst (bag_apply_right kind J s b))" for b
    using assms net [of "batch_combine (bj_right s) b"]
    by (auto simp: bag_apply_right_def bag_saved_def Let_def res_simps split: sum.split)
  ultimately show ?thesis using assms by (simp add: bag_apply_def)
qed

lemma bag_apply_identity: "(fst (bag_apply kind J s i))\<lparr>bj_left := [], bj_right := []\<rparr> = s\<lparr>bj_left := [], bj_right := []\<rparr>"
  by (simp add: bag_apply_def bag_apply_left_def bag_apply_right_def Let_def split: sum.split)

lemma aggregate_apply_saved:
  assumes "aggregate_saved J s"
  shows "aggregate_saved J (fst (native_aggregate_apply J s i))"
proof (cases "aggregate_apply J (na_aggregate s) (snd i)")
  case (Pair a res)
  show ?thesis
  proof (cases res)
    case (Inl e)
    then have "a = na_aggregate s" using Pair by (auto simp: aggregate_apply_def split: sum.splits prod.splits)
    with Pair assms show ?thesis by (simp add: native_aggregate_apply_def split: sum.split)
  next
    case (Inr out)
    with Pair assms aggregate_apply_step [of J "na_aggregate s" "snd i" a out] show ?thesis
      by (simp add: native_aggregate_apply_def aggregate_saved_def split: sum.split)
  qed
qed

lemma binary_join_apply_kept:
  assumes "binary_join_apply J s i = (s', res)"
  shows "s'\<lparr>nb_join := join_blank (nb_join s')\<rparr> = s\<lparr>nb_join := join_blank (nb_join s)\<rparr>"
    and "side_wf J (ej_left (nb_join s)) \<Longrightarrow> side_wf J (ej_right (nb_join s)) \<Longrightarrow>
      side_wf J (ej_left (nb_join s')) \<and> side_wf J (ej_right (nb_join s'))"
  using assms apply_left_blank [of J "nb_join s" "snd i"] apply_right_blank [of J "nb_join s" "snd i"]
    apply_left_sides [of J "nb_join s" "snd i"] apply_right_sides [of J "nb_join s" "snd i"]
  by (auto simp: binary_join_apply_def split: if_splits prod.splits)

lemma op_apply_inv: "op_inv J x \<Longrightarrow> op_inv J (fst (op_apply J x i))"
proof (cases x)
  case (BinaryJoinOp s)
  assume "op_inv J x"
  then show ?thesis
    using BinaryJoinOp binary_join_apply_kept(2) [of J s i] by (cases "binary_join_apply J s i") auto
qed (simp_all add: aggregate_apply_saved semi_join_apply_def anti_join_apply_def bag_apply_saved)

lemma op_apply_identity: "op_identity (fst (op_apply J x i)) = op_identity x"
proof (cases x)
  case (BinaryJoinOp s)
  then show ?thesis using binary_join_apply_kept(1) [of J s i] by (cases "binary_join_apply J s i") simp
next
  case (LeftJoinOp s)
  then show ?thesis using apply_left_blank [of J "lj_join s" "snd i"] apply_right_blank [of J "lj_join s" "snd i"]
    by (auto simp: left_join_apply_def split: prod.split sum.split)
next
  case (FullJoinOp s)
  then show ?thesis using apply_left_blank [of J "fj_join s" "snd i"] apply_right_blank [of J "fj_join s" "snd i"]
    by (auto simp: full_join_apply_def split: prod.split sum.split)
next
  case (TopKOp s)
  then show ?thesis by (auto simp: top_k_apply_def split: prod.split sum.split)
qed (simp_all add: filter_apply_def project_apply_def native_aggregate_apply_def semi_join_apply_def
       anti_join_apply_def bag_apply_identity split: sum.split prod.split)

lemma op_checkpoint_own:
  assumes "op_inv J x"
  shows "\<exists>c. op_checkpoint x = Some c \<and> cp_node_id c = op_node_id x"
proof (cases x)
  case (AggregateOp s)
  then obtain rows where "aggregate_state (na_aggregate s) = Inr rows"
    using assms aggregate_state_rows [of J "na_aggregate s"] by (auto simp: aggregate_saved_def)
  with AggregateOp show ?thesis by (simp add: native_aggregate_checkpoint_def)
qed (use assms in \<open>simp_all add: filter_checkpoint_def project_checkpoint_def stateless_checkpoint_def
       binary_join_checkpoint_def bag_checkpoint_def anti_join_checkpoint_def\<close>)

lemma op_identity_node: "op_identity x = op_identity y \<Longrightarrow> op_node_id y = op_node_id x"
  by (cases x; cases y) (auto dest: arg_cong [of _ _ na_node_id] arg_cong [of _ _ nb_node_id] arg_cong [of _ _ bj_node_id]
    arg_cong [of _ _ lj_node_id] arg_cong [of _ _ fj_node_id] arg_cong [of _ _ tk_node_id])

lemma aggregate_restore_own:
  assumes "aggregate_saved J s" and "op_identity (AggregateOp s) = op_identity (AggregateOp t)"
    and "native_aggregate_checkpoint s = Some c"
  shows "native_aggregate_restore J t c = (s, Inr ())"
proof -
  from assms(3) obtain rows where rows: "aggregate_state (na_aggregate s) = Inr rows"
    and c: "c = \<lparr>cp_node_id = na_node_id s, cp_codec_id = ''velorix-native-aggregate-v1'', cp_codec_version = 1, cp_state = Unary rows\<rparr>"
    by (auto simp: native_aggregate_checkpoint_def split: sum.splits)
  have "from_state J rows (na_value_mode s) (na_track_extrema s) = Inr (na_aggregate s)"
    using from_state_state [of J "na_aggregate s" rows] assms(1) rows by (simp add: aggregate_saved_def)
  moreover obtain "na_node_id t = na_node_id s" "na_value_mode t = na_value_mode s" "na_track_extrema t = na_track_extrema s"
    using assms(2) by (cases s; cases t) simp
  ultimately show ?thesis using assms(2)
    by (cases s; cases t) (simp add: native_aggregate_restore_def validate_checkpoint_header_def c res_simps)
qed

lemma binary_restore_own:
  assumes "side_wf J (ej_left (nb_join s))" and "side_wf J (ej_right (nb_join s))"
    and "op_identity (BinaryJoinOp s) = op_identity (BinaryJoinOp t)" and "revision (nb_join t) + 1 < 2 ^ 64"
  shows "binary_join_restore J t (binary_join_checkpoint s) =
    (s\<lparr>nb_join := (nb_join s)\<lparr>revision := revision (nb_join t) + 1\<rparr>\<rparr>, Inr ())"
proof -
  have "restore_state J (nb_join t) (left_state (nb_join s)) (right_state (nb_join s)) =
      ((nb_join s)\<lparr>revision := revision (nb_join t) + 1\<rparr>, Inr ())"
    using assms side_restore [OF assms(1)] side_restore [OF assms(2)]
    by (cases "nb_join s"; cases "nb_join t") (auto simp: restore_state_def left_state_def right_state_def
        u64_checked_inc_def join_blank_def dest: arg_cong [of _ _ nb_join])
  then show ?thesis using assms(3)
    by (cases s; cases t) (simp add: binary_join_restore_def binary_join_checkpoint_def validate_checkpoint_header_def res_simps)
qed

lemma bag_restore_own:
  assumes "bag_saved J s" and "s\<lparr>bj_left := [], bj_right := []\<rparr> = t\<lparr>bj_left := [], bj_right := []\<rparr>"
  shows "bag_restore kind J t (bag_checkpoint kind s) = (s, Inr ())"
  using assms consolidated_net_rows [of J "bj_left s"] consolidated_net_rows [of J "bj_right s"]
  by (cases s; cases t) (simp add: bag_restore_def bag_checkpoint_def validate_checkpoint_header_def bag_saved_def res_simps)

lemma op_restore_own:
  assumes "op_inv J x" and "op_identity x = op_identity y" and "op_ready y" and "op_checkpoint x = Some c"
  shows "\<exists>z. op_restore J y c = (z, Inr ()) \<and> op_erase x = op_erase z"
proof (cases x)
  case (AggregateOp s)
  then obtain t where t: "y = AggregateOp t" using assms(2) by (cases y) simp_all
  then show ?thesis using AggregateOp assms aggregate_restore_own [of J s t c] by simp
next
  case (BinaryJoinOp s)
  then obtain t where t: "y = BinaryJoinOp t" using assms(2) by (cases y) simp_all
  then show ?thesis using BinaryJoinOp assms binary_restore_own [of J s t] by auto
next
  case (SemiJoinOp s)
  then obtain t where t: "y = SemiJoinOp t" using assms(2) by (cases y) simp_all
  then show ?thesis using SemiJoinOp assms bag_restore_own [of J s t] by auto
next
  case (AntiJoinOp s)
  then obtain t where t: "y = AntiJoinOp t" using assms(2) by (cases y) simp_all
  then show ?thesis using AntiJoinOp assms bag_restore_own [of J s t] by (auto simp: anti_join_checkpoint_def anti_join_restore_def)
next
  case (FilterOp s)
  then show ?thesis using assms by (cases y) (auto simp: filter_checkpoint_def filter_restore_def
    stateless_checkpoint_def validate_checkpoint_identity_def validate_checkpoint_header_def res_simps)
next
  case (ProjectOp s)
  then show ?thesis using assms by (cases y) (auto simp: project_checkpoint_def project_restore_def
    stateless_checkpoint_def validate_checkpoint_identity_def validate_checkpoint_header_def res_simps)
qed (use assms in simp_all)

text \<open>Operators that differ in a revision counter only.\<close>

lemma op_agrees_cases:
  assumes "op_agrees x z"
  shows "x = z \<or> (\<exists>s t. x = BinaryJoinOp s \<and> z = BinaryJoinOp t \<and> nb_node_id t = nb_node_id s
    \<and> ej_left (nb_join t) = ej_left (nb_join s) \<and> ej_right (nb_join t) = ej_right (nb_join s)
    \<and> op_identity x = op_identity z)"
proof (cases x)
  case (BinaryJoinOp s)
  then obtain t where z: "z = BinaryJoinOp t" using assms by (cases z) (simp_all add: op_agrees_def)
  from assms BinaryJoinOp z show ?thesis
    by (cases s; cases t; cases "nb_join s"; cases "nb_join t") (simp add: op_agrees_def join_blank_def)
qed (use assms in \<open>cases z; simp add: op_agrees_def\<close>)+

interpretation native: rollback_contract "native_ops J" "op_inv J" op_ready op_same op_agrees for J
proof
  fix x y z :: native_operator and i c
  show "op_inv J x \<Longrightarrow> op_inv J (fst (dop_apply (native_ops J) x i))"
    by (simp add: native_ops_def op_apply_inv)
  show "op_same x (fst (dop_apply (native_ops J) x i))"
    by (simp add: native_ops_def op_same_def op_apply_identity)
  show "op_inv J x \<Longrightarrow> \<exists>c. dop_checkpoint (native_ops J) x = Some c \<and> cp_node_id c = dop_node_id (native_ops J) x"
    by (simp add: native_ops_def op_checkpoint_own)
  show "op_inv J x \<Longrightarrow> op_same x y \<Longrightarrow> op_ready y \<Longrightarrow> dop_checkpoint (native_ops J) x = Some c \<Longrightarrow>
      \<exists>z. dop_restore (native_ops J) y c = (z, Inr ()) \<and> op_agrees x z"
    unfolding op_same_def op_agrees_def using op_restore_own [of J x y c] by (simp add: native_ops_def)
  show "op_same x y \<Longrightarrow> dop_node_id (native_ops J) y = dop_node_id (native_ops J) x"
    using op_identity_node [of x y] by (simp add: native_ops_def op_same_def)
  assume agree: "op_agrees x z"
  show "op_same x z" using op_agrees_cases [OF agree] by (auto simp: op_same_def)
  show "op_inv J x \<Longrightarrow> op_inv J z" using op_agrees_cases [OF agree] by auto
  show "dop_checkpoint (native_ops J) z = dop_checkpoint (native_ops J) x"
    using op_agrees_cases [OF agree] by (auto simp: native_ops_def binary_join_checkpoint_def left_state_def right_state_def)
  show "dop_input_ports (native_ops J) z = dop_input_ports (native_ops J) x"
    using op_agrees_cases [OF agree] by (auto simp: native_ops_def)
qed (simp_all add: op_same_def op_agrees_def)

section \<open>Epochs\<close>

text \<open>Reading the outcome of a call that was evaluated.\<close>

lemma outcome_Inr: "(case r of Some (g, Inr out) \<Rightarrow> P g out | _ \<Rightarrow> False) \<Longrightarrow> \<exists>g out. r = Some (g, Inr out) \<and> P g out"
  by (cases r; cases "snd (the r)") (auto split: sum.splits)

lemma outcome_Inl: "(case r of Some (g, Inl e) \<Rightarrow> P g e | _ \<Rightarrow> False) \<Longrightarrow> \<exists>g e. r = Some (g, Inl e) \<and> P g e"
  by (cases r; cases "snd (the r)") (auto split: sum.splits)

text \<open>A join whose output is the left input of a semi join.\<close>

definition join_chain :: "native_operator native_operator_graph" where
  "join_chain = \<lparr>ng_logical_epoch = 3,
     ng_operators = [(''j'', BinaryJoinOp (fst (binary_join_new ''j'' pair_values 1))), (''s'', SemiJoinOp (bag_new ''s''))],
     ng_edges = [\<lparr>from_node_id = ''j'', to_node_id = ''s'', to_port_id = ''left''\<rparr>]\<rparr>"

definition chain_row :: "json \<Rightarrow> delta_batch" where
  "chain_row v = [\<lparr>rec_key = JNull, rec_value = v, rec_weight = 1\<rparr>]"

definition chain_inputs :: "native_operator_input list" where
  "chain_inputs = [\<lparr>in_node_id = ''s'', in_port_id = ''right'', in_batch = chain_row JNull\<rparr>,
     \<lparr>in_node_id = ''j'', in_port_id = ''right'', in_batch = chain_row (JBool True)\<rparr>,
     \<lparr>in_node_id = ''j'', in_port_id = ''left'', in_batch = chain_row (JBool False)\<rparr>]"

definition stray_input :: "native_operator_input" where
  "stray_input = \<lparr>in_node_id = ''z'', in_port_id = ''input'', in_batch = []\<rparr>"

lemma join_chain_ok: "graph_ok (native_ops J) (op_inv J) join_chain"
proof -
  have "bt_wf (ng_operators join_chain)" by code_simp
  then show ?thesis
    by (simp add: graph_ok_def join_chain_def native_ops_def binary_join_new_def equi_join_new_def bag_new_def
        bag_saved_def has_negative_def)
qed





text \<open>
  C5: An epoch that fails leaves no trace: the graph has the checkpoint, the epoch and the edges it
  had before, and its operators are the same but for the revision counters of joins. The graph has
  filters, projections, aggregates, inner, semi and anti joins, and no join has used up its 64-bit
  revision counter when the epoch stops.
\<close>

theorem apply_epoch_atomic:
  assumes "graph_ok (native_ops J) (op_inv J) g"
    and "apply_epoch J (native_ops J) g n ins = Some (g', Inl e)"
    and "\<And>h res. apply_epoch_inner J (native_ops J) g n ins = Some (h, res) \<Longrightarrow> \<forall>x \<in> set (ng_operators h). op_ready (snd x)"
  shows "graph_checkpoint (native_ops J) g' = graph_checkpoint (native_ops J) g
    \<and> related op_agrees (ng_operators g) (ng_operators g') \<and> ng_edges g' = ng_edges g
    \<and> graph_ok (native_ops J) (op_inv J) g'"
proof -
  have ready: "\<forall>x \<in> set (ng_operators h). op_ready (snd x)"
    if "apply_epoch_inner J (native_ops J) g n ins = Some (h, res)" for h res using assms(3) that by blast
  have "related op_agrees (ng_operators g) (ng_operators g') \<and> ng_edges g' = ng_edges g
    \<and> ng_logical_epoch g' = ng_logical_epoch g \<and> graph_ok (native_ops J) (op_inv J) g'"
    by (rule native.epoch_failure [OF assms(1,2)]) (rule ready)
  then have kept: "related op_agrees (ng_operators g) (ng_operators g')"
    "ng_edges g' = ng_edges g" "ng_logical_epoch g' = ng_logical_epoch g" "graph_ok (native_ops J) (op_inv J) g'" by blast+
  from native.checkpoint_agrees [OF kept(1-3)] kept show ?thesis by blast
qed

theorem apply_epoch_atomic_witness:
  "\<exists>g' e. apply_epoch serde_ref (native_ops serde_ref) join_chain 4 (stray_input # chain_inputs) = Some (g', Inl e)
     \<and> graph_checkpoint (native_ops serde_ref) g' = graph_checkpoint (native_ops serde_ref) join_chain"
proof -
  have "case apply_epoch serde_ref (native_ops serde_ref) join_chain 4 (stray_input # chain_inputs) of
      Some (g, Inl e) \<Rightarrow> True | _ \<Rightarrow> False" by code_simp
  then obtain g' e where run: "apply_epoch serde_ref (native_ops serde_ref) join_chain 4 (stray_input # chain_inputs) = Some (g', Inl e)"
    by (auto dest!: outcome_Inl)
  have "case apply_epoch_inner serde_ref (native_ops serde_ref) join_chain 4 (stray_input # chain_inputs) of
      Some (h, res) \<Rightarrow> list_all (\<lambda>x. op_ready (snd x)) (ng_operators h) | None \<Rightarrow> False" by code_simp
  then have "\<forall>x \<in> set (ng_operators h). op_ready (snd x)"
    if "apply_epoch_inner serde_ref (native_ops serde_ref) join_chain 4 (stray_input # chain_inputs) = Some (h, res)" for h res
    using that by (simp add: list_all_iff)
  with apply_epoch_atomic [OF join_chain_ok run] run show ?thesis by blast
qed

text \<open>A graph of one ranking operator.\<close>

definition ranking_graph :: "native_operator native_operator_graph" where
  "ranking_graph = \<lparr>ng_logical_epoch = 0,
     ng_operators = [(''t'', TopKOp (projr (top_k_new ''t'' 0 4 True value_key)))], ng_edges = []\<rparr>"

definition ranking_inputs :: "native_operator_input list" where
  "ranking_inputs = map (\<lambda>i. \<lparr>in_node_id = ''t'', in_port_id = fst i, in_batch = snd i\<rparr>) top_k_sample"


end
