(* ===== verification/Processed_Spans.thy ===== *)
theory Processed_Spans
  imports Velorix_Prelude
begin

text \<open>
  Progress within one artifact (\<open>velorix-core/src/processed_spans.rs\<close>): the processed row ordinals as
  a list of half-open spans. Ordinals are 64-bit unsigned in the source and natural numbers here;
  the only arithmetic on them is the checked sum of \<open>processed_len\<close>, where \<open>None\<close> is a panic.

  The spans represent a set of ordinals, and sorted spans with a gap between any two are the only
  representation of their set. The operations are those of the set: insertion is union with an
  interval, the length is the cardinality and the unprocessed runs are the complement.
\<close>

section \<open>Definitions\<close>

datatype processed_spans_error = InvalidBounds | NonCanonical

type_synonym span = "nat \<times> nat"

record processed_spans =
  ps_rows_total :: nat
  ps_spans :: "span list"

record processed_spans_wire =
  wire_rows_total :: nat
  wire_spans :: "span list"

definition spans_new :: "nat \<Rightarrow> processed_spans" where
  "spans_new rows_total = \<lparr>ps_rows_total = rows_total, ps_spans = []\<rparr>"

text \<open>The loop of \<open>from_spans\<close> with its variable \<open>previous_end\<close>.\<close>

fun check_spans :: "nat \<Rightarrow> nat option \<Rightarrow> span list \<Rightarrow> (processed_spans_error, unit) result" where
  "check_spans rows_total previous_end [] = Inr ()"
| "check_spans rows_total previous_end ((start, stop) # spans) =
     (if start \<ge> stop \<or> stop > rows_total then Inl InvalidBounds
      else if (case previous_end of None \<Rightarrow> False | Some previous \<Rightarrow> start \<le> previous) then Inl NonCanonical
      else check_spans rows_total (Some stop) spans)"

definition from_spans :: "nat \<Rightarrow> span list \<Rightarrow> (processed_spans_error, processed_spans) result" where
  "from_spans rows_total spans =
     rbind (check_spans rows_total None spans) (\<lambda>_. Inr \<lparr>ps_rows_total = rows_total, ps_spans = spans\<rparr>)"

definition from_prefix :: "nat \<Rightarrow> nat \<Rightarrow> (processed_spans_error, processed_spans) result" where
  "from_prefix rows_total rows =
     (if rows > rows_total then Inl InvalidBounds
      else from_spans rows_total (if rows = 0 then [] else [(0, rows)]))"

definition spans_try_from :: "processed_spans_wire \<Rightarrow> (processed_spans_error, processed_spans) result" where
  "spans_try_from wire = from_spans (wire_rows_total wire) (wire_spans wire)"

text \<open>The loop of \<open>insert\<close>; the list returned is what is still pushed to \<open>kept\<close>.\<close>

fun merge_spans :: "nat \<Rightarrow> nat \<Rightarrow> span list \<Rightarrow> span list" where
  "merge_spans merged_start merged_end [] = [(merged_start, merged_end)]"
| "merge_spans merged_start merged_end ((start, stop) # spans) =
     (if stop < merged_start then (start, stop) # merge_spans merged_start merged_end spans
      else if start > merged_end then (merged_start, merged_end) # merge_spans start stop spans
      else merge_spans (min merged_start start) (max merged_end stop) spans)"

definition spans_insert :: "processed_spans \<Rightarrow> nat \<Rightarrow> nat \<Rightarrow> processed_spans \<times> (processed_spans_error, unit) result" where
  "spans_insert self start stop =
     (if start \<ge> stop \<or> stop > ps_rows_total self then (self, Inl InvalidBounds)
      else (self\<lparr>ps_spans := merge_spans start stop (ps_spans self)\<rparr>, Inr ()))"

definition spans_contains :: "processed_spans \<Rightarrow> nat \<Rightarrow> bool" where
  "spans_contains self ordinal \<longleftrightarrow> list_ex (\<lambda>(start, stop). start \<le> ordinal \<and> ordinal < stop) (ps_spans self)"

fun add_span_len :: "nat \<Rightarrow> span list \<Rightarrow> nat option" where
  "add_span_len acc [] = Some acc"
| "add_span_len acc ((start, stop) # spans) =
     (if start > stop then None
      else if acc + (stop - start) \<ge> 2 ^ 64 then None
      else add_span_len (acc + (stop - start)) spans)"

definition processed_len :: "processed_spans \<Rightarrow> nat option" where
  "processed_len self = add_span_len 0 (ps_spans self)"

definition contiguous_frontier :: "processed_spans \<Rightarrow> nat" where
  "contiguous_frontier self =
     (case ps_spans self of [] \<Rightarrow> 0 | (start, stop) # _ \<Rightarrow> if start = 0 then stop else 0)"

definition is_complete :: "processed_spans \<Rightarrow> bool" where
  "is_complete self \<longleftrightarrow> contiguous_frontier self = ps_rows_total self"

fun runs_from :: "nat \<Rightarrow> nat \<Rightarrow> span list \<Rightarrow> span list" where
  "runs_from rows_total cursor [] = (if cursor < rows_total then [(cursor, rows_total)] else [])"
| "runs_from rows_total cursor ((start, stop) # spans) =
     (if cursor < start then [(cursor, start)] else []) @ runs_from rows_total stop spans"

definition unprocessed_runs :: "processed_spans \<Rightarrow> span list" where
  "unprocessed_runs self = runs_from (ps_rows_total self) 0 (ps_spans self)"

section \<open>Specification\<close>

text \<open>The set of ordinals a list of spans stands for, and the canonical lists.\<close>

definition span_set :: "span list \<Rightarrow> nat set" where
  "span_set spans = (\<Union>p \<in> set spans. {fst p..<snd p})"

definition canonical_spans :: "nat \<Rightarrow> span list \<Rightarrow> bool" where
  "canonical_spans rows spans \<longleftrightarrow>
     list_all (\<lambda>p. fst p < snd p \<and> snd p \<le> rows) spans \<and> sorted_wrt (\<lambda>p q. snd p < fst q) spans"

definition spans_wf :: "processed_spans \<Rightarrow> bool" where
  "spans_wf s \<longleftrightarrow> canonical_spans (ps_rows_total s) (ps_spans s)"

definition processed :: "processed_spans \<Rightarrow> nat set" where
  "processed s = span_set (ps_spans s)"

fun insert_all :: "processed_spans \<Rightarrow> span list \<Rightarrow> processed_spans" where
  "insert_all s [] = s"
| "insert_all s (p # ps) = insert_all (fst (spans_insert s (fst p) (snd p))) ps"

section \<open>Canonical spans\<close>

text \<open>All spans start at \<open>b\<close> or later.\<close>

definition spans_from :: "nat \<Rightarrow> span list \<Rightarrow> bool" where
  "spans_from b spans \<longleftrightarrow> list_all (\<lambda>q. b \<le> fst q) spans"

lemma spans_from_simps [simp]:
  "spans_from b []"
  "spans_from b (p # spans) \<longleftrightarrow> b \<le> fst p \<and> spans_from b spans"
  "spans_from 0 spans"
  by (simp_all add: spans_from_def list_all_iff)

lemma spans_from_mono: "spans_from b spans \<Longrightarrow> a \<le> b \<Longrightarrow> spans_from a spans"
  by (induction spans) auto

lemma span_set_simps [simp]:
  "span_set [] = {}"
  "span_set (p # spans) = {fst p..<snd p} \<union> span_set spans"
  by (simp_all add: span_set_def)

lemma canonical_simps [simp]:
  "canonical_spans rows []"
  "canonical_spans rows (p # spans) \<longleftrightarrow>
     fst p < snd p \<and> snd p \<le> rows \<and> spans_from (Suc (snd p)) spans \<and> canonical_spans rows spans"
  by (auto simp: canonical_spans_def spans_from_def list_all_iff Suc_le_eq)

lemma span_set_bounds: "canonical_spans rows spans \<Longrightarrow> x \<in> span_set spans \<Longrightarrow> x < rows"
  by (induction spans) auto

lemma span_set_above: "spans_from b spans \<Longrightarrow> x \<in> span_set spans \<Longrightarrow> b \<le> x"
  by (induction spans) auto

lemma finite_span_set [simp]: "finite (span_set spans)"
  by (simp add: span_set_def)

lemma check_spans_canonical:
  "check_spans rows prev spans = Inr () \<longleftrightarrow>
     canonical_spans rows spans \<and> (case prev of None \<Rightarrow> True | Some b \<Rightarrow> spans_from (Suc b) spans)"
proof (induction rows prev spans rule: check_spans.induct)
  case (2 rows prev start stop spans)
  have "spans_from (Suc stop) spans \<Longrightarrow> b < start \<Longrightarrow> start < stop \<Longrightarrow> spans_from (Suc b) spans" for b
    by (rule spans_from_mono [of "Suc stop"]) simp_all
  with 2 show ?case by (cases prev) (auto simp: not_le Suc_le_eq)
qed (simp split: option.split)

lemma merge_spans_from: "b \<le> ms \<Longrightarrow> spans_from b spans \<Longrightarrow> spans_from b (merge_spans ms me spans)"
  by (induction ms me spans rule: merge_spans.induct) auto

lemma merge_spans_canonical:
  "canonical_spans rows spans \<Longrightarrow> ms < me \<Longrightarrow> me \<le> rows \<Longrightarrow> canonical_spans rows (merge_spans ms me spans)"
proof (induction ms me spans rule: merge_spans.induct)
  case (2 ms me s e spans)
  then have spans: "canonical_spans rows spans" "s < e" "e \<le> rows" "spans_from (Suc e) spans" by auto
  consider "e < ms" | "\<not> e < ms" "me < s" | "\<not> e < ms" "\<not> me < s" by blast
  then show ?case
  proof cases
    case 1
    then show ?thesis using "2.IH"(1) "2.prems" spans merge_spans_from [of "Suc e" ms spans me] by simp
  next
    case 2
    then have "spans_from (Suc me) spans" using spans spans_from_mono [of "Suc e" spans "Suc me"] by simp
    then show ?thesis using 2 "2.IH"(2) "2.prems" spans merge_spans_from [of "Suc me" s spans e] by simp
  next
    case 3
    then show ?thesis using "2.IH"(3) "2.prems" spans by simp
  qed
qed simp

lemma merge_spans_set:
  "canonical_spans rows spans \<Longrightarrow> ms < me \<Longrightarrow> span_set (merge_spans ms me spans) = {ms..<me} \<union> span_set spans"
  by (induction ms me spans rule: merge_spans.induct) auto

text \<open>A set of ordinals has one canonical list.\<close>

lemma canonical_head:
  assumes "canonical_spans rows ((s, e) # spans)"
  shows "s = (LEAST x. x \<in> span_set ((s, e) # spans))" and "e = (LEAST x. s < x \<and> x \<notin> span_set ((s, e) # spans))"
proof -
  from assms have *: "s < e" "\<forall>x \<in> span_set spans. e < x" by (auto dest: span_set_above)
  then show "s = (LEAST x. x \<in> span_set ((s, e) # spans))" by (intro Least_equality [symmetric]) auto
  from * show "e = (LEAST x. s < x \<and> x \<notin> span_set ((s, e) # spans))" by (intro Least_equality [symmetric]) auto
qed

lemma canonical_unique:
  "canonical_spans rows xs \<Longrightarrow> canonical_spans rows ys \<Longrightarrow> span_set xs = span_set ys \<Longrightarrow> xs = ys"
proof (induction xs arbitrary: ys)
  case Nil
  then show ?case by (cases ys) auto
next
  case (Cons p xs)
  obtain s e where p: "p = (s, e)" by fastforce
  obtain q ys' where ys: "ys = q # ys'" using Cons.prems p by (cases ys) auto
  obtain s' e' where q: "q = (s', e')" by fastforce
  have s: "s' = s" using Cons.prems p ys q canonical_head(1) by metis
  have e: "e' = e" using Cons.prems p ys q s canonical_head(2) by metis
  have "\<forall>x \<in> span_set xs. e < x" "\<forall>x \<in> span_set ys'. e < x"
    using Cons.prems p ys q e by (auto dest: span_set_above)
  then have "span_set xs = span_set (p # xs) - {..e}" "span_set ys' = span_set ys - {..e}"
    using p ys q e by auto
  then have "span_set xs = span_set ys'" using Cons.prems(3) by simp
  with Cons.IH [of ys'] Cons.prems show ?case by (simp add: p ys q s e)
qed

section \<open>The operations on the set of ordinals\<close>

lemma insert_step:
  assumes "spans_wf s"
  shows "spans_wf (fst (spans_insert s a b))" and "ps_rows_total (fst (spans_insert s a b)) = ps_rows_total s"
    and "processed (fst (spans_insert s a b)) = processed s \<union> (if b \<le> ps_rows_total s then {a..<b} else {})"
  using assms merge_spans_canonical [of "ps_rows_total s" "ps_spans s" a b] merge_spans_set [of "ps_rows_total s" "ps_spans s" a b]
  by (auto simp: spans_insert_def spans_wf_def processed_def)

lemma insert_all_step:
  "spans_wf s \<Longrightarrow> spans_wf (insert_all s ps) \<and> ps_rows_total (insert_all s ps) = ps_rows_total s
     \<and> processed (insert_all s ps) = processed s \<union> span_set (filter (\<lambda>p. snd p \<le> ps_rows_total s) ps)"
  by (induction ps arbitrary: s) (auto simp: insert_step)

lemma spans_wf_new [simp]: "spans_wf (spans_new n)" "processed (spans_new n) = {}" "ps_rows_total (spans_new n) = n"
  by (simp_all add: spans_wf_def spans_new_def processed_def)

lemma contains_processed: "spans_contains s x \<longleftrightarrow> x \<in> processed s"
  by (auto simp: spans_contains_def processed_def span_set_def list_ex_iff case_prod_beta)

lemma span_set_disjoint: "spans_from b spans \<Longrightarrow> {a..<b} \<inter> span_set spans = {}"
  by (auto dest: span_set_above)

lemma span_set_card: "canonical_spans rows spans \<Longrightarrow> card (span_set spans) \<le> rows"
  using card_mono [of "{..<rows}" "span_set spans"] by (force dest: span_set_bounds)

lemma span_card_Cons:
  assumes "canonical_spans rows (p # spans)"
  shows "card (span_set (p # spans)) = (snd p - fst p) + card (span_set spans)"
proof -
  have "spans_from (snd p) spans" using assms by (auto intro: spans_from_mono)
  then show ?thesis by (simp add: card_Un_disjoint span_set_disjoint)
qed

lemma add_span_len_card:
  "canonical_spans rows spans \<Longrightarrow> acc + card (span_set spans) < 2 ^ 64 \<Longrightarrow>
   add_span_len acc spans = Some (acc + card (span_set spans))"
proof (induction acc spans rule: add_span_len.induct)
  case (2 acc start stop spans)
  obtain n where n: "stop = start + n" using "2.prems"(1) by (metis canonical_simps(2) fst_conv le_iff_add less_imp_le snd_conv)
  with "2.prems" span_card_Cons [OF "2.prems"(1)] have "acc + n + card (span_set spans) < 2 ^ 64" by (simp del: span_set_simps)
  with 2 n span_card_Cons [OF "2.prems"(1)] show ?case by (simp del: span_set_simps add: add.assoc)
qed simp

lemma runs_complement:
  "canonical_spans rows spans \<Longrightarrow> cursor \<le> rows \<Longrightarrow> spans_from cursor spans \<Longrightarrow>
   span_set (runs_from rows cursor spans) = {cursor..<rows} - span_set spans"
proof (induction rows cursor spans rule: runs_from.induct)
  case (2 rows cursor start stop spans)
  then have spans: "spans_from (Suc stop) spans" "start < stop" "stop \<le> rows" "cursor \<le> start" by auto
  then have "spans_from stop spans" by (auto intro: spans_from_mono)
  with 2 have "span_set (runs_from rows stop spans) = {stop..<rows} - span_set spans" by simp
  moreover have "{cursor..<start} \<inter> span_set spans = {}" using spans span_set_above [OF spans(1)] by fastforce
  ultimately show ?case using spans by auto
qed auto

lemma runs_above: "canonical_spans rows spans \<Longrightarrow> b \<le> cursor \<Longrightarrow> spans_from cursor spans \<Longrightarrow> spans_from b (runs_from rows cursor spans)"
proof (induction rows cursor spans rule: runs_from.induct)
  case (2 rows cursor start stop spans)
  then have "spans_from stop spans" "b \<le> stop" by (auto intro: spans_from_mono)
  with 2 show ?case by simp
qed simp

lemma runs_canonical:
  "canonical_spans rows spans \<Longrightarrow> spans_from cursor spans \<Longrightarrow> canonical_spans rows (runs_from rows cursor spans)"
proof (induction rows cursor spans rule: runs_from.induct)
  case (2 rows cursor start stop spans)
  then have "spans_from stop spans" by (auto intro: spans_from_mono)
  with 2 runs_above [of rows spans "Suc start" stop] show ?case by (simp add: Suc_le_eq)
qed simp

lemma frontier_prefix:
  assumes "canonical_spans rows spans"
  defines "f \<equiv> case spans of [] \<Rightarrow> 0 | (start, stop) # _ \<Rightarrow> if start = 0 then stop else 0"
  shows "{..<f} \<subseteq> span_set spans" and "f \<notin> span_set spans" and "f \<le> rows"
proof -
  have *: "stop \<notin> span_set xs" if "spans_from (Suc stop) xs" for stop xs using span_set_above [OF that] by fastforce
  show "{..<f} \<subseteq> span_set spans" "f \<notin> span_set spans" "f \<le> rows"
    using assms(1) * by (auto simp: f_def split: list.split) (metis * not_gr_zero spans_from_mono zero_less_Suc Suc_leI)
qed

text \<open>
  C22: Processed spans refine a set of ordinals. Inserting spans one after the other gives a state whose spans are
  the canonical representation of the ordinals covered before and by the spans within the artifact,
  and two states with the same ordinals are equal, so progress does not depend on the order or the
  repetition of insertions.
\<close>

theorem insert_refines_union:
  assumes "spans_wf s" and "spans_wf t" and "ps_rows_total t = ps_rows_total s"
    and "processed t = processed s \<union> span_set (filter (\<lambda>p. snd p \<le> ps_rows_total s) ps)"
  shows "insert_all s ps = t"
proof -
  note step = insert_all_step [OF assms(1), of ps]
  have "ps_spans (insert_all s ps) = ps_spans t"
    by (rule canonical_unique [of "ps_rows_total s"]) (use step assms in \<open>auto simp: spans_wf_def processed_def\<close>)
  with step assms(3) show ?thesis by (cases t; cases "insert_all s ps") simp
qed

theorem insert_refines_union_witness:
  "insert_all (spans_new 10) [(6, 8), (0, 2), (9, 12), (1, 6)] = \<lparr>ps_rows_total = 10, ps_spans = [(0, 8)]\<rparr>"
proof (rule insert_refines_union)
  show "processed \<lparr>ps_rows_total = 10, ps_spans = [(0, 8)]\<rparr> = processed (spans_new 10) \<union>
      span_set (filter (\<lambda>p. snd p \<le> ps_rows_total (spans_new 10)) [(6, 8), (0, 2), (9, 12), (1, 6)])"
    by (auto simp: processed_def spans_new_def)
qed (simp_all add: spans_wf_def spans_new_def)

text \<open>
  C38: The persisted form is accepted exactly when it is canonical: every span is non-empty and
  within the artifact, and each starts after the end of the one before, with a gap. What is accepted
  is kept as it is.
\<close>

theorem from_spans_accepts_canonical:
  "from_spans rows spans = Inr s \<longleftrightarrow> spans_wf s \<and> s = \<lparr>ps_rows_total = rows, ps_spans = spans\<rparr>"
  using check_spans_canonical [of rows None spans] by (auto simp: from_spans_def res_simps spans_wf_def)

text \<open>
  C37: \<open>processed_len\<close> does not panic and is the number of processed ordinals, at most the number of
  rows, for every artifact of at most \<open>u64::MAX\<close> rows.
\<close>

theorem processed_len_bounds:
  assumes "spans_wf s" and "ps_rows_total s < 2 ^ 64"
  shows "\<exists>n. processed_len s = Some n \<and> n = card (processed s) \<and> n \<le> ps_rows_total s"
  using assms add_span_len_card [of "ps_rows_total s" "ps_spans s" 0] span_set_card [of "ps_rows_total s" "ps_spans s"]
  by (simp add: spans_wf_def processed_def processed_len_def)

theorem processed_len_bounds_witness:
  "\<exists>n. processed_len \<lparr>ps_rows_total = 2 ^ 64 - 1, ps_spans = [(0, 3), (5, 2 ^ 64 - 1)]\<rparr> = Some n
    \<and> n = card (processed \<lparr>ps_rows_total = 2 ^ 64 - 1, ps_spans = [(0, 3), (5, 2 ^ 64 - 1)]\<rparr>)"
proof -
  let ?s = "\<lparr>ps_rows_total = 2 ^ 64 - 1, ps_spans = [(0, 3), (5, 2 ^ 64 - 1)]\<rparr> :: processed_spans"
  have "spans_wf ?s" "ps_rows_total ?s < 2 ^ 64" by (simp_all add: spans_wf_def)
  from processed_len_bounds [OF this] show ?thesis by blast
qed

text \<open>
  The unprocessed runs are again canonical spans, they are the rows that have not been processed,
  there are none of them exactly when the artifact is complete, and the frontier is the first row
  that is not processed.
\<close>

theorem unprocessed_runs_complement:
  assumes "spans_wf s"
  shows "canonical_spans (ps_rows_total s) (unprocessed_runs s)
    \<and> span_set (unprocessed_runs s) = {..<ps_rows_total s} - processed s
    \<and> (is_complete s \<longleftrightarrow> unprocessed_runs s = [])
    \<and> {..<contiguous_frontier s} \<subseteq> processed s \<and> contiguous_frontier s \<notin> processed s"
proof -
  let ?rows = "ps_rows_total s" and ?xs = "ps_spans s"
  have wf: "canonical_spans ?rows ?xs" using assms by (simp add: spans_wf_def)
  have runs: "canonical_spans ?rows (unprocessed_runs s)" "span_set (unprocessed_runs s) = {..<?rows} - processed s"
    using runs_canonical [OF wf, of 0] runs_complement [OF wf, of 0]
    by (simp_all add: unprocessed_runs_def processed_def lessThan_atLeast0)
  have front: "{..<contiguous_frontier s} \<subseteq> processed s" "contiguous_frontier s \<notin> processed s" "contiguous_frontier s \<le> ?rows"
    using frontier_prefix [OF wf] by (simp_all add: contiguous_frontier_def processed_def)
  have "unprocessed_runs s = [] \<longleftrightarrow> {..<?rows} \<subseteq> processed s"
    using canonical_unique [OF runs(1) canonical_simps(1)] runs(2) by (metis Diff_eq_empty_iff span_set_simps(1))
  moreover have "is_complete s \<longleftrightarrow> {..<?rows} \<subseteq> processed s"
    unfolding is_complete_def using front by (metis lessThan_iff nat_less_le subsetD)
  ultimately have "is_complete s \<longleftrightarrow> unprocessed_runs s = []" by simp
  with runs front show ?thesis by blast
qed

theorem unprocessed_runs_complement_witness:
  "span_set [(0, 2), (4, 5), (7, 9)] = {..<9} - processed \<lparr>ps_rows_total = 9, ps_spans = [(2, 4), (5, 7)]\<rparr>"
proof -
  let ?s = "\<lparr>ps_rows_total = 9, ps_spans = [(2, 4), (5, 7)]\<rparr> :: processed_spans"
  have "unprocessed_runs ?s = [(0, 2), (4, 5), (7, 9)]" by code_simp
  with unprocessed_runs_complement [of ?s] show ?thesis by (simp add: spans_wf_def)
qed

end
