(* ===== verification/Epoch_Overlay.thy ===== *)
theory Epoch_Overlay
  imports Velorix_Prelude
begin

text \<open>
  The write set of an epoch over a committed map (\<open>velorix-runtime/src/epoch_overlay.rs\<close>). The base is
  borrowed immutably, so no operation can change it. A mutable reference into the overlay is the
  update its holder makes through it; \<open>None\<close> is a panic.

  Committing gives the map that the reads of the overlay describe, and the merged iterator lists it.
\<close>

section \<open>Definitions\<close>

datatype 'v overlay_write = Put 'v | Delete

record ('k, 'v) epoch_overlay =
  eo_base :: "('k, 'v) btree_map"
  eo_writes :: "('k, 'v overlay_write) btree_map"

definition overlay_new :: "('k, 'v) btree_map \<Rightarrow> ('k, 'v) epoch_overlay" where
  "overlay_new base = \<lparr>eo_base = base, eo_writes = []\<rparr>"

definition overlay_get :: "('k, 'v) epoch_overlay \<Rightarrow> 'k \<Rightarrow> 'v option" where
  "overlay_get self key =
     (case bt_get (eo_writes self) key of
        Some (Put v) \<Rightarrow> Some v
      | Some Delete \<Rightarrow> None
      | None \<Rightarrow> bt_get (eo_base self) key)"

definition get_or_insert_mut :: "'v \<Rightarrow> ('k::linorder, 'v) epoch_overlay \<Rightarrow> 'k \<Rightarrow> ('v \<Rightarrow> 'v) \<Rightarrow> ('k, 'v) epoch_overlay option" where
  "get_or_insert_mut dflt self key f =
     (let writes = (if bt_get (eo_writes self) key = None
                    then bt_insert key (Put (case bt_get (eo_base self) key of Some v \<Rightarrow> v | None \<Rightarrow> dflt)) (eo_writes self)
                    else eo_writes self) in
      case bt_get writes key of
        Some (Put v) \<Rightarrow> Some (self\<lparr>eo_writes := bt_insert key (Put (f v)) writes\<rparr>)
      | _ \<Rightarrow> None)"

definition get_or_create :: "'v \<Rightarrow> ('k::linorder, 'v) epoch_overlay \<Rightarrow> 'k \<Rightarrow> ('v \<Rightarrow> 'v) \<Rightarrow> ('k, 'v) epoch_overlay option" where
  "get_or_create = get_or_insert_mut"

definition overlay_insert :: "('k::linorder, 'v) epoch_overlay \<Rightarrow> 'k \<Rightarrow> 'v \<Rightarrow> ('k, 'v) epoch_overlay" where
  "overlay_insert self key v = self\<lparr>eo_writes := bt_insert key (Put v) (eo_writes self)\<rparr>"

definition overlay_remove :: "('k::linorder, 'v) epoch_overlay \<Rightarrow> 'k \<Rightarrow> ('k, 'v) epoch_overlay" where
  "overlay_remove self key = self\<lparr>eo_writes := bt_insert key Delete (eo_writes self)\<rparr>"

definition overlay_contains_key :: "('k, 'v) epoch_overlay \<Rightarrow> 'k \<Rightarrow> bool" where
  "overlay_contains_key self key =
     (case bt_get (eo_writes self) key of
        Some (Put _) \<Rightarrow> True
      | Some Delete \<Rightarrow> False
      | None \<Rightarrow> bt_get (eo_base self) key \<noteq> None)"

definition write_count :: "('k, 'v) epoch_overlay \<Rightarrow> nat" where
  "write_count self = length (eo_writes self)"

definition overlay_is_empty :: "('k, 'v) epoch_overlay \<Rightarrow> bool" where
  "overlay_is_empty self \<longleftrightarrow> eo_writes self = []"

fun commit_write :: "'k::linorder \<times> 'v overlay_write \<Rightarrow> ('k, 'v) btree_map \<Rightarrow> ('k, 'v) btree_map" where
  "commit_write (key, Put v) result = bt_insert key v result"
| "commit_write (key, Delete) result = bt_remove key result"

definition overlay_commit :: "('k::linorder, 'v) epoch_overlay \<Rightarrow> ('k, 'v) btree_map" where
  "overlay_commit self = fold commit_write (eo_writes self) (eo_base self)"

definition put_of :: "'k \<times> 'v overlay_write \<Rightarrow> ('k \<times> 'v) option" where
  "put_of kw = (case snd kw of Put v \<Rightarrow> Some (fst kw, v) | Delete \<Rightarrow> None)"

definition merged_iter :: "('k::linorder, 'v) epoch_overlay \<Rightarrow> ('k \<times> 'v) list" where
  "merged_iter self = bt_collect
     (filter (\<lambda>(k, _). \<not> (case bt_get (eo_writes self) k of Some Delete \<Rightarrow> True | _ \<Rightarrow> False)) (eo_base self)
      @ List.map_filter put_of (eo_writes self))"

section \<open>Specification\<close>

text \<open>A sequence of mutations, on the overlay and directly on a copy of the map.\<close>

datatype ('k, 'v) overlay_step = Insert 'k 'v | Remove 'k | Update 'k "'v \<Rightarrow> 'v"

fun overlay_run :: "'v \<Rightarrow> ('k::linorder, 'v) epoch_overlay \<Rightarrow> ('k, 'v) overlay_step list \<Rightarrow> ('k, 'v) epoch_overlay option" where
  "overlay_run d ov [] = Some ov"
| "overlay_run d ov (Insert k v # ops) = overlay_run d (overlay_insert ov k v) ops"
| "overlay_run d ov (Remove k # ops) = overlay_run d (overlay_remove ov k) ops"
| "overlay_run d ov (Update k f # ops) =
     (case get_or_insert_mut d ov k f of None \<Rightarrow> None | Some ov' \<Rightarrow> overlay_run d ov' ops)"

fun direct_run :: "'v \<Rightarrow> ('k::linorder, 'v) btree_map \<Rightarrow> ('k, 'v) overlay_step list \<Rightarrow> ('k, 'v) btree_map" where
  "direct_run d m [] = m"
| "direct_run d m (Insert k v # ops) = direct_run d (bt_insert k v m) ops"
| "direct_run d m (Remove k # ops) = direct_run d (bt_remove k m) ops"
| "direct_run d m (Update k f # ops) = direct_run d (bt_insert k (f (case bt_get m k of Some v \<Rightarrow> v | None \<Rightarrow> d)) m) ops"

definition overlay_wf :: "('k::linorder, 'v) epoch_overlay \<Rightarrow> bool" where
  "overlay_wf ov \<longleftrightarrow> bt_wf (eo_base ov) \<and> bt_wf (eo_writes ov)"

section \<open>Reads, commit and iteration\<close>

lemma get_or_insert_mut_cases:
  "get_or_insert_mut d ov k f =
     (case bt_get (eo_writes ov) k of
        None \<Rightarrow> (let v = case bt_get (eo_base ov) k of Some v \<Rightarrow> v | None \<Rightarrow> d in
          Some (ov\<lparr>eo_writes := bt_insert k (Put (f v)) (bt_insert k (Put v) (eo_writes ov))\<rparr>))
      | Some (Put v) \<Rightarrow> Some (ov\<lparr>eo_writes := bt_insert k (Put (f v)) (eo_writes ov)\<rparr>)
      | Some Delete \<Rightarrow> None)"
  by (cases "bt_get (eo_writes ov) k") (simp_all add: get_or_insert_mut_def Let_def)

lemma overlay_wf_ops:
  "bt_wf base \<Longrightarrow> overlay_wf (overlay_new base)"
  "overlay_wf ov \<Longrightarrow> overlay_wf (overlay_insert ov k v)"
  "overlay_wf ov \<Longrightarrow> overlay_wf (overlay_remove ov k)"
  by (simp_all add: overlay_wf_def overlay_new_def overlay_insert_def overlay_remove_def)

lemma overlay_get_ops:
  "overlay_get (overlay_new base) k' = bt_get base k'"
  "overlay_get (overlay_insert ov k v) k' = (if k' = k then Some v else overlay_get ov k')"
  "overlay_get (overlay_remove ov k) k' = (if k' = k then None else overlay_get ov k')"
  by (simp_all add: overlay_get_def overlay_new_def overlay_insert_def overlay_remove_def split: option.split overlay_write.split)

lemma overlay_update:
  assumes "get_or_insert_mut d ov k f = Some ov'"
  shows "overlay_wf ov \<Longrightarrow> overlay_wf ov'"
    and "overlay_get ov' k' = (if k' = k then Some (f (case overlay_get ov k of Some v \<Rightarrow> v | None \<Rightarrow> d)) else overlay_get ov k')"
proof -
  obtain v ws where ov': "ov' = ov\<lparr>eo_writes := bt_insert k (Put (f v)) ws\<rparr>"
    and v: "v = (case overlay_get ov k of Some v \<Rightarrow> v | None \<Rightarrow> d)"
    and ws: "ws = eo_writes ov \<or> ws = bt_insert k (Put v) (eo_writes ov)"
  proof (cases "bt_get (eo_writes ov) k")
    case None
    let ?v = "case overlay_get ov k of Some v \<Rightarrow> v | None \<Rightarrow> d"
    from None assms show thesis
      by (intro that [of ?v "bt_insert k (Put ?v) (eo_writes ov)"]) (simp_all add: get_or_insert_mut_cases Let_def overlay_get_def)
  next
    case (Some w)
    with assms show thesis
      by (cases w) (auto intro!: that [of _ "eo_writes ov"] simp: get_or_insert_mut_cases overlay_get_def)
  qed
  show "overlay_wf ov \<Longrightarrow> overlay_wf ov'" using ws by (auto simp: ov' overlay_wf_def)
  have base: "eo_base ov' = eo_base ov" by (simp add: ov')
  show "overlay_get ov' k' = (if k' = k then Some (f (case overlay_get ov k of Some v \<Rightarrow> v | None \<Rightarrow> d)) else overlay_get ov k')"
    using ws unfolding overlay_get_def [of ov'] base by (auto simp: ov' v overlay_get_def [of ov k'])
qed

lemma overlay_run_direct:
  "overlay_wf ov \<Longrightarrow> bt_wf m \<Longrightarrow> overlay_get ov = bt_get m \<Longrightarrow> overlay_run d ov ops = Some ov' \<Longrightarrow>
   overlay_wf ov' \<and> bt_wf (direct_run d m ops) \<and> overlay_get ov' = bt_get (direct_run d m ops)"
proof (induction d ov ops arbitrary: m rule: overlay_run.induct)
  case (2 d ov k v ops)
  have "overlay_get (overlay_insert ov k v) = bt_get (bt_insert k v m)" using 2 by (auto simp: overlay_get_ops)
  from "2.IH" [OF overlay_wf_ops(2) [OF "2.prems"(1)] bt_wf_insert [OF "2.prems"(2)] this] "2.prems"(4) show ?case by simp
next
  case (3 d ov k ops)
  have "overlay_get (overlay_remove ov k) = bt_get (bt_remove k m)" using 3 by (auto simp: overlay_get_ops bt_get_remove)
  from "3.IH" [OF overlay_wf_ops(3) [OF "3.prems"(1)] bt_wf_remove [OF "3.prems"(2)] this] "3.prems"(4) show ?case by simp
next
  case (4 d ov k f ops)
  from "4.prems"(4) obtain ov1 where ov1: "get_or_insert_mut d ov k f = Some ov1" "overlay_run d ov1 ops = Some ov'"
    by (auto split: option.splits)
  have "overlay_get ov1 = bt_get (bt_insert k (f (case bt_get m k of Some v \<Rightarrow> v | None \<Rightarrow> d)) m)"
    using overlay_update(2) [OF ov1(1)] "4.prems"(3) by auto
  from "4.IH" [OF ov1(1) overlay_update(1) [OF ov1(1) "4.prems"(1)] bt_wf_insert [OF "4.prems"(2)] this ov1(2)]
  show ?case by simp
qed simp

lemma bt_wf_distinct: "bt_wf m \<Longrightarrow> distinct (map fst m)"
  by (simp add: bt_wf_def strict_sorted_iff)

lemma commit_fold:
  assumes "bt_wf m" and "distinct (map fst ws)"
  shows "bt_wf (fold commit_write ws m) \<and> (\<forall>k. bt_get (fold commit_write ws m) k =
    (case bt_get ws k of Some (Put v) \<Rightarrow> Some v | Some Delete \<Rightarrow> None | None \<Rightarrow> bt_get m k))"
  using assms
proof (induction ws arbitrary: m)
  case (Cons kw ws)
  obtain k w where kw: "kw = (k, w)" by fastforce
  have "bt_wf (commit_write kw m)" "bt_get ws k = None"
    using Cons.prems by (cases w; simp add: kw map_of_eq_None_iff)+
  with Cons.IH [of "commit_write kw m"] Cons.prems show ?case
    by (cases w) (auto simp: kw bt_get_remove split: option.split)
qed simp

lemma commit_get:
  assumes "overlay_wf ov"
  shows "bt_wf (overlay_commit ov)" and "bt_get (overlay_commit ov) k = overlay_get ov k"
  using assms commit_fold [of "eo_base ov" "eo_writes ov"] bt_wf_distinct
  by (auto simp: overlay_wf_def overlay_commit_def overlay_get_def)

lemma map_of_rev_distinct: "distinct (map fst xs) \<Longrightarrow> map_of (rev xs) k = map_of xs k"
  using map_of_eq_Some_iff [of xs k] map_of_eq_Some_iff [of "rev xs" k]
  by (cases "map_of xs k"; cases "map_of (rev xs) k") (simp_all add: rev_map [symmetric])

lemma map_of_filter_key: "map_of (filter (\<lambda>(k, v). P k) xs) k = (if P k then map_of xs k else None)"
  by (induction xs) auto

lemma puts_keys: "fst ` set (List.map_filter put_of ws) \<subseteq> fst ` set ws"
  by (force simp: List.map_filter_def put_of_def split: overlay_write.splits)

lemma put_of_simps [simp]: "put_of (k, Put v) = Some (k, v)" "put_of (k, Delete) = None"
  by (simp_all add: put_of_def)

lemma map_of_puts:
  "distinct (map fst ws) \<Longrightarrow> distinct (map fst (List.map_filter put_of ws)) \<and> map_of (List.map_filter put_of ws) k =
     (case bt_get ws k of Some (Put v) \<Rightarrow> Some v | _ \<Rightarrow> None)"
proof (induction ws)
  case (Cons kw ws)
  obtain a w where kw: "kw = (a, w)" by fastforce
  then have "a \<notin> fst ` set ws" using Cons.prems by simp
  then have "a \<notin> fst ` set (List.map_filter put_of ws)" "bt_get ws a = None" "map_of (List.map_filter put_of ws) a = None"
    using puts_keys [of ws] by (auto simp only: map_of_eq_None_iff)
  with Cons show ?case by (cases w) (simp_all add: kw)
qed simp

lemma merged_get:
  assumes "overlay_wf ov"
  shows "bt_get (merged_iter ov) k = overlay_get ov k"
proof -
  let ?keep = "\<lambda>k. \<not> (case bt_get (eo_writes ov) k of Some Delete \<Rightarrow> True | _ \<Rightarrow> False)"
  have base: "distinct (map fst (eo_base ov))" "distinct (map fst (eo_writes ov))"
    using assms bt_wf_distinct by (auto simp: overlay_wf_def)
  have kept: "map_of (rev (filter (\<lambda>(k, _). ?keep k) (eo_base ov))) k = (if ?keep k then bt_get (eo_base ov) k else None)"
    using map_of_rev_distinct [OF distinct_map_filter [OF base(1)], of "\<lambda>(k, _). ?keep k" k] map_of_filter_key [of ?keep "eo_base ov" k]
    by simp
  have puts: "map_of (rev (List.map_filter put_of (eo_writes ov))) k = (case bt_get (eo_writes ov) k of Some (Put v) \<Rightarrow> Some v | _ \<Rightarrow> None)"
    using map_of_puts [OF base(2), of k] map_of_rev_distinct [of "List.map_filter put_of (eo_writes ov)" k] by simp
  show ?thesis
    unfolding merged_iter_def bt_get_collect rev_append map_of_append map_add_def kept puts
    by (simp add: overlay_get_def split: option.split overlay_write.split)
qed

text \<open>
  C23: Working through an overlay and committing it is the same as applying the mutations to a copy
  of the committed map. On the way the reads of the overlay and its merged iterator already show
  that map.
\<close>

theorem overlay_refines_map:
  assumes "bt_wf base" and "overlay_run d (overlay_new base) ops = Some ov"
  shows "overlay_commit ov = direct_run d base ops \<and> merged_iter ov = direct_run d base ops
    \<and> overlay_get ov k = bt_get (direct_run d base ops) k
    \<and> (overlay_contains_key ov k \<longleftrightarrow> bt_get (direct_run d base ops) k \<noteq> None)"
proof -
  have get: "overlay_get (overlay_new base) = bt_get base" by (simp add: fun_eq_iff overlay_get_ops)
  from overlay_run_direct [OF overlay_wf_ops(1) [OF assms(1)] assms(1) get assms(2)]
  have wf: "overlay_wf ov" "bt_wf (direct_run d base ops)" and reads: "overlay_get ov = bt_get (direct_run d base ops)" by blast+
  have "overlay_commit ov = direct_run d base ops"
    by (rule bt.entries_ext [OF commit_get(1) [OF wf(1)] wf(2)]) (simp add: commit_get(2) [OF wf(1)] reads)
  moreover have "merged_iter ov = direct_run d base ops"
  proof (rule bt.entries_ext [OF _ wf(2)])
    show "bt_wf (merged_iter ov)" by (simp add: merged_iter_def)
  qed (simp add: merged_get [OF wf(1)] reads)
  moreover have "overlay_contains_key ov k \<longleftrightarrow> overlay_get ov k \<noteq> None"
    by (simp add: overlay_contains_key_def overlay_get_def split: option.split overlay_write.split)
  ultimately show ?thesis using reads by simp
qed

definition overlay_sample :: "(nat, int) overlay_step list" where
  "overlay_sample = [Insert 3 30, Update 1 (\<lambda>v. v + 1), Remove 2, Update 5 (\<lambda>v. v - 4)]"

theorem overlay_refines_map_witness:
  "\<exists>ov. overlay_run 0 (overlay_new [(1, 10), (2, 20)]) overlay_sample = Some ov
     \<and> overlay_commit ov = [(1, 11), (3, 30), (5, - 4)]"
proof -
  have "overlay_run 0 (overlay_new [(1, 10), (2, 20)]) overlay_sample \<noteq> None" by code_simp
  then obtain ov where run: "overlay_run 0 (overlay_new [(1, 10), (2, 20)]) overlay_sample = Some ov" by blast
  have "bt_wf [(1 :: nat, 10 :: int), (2, 20)]" by code_simp
  moreover have "direct_run 0 [(1, 10), (2, 20)] overlay_sample = [(1, 11), (3, 30), (5, - 4)]" by code_simp
  ultimately show ?thesis using overlay_refines_map [OF _ run] run by simp
qed

text \<open>
  A mutable access to a key panics exactly when the overlay holds a deletion of it, so a key that
  was removed in an epoch cannot be created again through \<open>get_or_create\<close> in that epoch.
\<close>

theorem get_or_create_panics:
  "get_or_create d ov k f = None \<longleftrightarrow> bt_get (eo_writes ov) k = Some Delete"
  by (simp add: get_or_create_def get_or_insert_mut_cases Let_def split: option.split overlay_write.split)

end
