(* ===== verification/Lease.thy ===== *)
theory Lease
  imports Velorix_Prelude
begin

text \<open>
  Partition leases (\<open>velorix-control/src/lease.rs\<close>): the in-memory client with its three calls. The
  calls lock one mutex, so every interleaving of clients is a sequence of calls; \<open>lease_reach\<close> lists
  the lease tables such sequences reach and the grants they have issued. 64-bit unsigned fields are
  natural numbers with the checked additions written out. The clock is what each caller says it is,
  and need not advance.

  The owner epochs of one key never decrease, and an epoch belongs to one owner. A lease that has
  run out can be taken over.
\<close>

section \<open>Definitions\<close>

record partition_lease_key =
  lk_namespace :: string
  lk_view_id :: string
  lk_stream_id :: string
  lk_partition_id :: nat

record partition_lease_grant =
  lg_key :: partition_lease_key
  lg_owner_id :: string
  lg_owner_epoch :: nat
  lg_expires_at_unix_ms :: nat

record lease_acquire_request =
  la_key :: partition_lease_key
  la_owner_id :: string
  la_now_unix_ms :: nat
  la_ttl_ms :: nat

datatype lease_backend_kind = InMemoryDev | KubernetesLease

record production_ownership_backend_config =
  pb_lease_backend :: lease_backend_kind
  pb_supports_durable_epoch_records :: bool

datatype lease_error =
    InvalidLeaseKey string
  | InvalidOwnerId
  | InvalidTtl nat
  | LeaseTimeOverflow nat nat
  | OwnerEpochOverflow partition_lease_grant
  | Conflict partition_lease_grant
  | NotLeaseHolder partition_lease_grant
  | LeaseNotHeld
  | ProductionLeaseBackendNotDurable lease_backend_kind
  | ProductionOwnershipMissingDurableEpochRecords

definition validate_production_ownership_backend :: "production_ownership_backend_config \<Rightarrow> (lease_error, unit) result" where
  "validate_production_ownership_backend config =
     (if pb_lease_backend config = InMemoryDev then Inl (ProductionLeaseBackendNotDurable (pb_lease_backend config))
      else if \<not> pb_supports_durable_epoch_records config then Inl ProductionOwnershipMissingDurableEpochRecords
      else Inr ())"

record partition_owner_claim =
  oc_owner_id :: string
  oc_owner_epoch :: nat

definition claim_from_grant :: "partition_lease_grant \<Rightarrow> partition_owner_claim" where
  "claim_from_grant grant = \<lparr>oc_owner_id = lg_owner_id grant, oc_owner_epoch = lg_owner_epoch grant\<rparr>"

definition validate_key_field :: "string \<Rightarrow> string \<Rightarrow> (lease_error, unit) result" where
  "validate_key_field field v = (if blank v then Inl (InvalidLeaseKey field) else Inr ())"

definition validate_key :: "partition_lease_key \<Rightarrow> (lease_error, unit) result" where
  "validate_key key =
     rbind (validate_key_field ''namespace'' (lk_namespace key)) (\<lambda>_.
     rbind (validate_key_field ''view_id'' (lk_view_id key)) (\<lambda>_.
     rbind (validate_key_field ''stream_id'' (lk_stream_id key)) (\<lambda>_. Inr ())))"

definition validate_owner_id :: "string \<Rightarrow> (lease_error, unit) result" where
  "validate_owner_id owner_id = (if blank owner_id then Inl InvalidOwnerId else Inr ())"

type_synonym leases = "partition_lease_key \<Rightarrow> partition_lease_grant option"

definition u64_checked_add :: "nat \<Rightarrow> nat \<Rightarrow> nat option" where
  "u64_checked_add a b = (if a + b < 2 ^ 64 then Some (a + b) else None)"

text \<open>The grant that \<open>acquire_or_renew\<close> chooses from the entry of the key.\<close>

definition next_grant :: "partition_lease_grant option \<Rightarrow> lease_acquire_request \<Rightarrow> nat \<Rightarrow>
    (lease_error, partition_lease_grant) result" where
  "next_grant entry request expires_at_unix_ms =
     (case entry of
        Some current \<Rightarrow>
          if lg_expires_at_unix_ms current > la_now_unix_ms request then
            (if lg_owner_id current \<noteq> la_owner_id request then Inl (Conflict current)
             else Inr \<lparr>lg_key = la_key request, lg_owner_id = la_owner_id request,
                        lg_owner_epoch = lg_owner_epoch current, lg_expires_at_unix_ms = expires_at_unix_ms\<rparr>)
          else
            rbind (ok_or (OwnerEpochOverflow current) (u64_checked_add (lg_owner_epoch current) 1)) (\<lambda>owner_epoch.
              Inr \<lparr>lg_key = la_key request, lg_owner_id = la_owner_id request,
                    lg_owner_epoch = owner_epoch, lg_expires_at_unix_ms = expires_at_unix_ms\<rparr>)
      | None \<Rightarrow> Inr \<lparr>lg_key = la_key request, lg_owner_id = la_owner_id request,
                      lg_owner_epoch = 1, lg_expires_at_unix_ms = expires_at_unix_ms\<rparr>)"

definition acquire_or_renew :: "leases \<Rightarrow> lease_acquire_request \<Rightarrow> leases \<times> (lease_error, partition_lease_grant) result" where
  "acquire_or_renew leases request =
     (case rbind (validate_key (la_key request)) (\<lambda>_.
           rbind (validate_owner_id (la_owner_id request)) (\<lambda>_.
           if la_ttl_ms request = 0 then Inl (InvalidTtl (la_ttl_ms request))
           else rbind (ok_or (LeaseTimeOverflow (la_now_unix_ms request) (la_ttl_ms request))
                   (u64_checked_add (la_now_unix_ms request) (la_ttl_ms request))) (\<lambda>expires_at_unix_ms.
             next_grant (leases (la_key request)) request expires_at_unix_ms))) of
        Inl e \<Rightarrow> (leases, Inl e)
      | Inr grant \<Rightarrow> (leases(la_key request := Some grant), Inr grant))"

definition lease_current :: "leases \<Rightarrow> partition_lease_key \<Rightarrow> nat \<Rightarrow> (lease_error, partition_lease_grant option) result" where
  "lease_current leases key now_unix_ms =
     rbind (validate_key key) (\<lambda>_. Inr
       (case leases key of
          Some grant \<Rightarrow> if lg_expires_at_unix_ms grant > now_unix_ms then Some grant else None
        | None \<Rightarrow> None))"

definition lease_release :: "leases \<Rightarrow> partition_lease_key \<Rightarrow> string \<Rightarrow> nat \<Rightarrow> nat \<Rightarrow> leases \<times> (lease_error, unit) result" where
  "lease_release leases key owner_id owner_epoch now_unix_ms =
     (case rbind (validate_key key) (\<lambda>_. validate_owner_id owner_id) of
        Inl e \<Rightarrow> (leases, Inl e)
      | Inr _ \<Rightarrow> (case leases key of
          Some current \<Rightarrow>
            if lg_expires_at_unix_ms current \<le> now_unix_ms then (leases, Inl LeaseNotHeld)
            else if lg_owner_id current = owner_id \<and> lg_owner_epoch current = owner_epoch
            then (leases(key := Some (current\<lparr>lg_expires_at_unix_ms := now_unix_ms\<rparr>)), Inr ())
            else (leases, Inl (NotLeaseHolder current))
        | None \<Rightarrow> (leases, Inl LeaseNotHeld)))"

section \<open>Sequences of calls\<close>

text \<open>The tables reached from the empty one, with the grants issued so far, the latest first.\<close>

inductive lease_reach :: "leases \<Rightarrow> partition_lease_grant list \<Rightarrow> bool" where
  start: "lease_reach (\<lambda>_. None) []"
| acquired: "lease_reach ls gs \<Longrightarrow> acquire_or_renew ls r = (ls', Inr g) \<Longrightarrow> lease_reach ls' (g # gs)"
| refused: "lease_reach ls gs \<Longrightarrow> acquire_or_renew ls r = (ls', Inl e) \<Longrightarrow> lease_reach ls' gs"
| released: "lease_reach ls gs \<Longrightarrow> lease_release ls k owner epoch now = (ls', res) \<Longrightarrow> lease_reach ls' gs"

text \<open>An epoch of \<open>h\<close> is later than that of \<open>g\<close>, or the same and of the same owner.\<close>

definition fenced :: "partition_lease_grant \<Rightarrow> partition_lease_grant \<Rightarrow> bool" where
  "fenced h g \<longleftrightarrow> lg_owner_epoch g < lg_owner_epoch h \<or> (lg_owner_epoch g = lg_owner_epoch h \<and> lg_owner_id g = lg_owner_id h)"

lemma fenced_trans: "fenced h g \<Longrightarrow> fenced g f \<Longrightarrow> fenced h f"
  by (auto simp: fenced_def)

lemma next_grant_Inr:
  assumes "next_grant entry r expires = Inr g"
  shows "lg_key g = la_key r \<and> lg_owner_id g = la_owner_id r \<and> lg_expires_at_unix_ms g = expires"
    and "entry = Some c \<Longrightarrow> fenced g c"
    and "entry = Some c \<Longrightarrow> la_now_unix_ms r < lg_expires_at_unix_ms c \<Longrightarrow>
      lg_owner_id c = la_owner_id r \<and> lg_owner_epoch g = lg_owner_epoch c"
proof -
  from assms show "lg_key g = la_key r \<and> lg_owner_id g = la_owner_id r \<and> lg_expires_at_unix_ms g = expires"
    by (auto simp: next_grant_def res_simps split: option.splits if_splits)
  show "fenced g c" if "entry = Some c" using assms that
    by (auto simp: next_grant_def fenced_def u64_checked_add_def ok_or_def res_simps split: if_splits)
  show "lg_owner_id c = la_owner_id r \<and> lg_owner_epoch g = lg_owner_epoch c"
    if "entry = Some c" "la_now_unix_ms r < lg_expires_at_unix_ms c" using assms that
    by (auto simp: next_grant_def split: if_splits)
qed

lemma acquire_Inr:
  assumes "acquire_or_renew ls r = (ls', Inr g)"
  shows "validate_key (la_key r) = Inr ()" and "ls' = ls(la_key r := Some g)"
    and "next_grant (ls (la_key r)) r (la_now_unix_ms r + la_ttl_ms r) = Inr g"
  using assms by (auto simp: acquire_or_renew_def u64_checked_add_def ok_or_def res_simps split: sum.splits option.splits if_splits)

lemma acquire_Inl: "acquire_or_renew ls r = (ls', Inl e) \<Longrightarrow> ls' = ls"
  by (auto simp: acquire_or_renew_def split: sum.splits)

lemma release_cases:
  assumes "lease_release ls k owner epoch now = (ls', res)"
  shows "ls' = ls \<or> (\<exists>c. ls k = Some c \<and> ls' = ls(k := Some (c\<lparr>lg_expires_at_unix_ms := now\<rparr>)))"
  using assms by (auto simp: lease_release_def split: sum.splits option.splits if_splits)

text \<open>The entry of a key fences every grant issued for it.\<close>

lemma lease_reach_fenced:
  "lease_reach ls gs \<Longrightarrow> g \<in> set gs \<Longrightarrow> \<exists>c. ls (lg_key g) = Some c \<and> fenced c g"
proof (induction arbitrary: g rule: lease_reach.induct)
  case (acquired ls gs r ls' h)
  note acq = acquire_Inr [OF acquired(2)] next_grant_Inr [OF acquire_Inr(3) [OF acquired(2)]]
  show ?case
  proof (cases "g = h")
    case True
    then show ?thesis using acq by (simp add: fenced_def)
  next
    case False
    then obtain c where c: "ls (lg_key g) = Some c" "fenced c g" using acquired by auto
    then show ?thesis using acq by (cases "lg_key g = la_key r") (auto intro: fenced_trans)
  qed
next
  case (released ls gs k owner epoch now ls' res)
  then obtain c where c: "ls (lg_key g) = Some c" "fenced c g" by blast
  with release_cases [OF released(2)] show ?case by (auto simp: fenced_def)
qed (auto dest: acquire_Inl)

text \<open>
  C17: Fencing and mutual exclusion. After any sequence of calls, a grant for a key has a later epoch
  than every grant issued for that key before, or the same epoch and the same owner. While a lease is
  held at the caller's time only its holder is granted it, and keeps the epoch.
\<close>

theorem lease_fencing:
  assumes "lease_reach ls gs" and "acquire_or_renew ls r = (ls', Inr g)"
  shows "(\<forall>h \<in> set gs. lg_key h = la_key r \<longrightarrow> fenced g h)
    \<and> (\<forall>c. lease_current ls (la_key r) (la_now_unix_ms r) = Inr (Some c) \<longrightarrow>
        lg_owner_id c = la_owner_id r \<and> lg_owner_epoch g = lg_owner_epoch c)"
proof -
  note acq = acquire_Inr [OF assms(2)] next_grant_Inr [OF acquire_Inr(3) [OF assms(2)]]
  have "fenced g h" if "h \<in> set gs" "lg_key h = la_key r" for h
    using lease_reach_fenced [OF assms(1) that(1)] that(2) acq(5) fenced_trans by auto
  moreover have "lg_owner_id c = la_owner_id r \<and> lg_owner_epoch g = lg_owner_epoch c"
    if "lease_current ls (la_key r) (la_now_unix_ms r) = Inr (Some c)" for c
    using that acq(1,6) by (auto simp: lease_current_def res_simps split: option.splits if_splits)
  ultimately show ?thesis by blast
qed

definition sample_key :: partition_lease_key where
  "sample_key = \<lparr>lk_namespace = ''n'', lk_view_id = ''v'', lk_stream_id = ''s'', lk_partition_id = 0\<rparr>"

definition sample_request :: "string \<Rightarrow> nat \<Rightarrow> lease_acquire_request" where
  "sample_request owner now = \<lparr>la_key = sample_key, la_owner_id = owner, la_now_unix_ms = now, la_ttl_ms = 10\<rparr>"

theorem lease_fencing_witness:
  "\<exists>ls ls' g h. acquire_or_renew (\<lambda>_. None) (sample_request ''a'' 0) = (ls, Inr g)
     \<and> acquire_or_renew ls (sample_request ''b'' 20) = (ls', Inr h) \<and> fenced h g \<and> \<not> fenced g h"
proof -
  have valid: "validate_key sample_key = Inr ()" "validate_owner_id ''a'' = Inr ()" "validate_owner_id ''b'' = Inr ()"
    by code_simp+
  note defs = acquire_or_renew_def sample_request_def u64_checked_add_def ok_or_def next_grant_def res_simps
  obtain ls g where a: "acquire_or_renew (\<lambda>_. None) (sample_request ''a'' 0) = (ls, Inr g)"
    using valid by (simp add: defs)
  moreover obtain ls' h where b: "acquire_or_renew ls (sample_request ''b'' 20) = (ls', Inr h)"
    using valid a by (auto simp: defs)
  moreover have key: "lg_key g = sample_key" "lg_owner_id g = ''a''" "lg_owner_id h = ''b''"
    using next_grant_Inr(1) [OF acquire_Inr(3) [OF a]] next_grant_Inr(1) [OF acquire_Inr(3) [OF b]] by (simp_all add: sample_request_def)
  moreover have "fenced h g"
    using lease_fencing [OF lease_reach.acquired [OF lease_reach.start a] b] key by (simp add: sample_request_def)
  ultimately show ?thesis by (fastforce simp: fenced_def)
qed

text \<open>
  C36: A lease nobody holds at the caller's time, because it was never taken, was released or has run
  out, is granted to whoever asks, with the next epoch, and is then held until the time to live is
  over. The request names a key, an owner and a positive time to live, and no 64-bit sum overflows.
\<close>

theorem lease_taken_over:
  assumes "validate_key (la_key r) = Inr ()" and "validate_owner_id (la_owner_id r) = Inr ()"
    and "0 < la_ttl_ms r" and "la_now_unix_ms r + la_ttl_ms r < 2 ^ 64"
    and "lease_current ls (la_key r) (la_now_unix_ms r) = Inr None"
    and "\<And>c. ls (la_key r) = Some c \<Longrightarrow> lg_owner_epoch c + 1 < 2 ^ 64"
  shows "\<exists>ls' g. acquire_or_renew ls r = (ls', Inr g) \<and> lg_owner_id g = la_owner_id r
    \<and> lg_owner_epoch g = (case ls (la_key r) of None \<Rightarrow> 1 | Some c \<Rightarrow> lg_owner_epoch c + 1)
    \<and> (\<forall>t. lease_current ls' (la_key r) t = Inr (if t < la_now_unix_ms r + la_ttl_ms r then Some g else None))"
proof (cases "ls (la_key r)")
  case None
  then show ?thesis using assms(1-4)
    by (simp add: acquire_or_renew_def next_grant_def u64_checked_add_def ok_or_def lease_current_def res_simps)
next
  case (Some c)
  then have "\<not> la_now_unix_ms r < lg_expires_at_unix_ms c" using assms(1,5) by (auto simp: lease_current_def res_simps split: if_splits)
  with Some assms(1-4) assms(6) [OF Some] show ?thesis
    by (simp add: acquire_or_renew_def next_grant_def u64_checked_add_def ok_or_def lease_current_def res_simps)
qed

theorem lease_taken_over_witness:
  "\<exists>ls' g. acquire_or_renew (\<lambda>_. None) (sample_request ''a'' 5) = (ls', Inr g) \<and> lg_owner_epoch g = 1
     \<and> lease_current ls' sample_key 14 = Inr (Some g) \<and> lease_current ls' sample_key 15 = Inr None"
proof -
  have "validate_key sample_key = Inr ()" "validate_owner_id ''a'' = Inr ()" by code_simp+
  then show ?thesis using lease_taken_over [of "sample_request ''a'' 5" "\<lambda>_. None"]
    by (auto simp: sample_request_def lease_current_def res_simps)
qed

end
