(* ===== verification/Object_Key.thy ===== *)
theory Object_Key
  imports Texts
begin

text \<open>
  Object keys (\<open>velorix-storage/src/object_key.rs\<close>): the constructors, which check their arguments and
  print a key, and the parsers, which accept the known layouts. A key is a list of bytes; \<open>u32\<close> and \<open>u64\<close>
  are natural numbers, whose bounds the parsers check. This theory holds the definitions; the laws are in
  \<open>Object_Key_Laws\<close>.
\<close>

section \<open>Data\<close>

definition partition_width :: nat where
  "partition_width = 10"

definition checkpoint_width :: nat where
  "checkpoint_width = 20"

definition offset_width :: nat where
  "offset_width = 20"

definition u32_max_value :: nat where
  "u32_max_value = 4294967295"

definition u64_max_value :: nat where
  "u64_max_value = 18446744073709551615"

datatype object_key = ObjectKey (as_str: string)

record ingest_batch_key_parts =
  ib_stream_id :: string
  ib_partition_id :: nat
  ib_start_offset_inclusive :: nat
  ib_end_offset_exclusive :: nat

record ingest_staging_key_parts =
  is_stream_id :: string
  is_partition_id :: nat
  is_start_offset_inclusive :: nat
  is_end_offset_exclusive :: nat
  is_staging_id :: string

record output_object_key_parts =
  oo_stream_id :: string
  oo_partition_id :: nat
  oo_checkpoint_version :: nat
  oo_start_offset_inclusive :: nat
  oo_end_offset_exclusive :: nat
  oo_object_id :: string

record ownership_epoch_record_key_parts =
  ow_stream_id :: string
  ow_partition_id :: nat
  ow_owner_epoch :: nat

record standing_runtime_checkpoint_key_parts =
  sc_tenant_id :: string
  sc_program_id :: string
  sc_view_id :: string
  sc_logical_epoch :: nat
  sc_content_hash :: string

record standing_runtime_state_payload_key_parts =
  ss_tenant_id :: string
  ss_program_id :: string
  ss_view_id :: string
  ss_logical_epoch :: nat
  ss_state_content_hash :: string

record standing_runtime_output_manifest_key_parts =
  sm_tenant_id :: string
  sm_program_id :: string
  sm_view_id :: string
  sm_logical_epoch :: nat
  sm_output_content_hash :: string

record standing_runtime_output_page_key_parts =
  sg_tenant_id :: string
  sg_program_id :: string
  sg_view_id :: string
  sg_logical_epoch :: nat
  sg_page_index :: nat
  sg_page_content_hash :: string

record standing_runtime_output_delta_key_parts =
  sd_tenant_id :: string
  sd_program_id :: string
  sd_view_id :: string
  sd_logical_epoch :: nat
  sd_delta_content_hash :: string

record output_chunk_key_parts =
  oc_chunk_hash :: string

datatype object_key_error =
    EmptySegment string
  | UnsafeSegment string string
  | InvalidOffsetRange nat nat
  | InvalidExternalKey string

section \<open>Checks\<close>

definition is_ascii_alphanumeric :: "char \<Rightarrow> bool" where
  "is_ascii_alphanumeric c \<longleftrightarrow> is_ascii_digit c
     \<or> (of_char c :: nat) \<in> {65..90} \<or> (of_char c :: nat) \<in> {97..122}"

definition is_ascii_hexdigit :: "char \<Rightarrow> bool" where
  "is_ascii_hexdigit c \<longleftrightarrow> is_ascii_digit c
     \<or> (of_char c :: nat) \<in> {65..70} \<or> (of_char c :: nat) \<in> {97..102}"

definition segment_byte :: "char \<Rightarrow> bool" where
  "segment_byte c \<longleftrightarrow> is_ascii_alphanumeric c \<or> c \<in> set ''-_.''"

definition validate_segment :: "string \<Rightarrow> string \<Rightarrow> (object_key_error, unit) result" where
  "validate_segment name value =
     (if value = [] then Inl (EmptySegment name)
      else if value = ''.'' \<or> value = ''..'' \<or> \<not> list_all segment_byte value then Inl (UnsafeSegment name value)
      else Inr ())"

definition validate_offset_range :: "nat \<Rightarrow> nat \<Rightarrow> (object_key_error, unit) result" where
  "validate_offset_range start_offset_inclusive end_offset_exclusive =
     (if start_offset_inclusive \<ge> end_offset_exclusive
      then Inl (InvalidOffsetRange start_offset_inclusive end_offset_exclusive) else Inr ())"

definition validate_sha256_hex :: "string \<Rightarrow> (object_key_error, unit) result" where
  "validate_sha256_hex hash =
     (if length hash = 64 \<and> list_all is_ascii_hexdigit hash then Inr ()
      else Inl (UnsafeSegment ''artifact_hash'' hash))"

definition parse_sha256_hash_segment :: "string \<Rightarrow> (object_key_error, string) result" where
  "parse_sha256_hash_segment artifact_hash =
     rbind (ok_or (UnsafeSegment ''artifact_hash'' artifact_hash) (strip_prefix ''sha256:'' artifact_hash)) (\<lambda>hash.
     rbind (validate_sha256_hex hash) (\<lambda>_. Inr hash))"

definition parse_view_spec_hash_segment :: "string \<Rightarrow> (object_key_error, string) result" where
  "parse_view_spec_hash_segment spec_hash =
     rbind (ok_or (UnsafeSegment ''spec_hash'' spec_hash) (strip_prefix ''velorix-view-spec-sha256-v1:'' spec_hash)) (\<lambda>hash.
     rbind (rmap_err (\<lambda>_. UnsafeSegment ''spec_hash'' hash) (validate_sha256_hex hash)) (\<lambda>_. Inr hash))"

definition validate_view_path :: "string \<Rightarrow> string \<Rightarrow> string \<Rightarrow> (object_key_error, unit) result" where
  "validate_view_path tenant_id program_id view_id =
     rbind (validate_segment ''tenant_id'' tenant_id) (\<lambda>_.
     rbind (validate_segment ''program_id'' program_id) (\<lambda>_.
     validate_segment ''view_id'' view_id))"

section \<open>Constructors\<close>

text \<open>The parts \<open>p={partition_id}\<close>, \<open>chk={checkpoint_version}\<close>, \<open>epoch={owner_epoch}\<close> and \<open>{start}-{end}\<close> of the format texts.\<close>

definition partition_text :: "nat \<Rightarrow> string" where
  "partition_text partition_id = ''p='' @ pad partition_width partition_id"

definition checkpoint_text :: "nat \<Rightarrow> string" where
  "checkpoint_text checkpoint_version = ''chk='' @ pad checkpoint_width checkpoint_version"

definition epoch_text :: "nat \<Rightarrow> string" where
  "epoch_text owner_epoch = ''epoch='' @ pad checkpoint_width owner_epoch"

definition range_text :: "nat \<Rightarrow> nat \<Rightarrow> string" where
  "range_text start_offset_inclusive end_offset_exclusive =
     pad offset_width start_offset_inclusive @ ''-'' @ pad offset_width end_offset_exclusive"

definition ingest_batch :: "string \<Rightarrow> nat \<Rightarrow> nat \<Rightarrow> nat \<Rightarrow> (object_key_error, object_key) result" where
  "ingest_batch stream_id partition_id start_offset_inclusive end_offset_exclusive =
     rbind (validate_segment ''stream_id'' stream_id) (\<lambda>_.
     rbind (validate_offset_range start_offset_inclusive end_offset_exclusive) (\<lambda>_.
     Inr (ObjectKey (''v1/ingest/'' @ stream_id @ ''/'' @ partition_text partition_id @ ''/''
       @ range_text start_offset_inclusive end_offset_exclusive @ ''.batch''))))"

definition ingest_staging :: "string \<Rightarrow> nat \<Rightarrow> nat \<Rightarrow> nat \<Rightarrow> string \<Rightarrow> (object_key_error, object_key) result" where
  "ingest_staging stream_id partition_id start_offset_inclusive end_offset_exclusive staging_id =
     rbind (validate_segment ''stream_id'' stream_id) (\<lambda>_.
     rbind (validate_segment ''staging_id'' staging_id) (\<lambda>_.
     rbind (validate_offset_range start_offset_inclusive end_offset_exclusive) (\<lambda>_.
     Inr (ObjectKey (''v1/ingest-staging/'' @ stream_id @ ''/'' @ partition_text partition_id @ ''/''
       @ range_text start_offset_inclusive end_offset_exclusive @ ''/'' @ staging_id @ ''.stage'')))))"

definition ingest_staging_object :: "string \<Rightarrow> nat \<Rightarrow> nat \<Rightarrow> nat \<Rightarrow> string \<Rightarrow> (object_key_error, object_key) result" where
  "ingest_staging_object = ingest_staging"

definition ingest_admission_record :: "string \<Rightarrow> nat \<Rightarrow> nat \<Rightarrow> nat \<Rightarrow> (object_key_error, object_key) result" where
  "ingest_admission_record stream_id partition_id start_offset_inclusive end_offset_exclusive =
     rbind (validate_segment ''stream_id'' stream_id) (\<lambda>_.
     rbind (validate_offset_range start_offset_inclusive end_offset_exclusive) (\<lambda>_.
     Inr (ObjectKey (''v1/ingest-admission/'' @ stream_id @ ''/'' @ partition_text partition_id @ ''/ranges/''
       @ range_text start_offset_inclusive end_offset_exclusive @ ''.admission.json''))))"

definition ingest_admission_orphan_expiry_decision :: "string \<Rightarrow> nat \<Rightarrow> nat \<Rightarrow> nat \<Rightarrow> string \<Rightarrow>
    (object_key_error, object_key) result" where
  "ingest_admission_orphan_expiry_decision stream_id partition_id start_offset_inclusive end_offset_exclusive decision_id =
     rbind (validate_segment ''stream_id'' stream_id) (\<lambda>_.
     rbind (validate_segment ''decision_id'' decision_id) (\<lambda>_.
     rbind (validate_offset_range start_offset_inclusive end_offset_exclusive) (\<lambda>_.
     Inr (ObjectKey (''v1/ingest-admission/'' @ stream_id @ ''/'' @ partition_text partition_id @ ''/ranges/''
       @ range_text start_offset_inclusive end_offset_exclusive @ ''/expiry-decisions/'' @ decision_id @ ''.expiry.json'')))))"

definition ingest_epoch_manifest :: "string \<Rightarrow> (object_key_error, object_key) result" where
  "ingest_epoch_manifest epoch_manifest_id =
     rbind (parse_sha256_hash_segment epoch_manifest_id) (\<lambda>hash.
     Inr (ObjectKey (''v1/ingest-epochs/sha256/'' @ hash @ ''.epoch.json'')))"

definition ingest_epoch_view_convergence :: "string \<Rightarrow> string \<Rightarrow> string \<Rightarrow> string \<Rightarrow>
    (object_key_error, object_key) result" where
  "ingest_epoch_view_convergence epoch_manifest_id tenant_id program_id view_id =
     rbind (parse_sha256_hash_segment epoch_manifest_id) (\<lambda>hash.
     rbind (validate_view_path tenant_id program_id view_id) (\<lambda>_.
     Inr (ObjectKey (''v1/ingest-epoch-convergence/sha256/'' @ hash @ ''/'' @ tenant_id @ ''/'' @ program_id
       @ ''/'' @ view_id @ ''.convergence.json''))))"

definition ingest_epoch_view_runtime_failure :: "string \<Rightarrow> string \<Rightarrow> string \<Rightarrow> string \<Rightarrow>
    (object_key_error, object_key) result" where
  "ingest_epoch_view_runtime_failure epoch_manifest_id tenant_id program_id view_id =
     rbind (parse_sha256_hash_segment epoch_manifest_id) (\<lambda>hash.
     rbind (validate_view_path tenant_id program_id view_id) (\<lambda>_.
     Inr (ObjectKey (''v1/ingest-epoch-runtime-failures/sha256/'' @ hash @ ''/'' @ tenant_id @ ''/'' @ program_id
       @ ''/'' @ view_id @ ''.failure.json''))))"

definition state_object :: "string \<Rightarrow> nat \<Rightarrow> nat \<Rightarrow> string \<Rightarrow> (object_key_error, object_key) result" where
  "state_object owner partition_id checkpoint_version object_id =
     rbind (validate_segment ''owner'' owner) (\<lambda>_.
     rbind (validate_segment ''object_id'' object_id) (\<lambda>_.
     Inr (ObjectKey (''v1/state/'' @ owner @ ''/'' @ partition_text partition_id @ ''/''
       @ checkpoint_text checkpoint_version @ ''/'' @ object_id @ ''.state''))))"

definition output_object :: "string \<Rightarrow> nat \<Rightarrow> nat \<Rightarrow> nat \<Rightarrow> nat \<Rightarrow> string \<Rightarrow> (object_key_error, object_key) result" where
  "output_object stream_id partition_id checkpoint_version start_offset_inclusive end_offset_exclusive object_id =
     rbind (validate_segment ''stream_id'' stream_id) (\<lambda>_.
     rbind (validate_segment ''object_id'' object_id) (\<lambda>_.
     rbind (validate_offset_range start_offset_inclusive end_offset_exclusive) (\<lambda>_.
     Inr (ObjectKey (''v1/outputs/'' @ stream_id @ ''/'' @ partition_text partition_id @ ''/''
       @ checkpoint_text checkpoint_version @ ''/'' @ range_text start_offset_inclusive end_offset_exclusive
       @ ''/'' @ object_id @ ''.output'')))))"

definition temp_publish :: "nat \<Rightarrow> string \<Rightarrow> string \<Rightarrow> (object_key_error, object_key) result" where
  "temp_publish checkpoint_version attempt_or_object_id kind =
     rbind (validate_segment ''attempt_or_object_id'' attempt_or_object_id) (\<lambda>_.
     rbind (validate_segment ''kind'' kind) (\<lambda>_.
     Inr (ObjectKey (''v1/tmp/'' @ pad checkpoint_width checkpoint_version @ ''/'' @ attempt_or_object_id @ ''/'' @ kind))))"

definition checkpoint_manifest_key :: "nat \<Rightarrow> object_key" where
  "checkpoint_manifest_key checkpoint_version =
     ObjectKey (''v1/checkpoints/'' @ pad checkpoint_width checkpoint_version @ ''.manifest'')"

definition checkpoint_latest_candidate_marker :: object_key where
  "checkpoint_latest_candidate_marker = ObjectKey ''v1/checkpoint-index/latest-candidate.json''"

definition checkpoint_lifecycle_record :: "nat \<Rightarrow> object_key" where
  "checkpoint_lifecycle_record checkpoint_version =
     ObjectKey (''v1/checkpoint-lifecycle/'' @ pad checkpoint_width checkpoint_version @ ''.status.json'')"

definition checkpoint_gc_transition_record :: "nat \<Rightarrow> string \<Rightarrow> (object_key_error, object_key) result" where
  "checkpoint_gc_transition_record checkpoint_version transition_id =
     rbind (validate_segment ''transition_id'' transition_id) (\<lambda>_.
     Inr (ObjectKey (''v1/checkpoint-gc-transitions/'' @ pad checkpoint_width checkpoint_version @ ''/transitions/''
       @ transition_id @ ''.transition.json'')))"

definition checkpoint_retention_record :: "nat \<Rightarrow> object_key" where
  "checkpoint_retention_record checkpoint_version =
     ObjectKey (''v1/checkpoint-retention/'' @ pad checkpoint_width checkpoint_version @ ''.retention.json'')"

definition checkpoint_recovery_transition_record :: "nat \<Rightarrow> string \<Rightarrow> (object_key_error, object_key) result" where
  "checkpoint_recovery_transition_record checkpoint_version transition_id =
     rbind (validate_segment ''transition_id'' transition_id) (\<lambda>_.
     Inr (ObjectKey (''v1/checkpoint-recovery/'' @ pad checkpoint_width checkpoint_version @ ''/transitions/''
       @ transition_id @ ''.transition.json'')))"

definition garbage_collection_run :: "string \<Rightarrow> (object_key_error, object_key) result" where
  "garbage_collection_run run_id =
     rbind (validate_segment ''run_id'' run_id) (\<lambda>_.
     Inr (ObjectKey (''v1/gc-runs/'' @ run_id @ ''.run.json'')))"

definition ownership_epoch_record_key :: "string \<Rightarrow> nat \<Rightarrow> nat \<Rightarrow> (object_key_error, object_key) result" where
  "ownership_epoch_record_key stream_id partition_id owner_epoch =
     rbind (validate_segment ''stream_id'' stream_id) (\<lambda>_.
     Inr (ObjectKey (''v1/ownership/'' @ stream_id @ ''/'' @ partition_text partition_id @ ''/''
       @ epoch_text owner_epoch @ ''.claim'')))"

definition query_policy :: "string \<Rightarrow> string \<Rightarrow> (object_key_error, object_key) result" where
  "query_policy tenant_id query_policy_id =
     rbind (validate_segment ''tenant_id'' tenant_id) (\<lambda>_.
     rbind (validate_segment ''query_policy_id'' query_policy_id) (\<lambda>_.
     Inr (ObjectKey (''v1/query-policy/'' @ tenant_id @ ''/'' @ query_policy_id @ ''.json''))))"

definition materialized_view :: "string \<Rightarrow> string \<Rightarrow> (object_key_error, object_key) result" where
  "materialized_view view_id spec_hash =
     rbind (validate_segment ''view_id'' view_id) (\<lambda>_.
     rbind (parse_view_spec_hash_segment spec_hash) (\<lambda>hash.
     Inr (ObjectKey (''v1/views/'' @ view_id @ ''/spec-sha256/'' @ hash @ ''.view.json''))))"

definition active_materialized_view :: "string \<Rightarrow> (object_key_error, object_key) result" where
  "active_materialized_view view_id =
     rbind (validate_segment ''view_id'' view_id) (\<lambda>_.
     Inr (ObjectKey (''v1/views/'' @ view_id @ ''/active.json'')))"

definition standing_runtime_checkpoint :: "string \<Rightarrow> string \<Rightarrow> string \<Rightarrow> nat \<Rightarrow> string \<Rightarrow>
    (object_key_error, object_key) result" where
  "standing_runtime_checkpoint tenant_id program_id view_id logical_epoch content_hash =
     rbind (validate_view_path tenant_id program_id view_id) (\<lambda>_.
     rbind (parse_sha256_hash_segment content_hash) (\<lambda>hash.
     Inr (ObjectKey (''v1/standing-runtime-checkpoints/'' @ tenant_id @ ''/'' @ program_id @ ''/'' @ view_id
       @ ''/epochs/'' @ pad checkpoint_width logical_epoch
       @ ''/sha256/'' @ hash @ ''.checkpoint.arrow''))))"

definition standing_runtime_latest_checkpoint :: "string \<Rightarrow> string \<Rightarrow> string \<Rightarrow> (object_key_error, object_key) result" where
  "standing_runtime_latest_checkpoint tenant_id program_id view_id =
     rbind (validate_view_path tenant_id program_id view_id) (\<lambda>_.
     Inr (ObjectKey (''v1/standing-runtime-checkpoints/'' @ tenant_id @ ''/'' @ program_id @ ''/'' @ view_id @ ''/latest.json'')))"

definition standing_runtime_state_payload :: "string \<Rightarrow> string \<Rightarrow> string \<Rightarrow> nat \<Rightarrow> string \<Rightarrow>
    (object_key_error, object_key) result" where
  "standing_runtime_state_payload tenant_id program_id view_id logical_epoch state_content_hash =
     rbind (validate_view_path tenant_id program_id view_id) (\<lambda>_.
     rbind (parse_sha256_hash_segment state_content_hash) (\<lambda>hash.
     Inr (ObjectKey (''v1/standing-runtime-state-payloads/'' @ tenant_id @ ''/'' @ program_id @ ''/'' @ view_id
       @ ''/epochs/'' @ pad checkpoint_width logical_epoch
       @ ''/sha256/'' @ hash @ ''.state-payload.arrow''))))"

definition standing_runtime_output_manifest :: "string \<Rightarrow> string \<Rightarrow> string \<Rightarrow> nat \<Rightarrow> string \<Rightarrow>
    (object_key_error, object_key) result" where
  "standing_runtime_output_manifest tenant_id program_id view_id logical_epoch output_content_hash =
     rbind (validate_view_path tenant_id program_id view_id) (\<lambda>_.
     rbind (parse_sha256_hash_segment output_content_hash) (\<lambda>hash.
     Inr (ObjectKey (''v1/standing-runtime-output-manifests/'' @ tenant_id @ ''/'' @ program_id @ ''/'' @ view_id
       @ ''/epochs/'' @ pad checkpoint_width logical_epoch
       @ ''/sha256/'' @ hash @ ''.output-manifest.json''))))"

definition standing_runtime_output_page :: "string \<Rightarrow> string \<Rightarrow> string \<Rightarrow> nat \<Rightarrow> nat \<Rightarrow> string \<Rightarrow>
    (object_key_error, object_key) result" where
  "standing_runtime_output_page tenant_id program_id view_id logical_epoch page_index page_content_hash =
     rbind (validate_view_path tenant_id program_id view_id) (\<lambda>_.
     rbind (parse_sha256_hash_segment page_content_hash) (\<lambda>hash.
     Inr (ObjectKey (''v1/standing-runtime-output-pages/'' @ tenant_id @ ''/'' @ program_id @ ''/'' @ view_id
       @ ''/epochs/'' @ pad checkpoint_width logical_epoch @ ''/pages/'' @ pad partition_width page_index
       @ ''/sha256/'' @ hash @ ''.output-page.arrow''))))"

definition standing_runtime_output_delta :: "string \<Rightarrow> string \<Rightarrow> string \<Rightarrow> nat \<Rightarrow> string \<Rightarrow>
    (object_key_error, object_key) result" where
  "standing_runtime_output_delta tenant_id program_id view_id logical_epoch delta_content_hash =
     rbind (validate_view_path tenant_id program_id view_id) (\<lambda>_.
     rbind (parse_sha256_hash_segment delta_content_hash) (\<lambda>hash.
     Inr (ObjectKey (''v1/standing-runtime-output-deltas/'' @ tenant_id @ ''/'' @ program_id @ ''/'' @ view_id
       @ ''/epochs/'' @ pad checkpoint_width logical_epoch
       @ ''/sha256/'' @ hash @ ''.output-delta.arrow''))))"

definition output_chunk :: "string \<Rightarrow> (object_key_error, object_key) result" where
  "output_chunk chunk_hash =
     rbind (parse_sha256_hash_segment chunk_hash) (\<lambda>hash.
     Inr (ObjectKey (''v1/output-chunks/sha256/'' @ hash @ ''.chunk.arrow-ipc'')))"

definition output_chunk_object_key :: "output_chunk_key_parts \<Rightarrow> (object_key_error, object_key) result" where
  "output_chunk_object_key self = output_chunk (oc_chunk_hash self)"

definition relation_catalog :: "string \<Rightarrow> string \<Rightarrow> (object_key_error, object_key) result" where
  "relation_catalog relation_id relation_version =
     rbind (validate_segment ''relation_id'' relation_id) (\<lambda>_.
     rbind (validate_segment ''relation_version'' relation_version) (\<lambda>_.
     Inr (ObjectKey (''v1/relations/'' @ relation_id @ ''/versions/'' @ relation_version @ ''.relation.json''))))"

section \<open>Parsers of the parts\<close>

definition parse_fixed :: "nat \<Rightarrow> string \<Rightarrow> string \<Rightarrow> nat \<Rightarrow> (object_key_error, nat) result" where
  "parse_fixed max_value name value width =
     (if \<not> is_fixed_width_digits value width then Inl (UnsafeSegment name value)
      else ok_or (InvalidExternalKey value) (parse_unsigned max_value value))"

definition parse_fixed_u32 :: "string \<Rightarrow> string \<Rightarrow> nat \<Rightarrow> (object_key_error, nat) result" where
  "parse_fixed_u32 = parse_fixed u32_max_value"

definition parse_fixed_u64 :: "string \<Rightarrow> string \<Rightarrow> nat \<Rightarrow> (object_key_error, nat) result" where
  "parse_fixed_u64 = parse_fixed u64_max_value"

definition parse_prefixed_u32 :: "string \<Rightarrow> string \<Rightarrow> string \<Rightarrow> nat \<Rightarrow> (object_key_error, nat) result" where
  "parse_prefixed_u32 name value prefix width =
     rbind (ok_or (InvalidExternalKey value) (strip_prefix prefix value)) (\<lambda>value. parse_fixed_u32 name value width)"

definition parse_prefixed_u64 :: "string \<Rightarrow> string \<Rightarrow> string \<Rightarrow> nat \<Rightarrow> (object_key_error, nat) result" where
  "parse_prefixed_u64 name value prefix width =
     rbind (ok_or (InvalidExternalKey value) (strip_prefix prefix value)) (\<lambda>value. parse_fixed_u64 name value width)"

definition parse_offset_range :: "string \<Rightarrow> string \<Rightarrow> (object_key_error, nat \<times> nat) result" where
  "parse_offset_range value range_seg =
     rbind (ok_or (InvalidExternalKey value) (split_once CHR ''-'' range_seg)) (\<lambda>(start, end_text).
     rbind (parse_fixed_u64 ''start_offset_inclusive'' start offset_width) (\<lambda>start_offset_inclusive.
     rbind (parse_fixed_u64 ''end_offset_exclusive'' end_text offset_width) (\<lambda>end_offset_exclusive.
     rbind (validate_offset_range start_offset_inclusive end_offset_exclusive) (\<lambda>_.
     Inr (start_offset_inclusive, end_offset_exclusive)))))"

text \<open>\<open>file.strip_suffix(suffix).ok_or_else(...)\<close>.\<close>

definition file_stem :: "string \<Rightarrow> string \<Rightarrow> string \<Rightarrow> (object_key_error, string) result" where
  "file_stem value suffix file = ok_or (InvalidExternalKey value) (strip_suffix suffix file)"

definition validate_hash :: "string \<Rightarrow> string \<Rightarrow> (object_key_error, unit) result" where
  "validate_hash value hash = rmap_err (\<lambda>_. InvalidExternalKey value) (validate_sha256_hex hash)"

definition parse_ingest_batch_parts :: "string \<Rightarrow> string \<Rightarrow> string \<Rightarrow> string \<Rightarrow>
    (object_key_error, ingest_batch_key_parts) result" where
  "parse_ingest_batch_parts value stream_id partition_seg range_seg =
     rbind (validate_segment ''stream_id'' stream_id) (\<lambda>_.
     rbind (parse_prefixed_u32 ''partition_id'' partition_seg ''p='' partition_width) (\<lambda>partition_id.
     rbind (file_stem value ''.batch'' range_seg) (\<lambda>range_seg.
     rbind (parse_offset_range value range_seg) (\<lambda>(start_offset_inclusive, end_offset_exclusive).
     Inr \<lparr>ib_stream_id = stream_id, ib_partition_id = partition_id,
           ib_start_offset_inclusive = start_offset_inclusive, ib_end_offset_exclusive = end_offset_exclusive\<rparr>))))"

definition parse_ingest_staging_parts :: "string \<Rightarrow> string \<Rightarrow> string \<Rightarrow> string \<Rightarrow> string \<Rightarrow>
    (object_key_error, ingest_staging_key_parts) result" where
  "parse_ingest_staging_parts value stream_id partition_seg range_seg staging_file =
     rbind (validate_segment ''stream_id'' stream_id) (\<lambda>_.
     rbind (parse_prefixed_u32 ''partition_id'' partition_seg ''p='' partition_width) (\<lambda>partition_id.
     rbind (parse_offset_range value range_seg) (\<lambda>(start_offset_inclusive, end_offset_exclusive).
     rbind (file_stem value ''.stage'' staging_file) (\<lambda>staging_id.
     rbind (validate_segment ''staging_id'' staging_id) (\<lambda>_.
     Inr \<lparr>is_stream_id = stream_id, is_partition_id = partition_id,
           is_start_offset_inclusive = start_offset_inclusive, is_end_offset_exclusive = end_offset_exclusive,
           is_staging_id = staging_id\<rparr>)))))"

definition parse_standing_runtime_checkpoint_parts :: "string \<Rightarrow> string \<Rightarrow> string \<Rightarrow> string \<Rightarrow> string \<Rightarrow> string \<Rightarrow>
    (object_key_error, standing_runtime_checkpoint_key_parts) result" where
  "parse_standing_runtime_checkpoint_parts value tenant_id program_id view_id logical_epoch checkpoint_file =
     rbind (validate_view_path tenant_id program_id view_id) (\<lambda>_.
     rbind (parse_fixed_u64 ''logical_epoch'' logical_epoch checkpoint_width) (\<lambda>logical_epoch.
     rbind (file_stem value ''.checkpoint.arrow'' checkpoint_file) (\<lambda>hash.
     rbind (validate_hash value hash) (\<lambda>_.
     Inr \<lparr>sc_tenant_id = tenant_id, sc_program_id = program_id, sc_view_id = view_id,
           sc_logical_epoch = logical_epoch, sc_content_hash = ''sha256:'' @ hash\<rparr>))))"

definition parse_standing_runtime_state_payload_parts :: "string \<Rightarrow> string \<Rightarrow> string \<Rightarrow> string \<Rightarrow> string \<Rightarrow> string \<Rightarrow>
    (object_key_error, standing_runtime_state_payload_key_parts) result" where
  "parse_standing_runtime_state_payload_parts value tenant_id program_id view_id logical_epoch state_payload_file =
     rbind (validate_view_path tenant_id program_id view_id) (\<lambda>_.
     rbind (parse_fixed_u64 ''logical_epoch'' logical_epoch checkpoint_width) (\<lambda>logical_epoch.
     rbind (file_stem value ''.state-payload.arrow'' state_payload_file) (\<lambda>hash.
     rbind (validate_hash value hash) (\<lambda>_.
     Inr \<lparr>ss_tenant_id = tenant_id, ss_program_id = program_id, ss_view_id = view_id,
           ss_logical_epoch = logical_epoch, ss_state_content_hash = ''sha256:'' @ hash\<rparr>))))"

definition parse_standing_runtime_output_manifest_parts :: "string \<Rightarrow> string \<Rightarrow> string \<Rightarrow> string \<Rightarrow> string \<Rightarrow> string \<Rightarrow>
    (object_key_error, standing_runtime_output_manifest_key_parts) result" where
  "parse_standing_runtime_output_manifest_parts value tenant_id program_id view_id logical_epoch output_manifest_file =
     rbind (validate_view_path tenant_id program_id view_id) (\<lambda>_.
     rbind (parse_fixed_u64 ''logical_epoch'' logical_epoch checkpoint_width) (\<lambda>logical_epoch.
     rbind (file_stem value ''.output-manifest.json'' output_manifest_file) (\<lambda>hash.
     rbind (validate_hash value hash) (\<lambda>_.
     Inr \<lparr>sm_tenant_id = tenant_id, sm_program_id = program_id, sm_view_id = view_id,
           sm_logical_epoch = logical_epoch, sm_output_content_hash = ''sha256:'' @ hash\<rparr>))))"

definition parse_standing_runtime_output_page_parts :: "string \<Rightarrow> string \<Rightarrow> string \<Rightarrow> string \<Rightarrow> string \<Rightarrow> string \<Rightarrow> string \<Rightarrow>
    (object_key_error, standing_runtime_output_page_key_parts) result" where
  "parse_standing_runtime_output_page_parts value tenant_id program_id view_id logical_epoch page_index output_page_file =
     rbind (validate_view_path tenant_id program_id view_id) (\<lambda>_.
     rbind (parse_fixed_u64 ''logical_epoch'' logical_epoch checkpoint_width) (\<lambda>logical_epoch.
     rbind (parse_fixed_u32 ''page_index'' page_index partition_width) (\<lambda>page_index.
     rbind (file_stem value ''.output-page.arrow'' output_page_file) (\<lambda>hash.
     rbind (validate_hash value hash) (\<lambda>_.
     Inr \<lparr>sg_tenant_id = tenant_id, sg_program_id = program_id, sg_view_id = view_id,
           sg_logical_epoch = logical_epoch, sg_page_index = page_index, sg_page_content_hash = ''sha256:'' @ hash\<rparr>)))))"

definition parse_standing_runtime_output_delta_parts :: "string \<Rightarrow> string \<Rightarrow> string \<Rightarrow> string \<Rightarrow> string \<Rightarrow> string \<Rightarrow>
    (object_key_error, standing_runtime_output_delta_key_parts) result" where
  "parse_standing_runtime_output_delta_parts value tenant_id program_id view_id logical_epoch output_delta_file =
     rbind (validate_view_path tenant_id program_id view_id) (\<lambda>_.
     rbind (parse_fixed_u64 ''logical_epoch'' logical_epoch checkpoint_width) (\<lambda>logical_epoch.
     rbind (file_stem value ''.output-delta.arrow'' output_delta_file) (\<lambda>hash.
     rbind (validate_hash value hash) (\<lambda>_.
     Inr \<lparr>sd_tenant_id = tenant_id, sd_program_id = program_id, sd_view_id = view_id,
           sd_logical_epoch = logical_epoch, sd_delta_content_hash = ''sha256:'' @ hash\<rparr>))))"

definition parse_output_object_parts :: "string \<Rightarrow> string \<Rightarrow> string \<Rightarrow> string \<Rightarrow> string \<Rightarrow> string \<Rightarrow>
    (object_key_error, output_object_key_parts) result" where
  "parse_output_object_parts value stream_id partition_seg checkpoint range_seg object_file =
     rbind (validate_segment ''stream_id'' stream_id) (\<lambda>_.
     rbind (parse_prefixed_u32 ''partition_id'' partition_seg ''p='' partition_width) (\<lambda>partition_id.
     rbind (parse_prefixed_u64 ''checkpoint_version'' checkpoint ''chk='' checkpoint_width) (\<lambda>checkpoint_version.
     rbind (parse_offset_range value range_seg) (\<lambda>(start_offset_inclusive, end_offset_exclusive).
     rbind (file_stem value ''.output'' object_file) (\<lambda>object_id.
     rbind (validate_segment ''object_id'' object_id) (\<lambda>_.
     Inr \<lparr>oo_stream_id = stream_id, oo_partition_id = partition_id, oo_checkpoint_version = checkpoint_version,
           oo_start_offset_inclusive = start_offset_inclusive, oo_end_offset_exclusive = end_offset_exclusive,
           oo_object_id = object_id\<rparr>))))))"

definition parse_ownership_epoch_record_parts :: "string \<Rightarrow> string \<Rightarrow> string \<Rightarrow> string \<Rightarrow>
    (object_key_error, ownership_epoch_record_key_parts) result" where
  "parse_ownership_epoch_record_parts value stream_id partition_seg epoch_file =
     rbind (validate_segment ''stream_id'' stream_id) (\<lambda>_.
     rbind (parse_prefixed_u32 ''partition_id'' partition_seg ''p='' partition_width) (\<lambda>partition_id.
     rbind (file_stem value ''.claim'' epoch_file) (\<lambda>owner_epoch.
     rbind (parse_prefixed_u64 ''owner_epoch'' owner_epoch ''epoch='' checkpoint_width) (\<lambda>owner_epoch.
     Inr \<lparr>ow_stream_id = stream_id, ow_partition_id = partition_id, ow_owner_epoch = owner_epoch\<rparr>))))"

section \<open>Known layouts\<close>

definition discard :: "('e, 'a) result \<Rightarrow> ('e, unit) result" where
  "discard m = rbind m (\<lambda>_. Inr ())"

text \<open>
  The arms of \<open>validate_known_layout\<close>, by the second segment. \<open>args\<close> are the segments after it; a list of
  another length, or another literal segment, is the last arm.
\<close>

definition ingest_layout :: "string \<Rightarrow> string \<Rightarrow> string list \<Rightarrow> (object_key_error, unit) result option" where
  "ingest_layout value namespace args =
     (let unknown = Inl (InvalidExternalKey value) in
      if namespace = ''ingest'' then Some (case args of
        [stream_id, partition_seg, range_seg] \<Rightarrow> discard (parse_ingest_batch_parts value stream_id partition_seg range_seg)
      | _ \<Rightarrow> unknown)
      else if namespace = ''ingest-staging'' then Some (case args of
        [stream_id, partition_seg, range_seg, file] \<Rightarrow> discard (parse_ingest_staging_parts value stream_id partition_seg range_seg file)
      | _ \<Rightarrow> unknown)
      else if namespace = ''ingest-admission'' then Some (case args of
        [stream_id, partition_seg, lit, file] \<Rightarrow>
          if lit \<noteq> ''ranges'' then unknown else
          rbind (validate_segment ''stream_id'' stream_id) (\<lambda>_.
          rbind (parse_prefixed_u32 ''partition_id'' partition_seg ''p='' partition_width) (\<lambda>_.
          rbind (file_stem value ''.admission.json'' file) (\<lambda>range_seg.
          discard (parse_offset_range value range_seg))))
      | [stream_id, partition_seg, lit, range_seg, lit', file] \<Rightarrow>
          if lit \<noteq> ''ranges'' \<or> lit' \<noteq> ''expiry-decisions'' then unknown else
          rbind (validate_segment ''stream_id'' stream_id) (\<lambda>_.
          rbind (parse_prefixed_u32 ''partition_id'' partition_seg ''p='' partition_width) (\<lambda>_.
          rbind (parse_offset_range value range_seg) (\<lambda>_.
          rbind (file_stem value ''.expiry.json'' file) (\<lambda>decision_id.
          validate_segment ''decision_id'' decision_id))))
      | _ \<Rightarrow> unknown)
      else if namespace = ''ingest-epochs'' then Some (case args of
        [lit, file] \<Rightarrow>
          if lit \<noteq> ''sha256'' then unknown else
          rbind (file_stem value ''.epoch.json'' file) (\<lambda>hash. validate_hash value hash)
      | _ \<Rightarrow> unknown)
      else if namespace = ''ingest-epoch-convergence'' then Some (case args of
        [lit, hash, tenant_id, program_id, file] \<Rightarrow>
          if lit \<noteq> ''sha256'' then unknown else
          rbind (validate_hash value hash) (\<lambda>_.
          rbind (validate_segment ''tenant_id'' tenant_id) (\<lambda>_.
          rbind (validate_segment ''program_id'' program_id) (\<lambda>_.
          rbind (file_stem value ''.convergence.json'' file) (\<lambda>view_id. validate_segment ''view_id'' view_id))))
      | _ \<Rightarrow> unknown)
      else if namespace = ''ingest-epoch-runtime-failures'' then Some (case args of
        [lit, hash, tenant_id, program_id, file] \<Rightarrow>
          if lit \<noteq> ''sha256'' then unknown else
          rbind (validate_hash value hash) (\<lambda>_.
          rbind (validate_segment ''tenant_id'' tenant_id) (\<lambda>_.
          rbind (validate_segment ''program_id'' program_id) (\<lambda>_.
          rbind (file_stem value ''.failure.json'' file) (\<lambda>view_id. validate_segment ''view_id'' view_id))))
      | _ \<Rightarrow> unknown)
      else None)"

definition transition_layout :: "string \<Rightarrow> string list \<Rightarrow> (object_key_error, unit) result" where
  "transition_layout value args =
     (case args of
        [checkpoint, lit, file] \<Rightarrow>
          if lit \<noteq> ''transitions'' then Inl (InvalidExternalKey value) else
          rbind (parse_fixed_u64 ''checkpoint_version'' checkpoint checkpoint_width) (\<lambda>_.
          rbind (file_stem value ''.transition.json'' file) (\<lambda>transition_id.
          validate_segment ''transition_id'' transition_id))
      | _ \<Rightarrow> Inl (InvalidExternalKey value))"

definition checkpoint_layout :: "string \<Rightarrow> string \<Rightarrow> string list \<Rightarrow> (object_key_error, unit) result option" where
  "checkpoint_layout value namespace args =
     (let unknown = Inl (InvalidExternalKey value);
          checkpoint_file = (\<lambda>suffix. case args of
            [file] \<Rightarrow> rbind (file_stem value suffix file) (\<lambda>checkpoint.
              discard (parse_fixed_u64 ''checkpoint_version'' checkpoint checkpoint_width))
          | _ \<Rightarrow> unknown) in
      if namespace = ''state'' then Some (case args of
        [owner, partition_seg, checkpoint, file] \<Rightarrow>
          rbind (validate_segment ''owner'' owner) (\<lambda>_.
          rbind (parse_prefixed_u32 ''partition_id'' partition_seg ''p='' partition_width) (\<lambda>_.
          rbind (parse_prefixed_u64 ''checkpoint_version'' checkpoint ''chk='' checkpoint_width) (\<lambda>_.
          rbind (file_stem value ''.state'' file) (\<lambda>object_id. validate_segment ''object_id'' object_id))))
      | _ \<Rightarrow> unknown)
      else if namespace = ''outputs'' then Some (case args of
        [stream_id, partition_seg, checkpoint, range_seg, file] \<Rightarrow>
          discard (parse_output_object_parts value stream_id partition_seg checkpoint range_seg file)
      | _ \<Rightarrow> unknown)
      else if namespace = ''tmp'' then Some (case args of
        [checkpoint, attempt_or_object_id, kind] \<Rightarrow>
          rbind (parse_fixed_u64 ''checkpoint_version'' checkpoint checkpoint_width) (\<lambda>_.
          rbind (validate_segment ''attempt_or_object_id'' attempt_or_object_id) (\<lambda>_.
          validate_segment ''kind'' kind))
      | _ \<Rightarrow> unknown)
      else if namespace = ''checkpoints'' then Some (checkpoint_file ''.manifest'')
      else if namespace = ''checkpoint-index'' then
        Some (if args = [''latest-candidate.json''] then Inr () else unknown)
      else if namespace = ''checkpoint-lifecycle'' then Some (checkpoint_file ''.status.json'')
      else if namespace = ''checkpoint-gc-transitions'' then Some (transition_layout value args)
      else if namespace = ''checkpoint-retention'' then Some (checkpoint_file ''.retention.json'')
      else if namespace = ''checkpoint-recovery'' then Some (transition_layout value args)
      else if namespace = ''ownership'' then Some (case args of
        [stream_id, partition_seg, file] \<Rightarrow> discard (parse_ownership_epoch_record_parts value stream_id partition_seg file)
      | _ \<Rightarrow> unknown)
      else None)"

definition named_file :: "string \<Rightarrow> string \<Rightarrow> string \<Rightarrow> string list \<Rightarrow> (object_key_error, unit) result" where
  "named_file value suffix name args =
     (case args of
        [file] \<Rightarrow> rbind (file_stem value suffix file) (\<lambda>stem. validate_segment name stem)
      | _ \<Rightarrow> Inl (InvalidExternalKey value))"

definition view_layout :: "string \<Rightarrow> string \<Rightarrow> string list \<Rightarrow> (object_key_error, unit) result option" where
  "view_layout value namespace args =
     (let unknown = Inl (InvalidExternalKey value) in
      if namespace = ''gc-runs'' then Some (named_file value ''.run.json'' ''run_id'' args)
      else if namespace = ''queries'' then Some (named_file value ''.query.json'' ''query_id'' args)
      else if namespace = ''tables'' then Some (named_file value ''.table.json'' ''table_id'' args)
      else if namespace = ''query-policy'' then Some (case args of
        [tenant_id, file] \<Rightarrow>
          rbind (validate_segment ''tenant_id'' tenant_id) (\<lambda>_.
          rbind (file_stem value ''.json'' file) (\<lambda>query_policy_id. validate_segment ''query_policy_id'' query_policy_id))
      | _ \<Rightarrow> unknown)
      else if namespace = ''views'' then Some (case args of
        [view_id, lit] \<Rightarrow> if lit \<noteq> ''active.json'' then unknown else validate_segment ''view_id'' view_id
      | [view_id, lit, file] \<Rightarrow>
          if lit \<noteq> ''spec-sha256'' then unknown else
          rbind (validate_segment ''view_id'' view_id) (\<lambda>_.
          rbind (file_stem value ''.view.json'' file) (\<lambda>hash. validate_hash value hash))
      | _ \<Rightarrow> unknown)
      else if namespace = ''relations'' then Some (case args of
        [relation_id, lit, file] \<Rightarrow>
          if lit \<noteq> ''versions'' then unknown else
          rbind (validate_segment ''relation_id'' relation_id) (\<lambda>_.
          rbind (file_stem value ''.relation.json'' file) (\<lambda>relation_version.
          validate_segment ''relation_version'' relation_version))
      | _ \<Rightarrow> unknown)
      else None)"

definition standing_layout :: "string \<Rightarrow> string \<Rightarrow> string list \<Rightarrow> (object_key_error, unit) result" where
  "standing_layout value namespace args =
     (let unknown = Inl (InvalidExternalKey value) in
      if namespace = ''standing-runtime-checkpoints'' then (case args of
        [tenant_id, program_id, view_id, lit] \<Rightarrow>
          if lit \<noteq> ''latest.json'' then unknown else validate_view_path tenant_id program_id view_id
      | [tenant_id, program_id, view_id, lit, logical_epoch, lit', file] \<Rightarrow>
          if lit \<noteq> ''epochs'' \<or> lit' \<noteq> ''sha256'' then unknown else
          discard (parse_standing_runtime_checkpoint_parts value tenant_id program_id view_id logical_epoch file)
      | _ \<Rightarrow> unknown)
      else if namespace = ''standing-runtime-state-payloads'' then (case args of
        [tenant_id, program_id, view_id, lit, logical_epoch, lit', file] \<Rightarrow>
          if lit \<noteq> ''epochs'' \<or> lit' \<noteq> ''sha256'' then unknown else
          discard (parse_standing_runtime_state_payload_parts value tenant_id program_id view_id logical_epoch file)
      | _ \<Rightarrow> unknown)
      else if namespace = ''standing-runtime-output-manifests'' then (case args of
        [tenant_id, program_id, view_id, lit, logical_epoch, lit', file] \<Rightarrow>
          if lit \<noteq> ''epochs'' \<or> lit' \<noteq> ''sha256'' then unknown else
          discard (parse_standing_runtime_output_manifest_parts value tenant_id program_id view_id logical_epoch file)
      | _ \<Rightarrow> unknown)
      else if namespace = ''standing-runtime-output-pages'' then (case args of
        [tenant_id, program_id, view_id, lit, logical_epoch, lit', page_index, lit2, file] \<Rightarrow>
          if lit \<noteq> ''epochs'' \<or> lit' \<noteq> ''pages'' \<or> lit2 \<noteq> ''sha256'' then unknown else
          discard (parse_standing_runtime_output_page_parts value tenant_id program_id view_id logical_epoch page_index file)
      | _ \<Rightarrow> unknown)
      else if namespace = ''standing-runtime-output-deltas'' then (case args of
        [tenant_id, program_id, view_id, lit, logical_epoch, lit', file] \<Rightarrow>
          if lit \<noteq> ''epochs'' \<or> lit' \<noteq> ''sha256'' then unknown else
          discard (parse_standing_runtime_output_delta_parts value tenant_id program_id view_id logical_epoch file)
      | _ \<Rightarrow> unknown)
      else unknown)"

definition known_layout :: "string \<Rightarrow> string \<Rightarrow> string list \<Rightarrow> (object_key_error, unit) result" where
  "known_layout value namespace args =
     (case ingest_layout value namespace args of
        Some r \<Rightarrow> r
      | None \<Rightarrow> (case checkpoint_layout value namespace args of
          Some r \<Rightarrow> r
        | None \<Rightarrow> (case view_layout value namespace args of
            Some r \<Rightarrow> r
          | None \<Rightarrow> standing_layout value namespace args)))"

definition validate_known_layout :: "string \<Rightarrow> (object_key_error, unit) result" where
  "validate_known_layout value =
     (case split_char CHR ''/'' value of
        version # namespace # args \<Rightarrow>
          if version = ''v1'' then known_layout value namespace args else Inl (InvalidExternalKey value)
      | _ \<Rightarrow> Inl (InvalidExternalKey value))"

definition object_key_parse :: "string \<Rightarrow> (object_key_error, object_key) result" where
  "object_key_parse value =
     (if take 1 value = ''/'' \<or> take 3 value \<noteq> ''v1/'' \<or> [] \<in> set (split_char CHR ''/'' value)
      then Inl (InvalidExternalKey value)
      else rbind (validate_known_layout value) (\<lambda>_. Inr (ObjectKey value)))"

section \<open>Parsers of keys\<close>

text \<open>The segments of a key that starts with \<open>v1\<close> and the namespace.\<close>

definition layout_args :: "string \<Rightarrow> string \<Rightarrow> string list option" where
  "layout_args namespace value =
     (case split_char CHR ''/'' value of
        version # ns # args \<Rightarrow> if version = ''v1'' \<and> ns = namespace then Some args else None
      | _ \<Rightarrow> None)"

definition parse_with :: "(string \<Rightarrow> (object_key_error, 'p) result) \<Rightarrow> string \<Rightarrow> (object_key_error, object_key \<times> 'p) result" where
  "parse_with layout value =
     rbind (object_key_parse value) (\<lambda>key. rbind (layout value) (\<lambda>parts. Inr (key, parts)))"

definition parse_ingest_batch_layout :: "string \<Rightarrow> (object_key_error, ingest_batch_key_parts) result" where
  "parse_ingest_batch_layout value =
     (case layout_args ''ingest'' value of
        Some [stream_id, partition_seg, range_seg] \<Rightarrow> parse_ingest_batch_parts value stream_id partition_seg range_seg
      | _ \<Rightarrow> Inl (InvalidExternalKey value))"

definition parse_ingest_staging_layout :: "string \<Rightarrow> (object_key_error, ingest_staging_key_parts) result" where
  "parse_ingest_staging_layout value =
     (case layout_args ''ingest-staging'' value of
        Some [stream_id, partition_seg, range_seg, file] \<Rightarrow> parse_ingest_staging_parts value stream_id partition_seg range_seg file
      | _ \<Rightarrow> Inl (InvalidExternalKey value))"

definition parse_output_object_layout :: "string \<Rightarrow> (object_key_error, output_object_key_parts) result" where
  "parse_output_object_layout value =
     (case layout_args ''outputs'' value of
        Some [stream_id, partition_seg, checkpoint, range_seg, file] \<Rightarrow> parse_output_object_parts value stream_id partition_seg checkpoint range_seg file
      | _ \<Rightarrow> Inl (InvalidExternalKey value))"

definition parse_ownership_epoch_record_layout :: "string \<Rightarrow> (object_key_error, ownership_epoch_record_key_parts) result" where
  "parse_ownership_epoch_record_layout value =
     (case layout_args ''ownership'' value of
        Some [stream_id, partition_seg, file] \<Rightarrow> parse_ownership_epoch_record_parts value stream_id partition_seg file
      | _ \<Rightarrow> Inl (InvalidExternalKey value))"

definition parse_standing_runtime_checkpoint_layout :: "string \<Rightarrow> (object_key_error, standing_runtime_checkpoint_key_parts) result" where
  "parse_standing_runtime_checkpoint_layout value =
     (case layout_args ''standing-runtime-checkpoints'' value of
        Some [tenant_id, program_id, view_id, lit, logical_epoch, lit', file] \<Rightarrow> 
          if lit = ''epochs'' \<and> lit' = ''sha256'' then parse_standing_runtime_checkpoint_parts value tenant_id program_id view_id logical_epoch file else Inl (InvalidExternalKey value)
      | _ \<Rightarrow> Inl (InvalidExternalKey value))"

definition parse_standing_runtime_state_payload_layout :: "string \<Rightarrow> (object_key_error, standing_runtime_state_payload_key_parts) result" where
  "parse_standing_runtime_state_payload_layout value =
     (case layout_args ''standing-runtime-state-payloads'' value of
        Some [tenant_id, program_id, view_id, lit, logical_epoch, lit', file] \<Rightarrow> 
          if lit = ''epochs'' \<and> lit' = ''sha256'' then parse_standing_runtime_state_payload_parts value tenant_id program_id view_id logical_epoch file else Inl (InvalidExternalKey value)
      | _ \<Rightarrow> Inl (InvalidExternalKey value))"

definition parse_standing_runtime_output_manifest_layout :: "string \<Rightarrow> (object_key_error, standing_runtime_output_manifest_key_parts) result" where
  "parse_standing_runtime_output_manifest_layout value =
     (case layout_args ''standing-runtime-output-manifests'' value of
        Some [tenant_id, program_id, view_id, lit, logical_epoch, lit', file] \<Rightarrow> 
          if lit = ''epochs'' \<and> lit' = ''sha256'' then parse_standing_runtime_output_manifest_parts value tenant_id program_id view_id logical_epoch file else Inl (InvalidExternalKey value)
      | _ \<Rightarrow> Inl (InvalidExternalKey value))"

definition parse_standing_runtime_output_page_layout :: "string \<Rightarrow> (object_key_error, standing_runtime_output_page_key_parts) result" where
  "parse_standing_runtime_output_page_layout value =
     (case layout_args ''standing-runtime-output-pages'' value of
        Some [tenant_id, program_id, view_id, lit, logical_epoch, lit', page_index, lit2, file] \<Rightarrow> 
          if lit = ''epochs'' \<and> lit' = ''pages'' \<and> lit2 = ''sha256'' then parse_standing_runtime_output_page_parts value tenant_id program_id view_id logical_epoch page_index file else Inl (InvalidExternalKey value)
      | _ \<Rightarrow> Inl (InvalidExternalKey value))"

definition parse_standing_runtime_output_delta_layout :: "string \<Rightarrow> (object_key_error, standing_runtime_output_delta_key_parts) result" where
  "parse_standing_runtime_output_delta_layout value =
     (case layout_args ''standing-runtime-output-deltas'' value of
        Some [tenant_id, program_id, view_id, lit, logical_epoch, lit', file] \<Rightarrow> 
          if lit = ''epochs'' \<and> lit' = ''sha256'' then parse_standing_runtime_output_delta_parts value tenant_id program_id view_id logical_epoch file else Inl (InvalidExternalKey value)
      | _ \<Rightarrow> Inl (InvalidExternalKey value))"

definition parse_ingest_batch :: "string \<Rightarrow> (object_key_error, object_key \<times> ingest_batch_key_parts) result" where
  "parse_ingest_batch = parse_with parse_ingest_batch_layout"

definition parse_ingest_staging :: "string \<Rightarrow> (object_key_error, object_key \<times> ingest_staging_key_parts) result" where
  "parse_ingest_staging = parse_with parse_ingest_staging_layout"

definition parse_output_object :: "string \<Rightarrow> (object_key_error, object_key \<times> output_object_key_parts) result" where
  "parse_output_object = parse_with parse_output_object_layout"

definition parse_ownership_epoch_record :: "string \<Rightarrow> (object_key_error, object_key \<times> ownership_epoch_record_key_parts) result" where
  "parse_ownership_epoch_record = parse_with parse_ownership_epoch_record_layout"

definition parse_standing_runtime_checkpoint :: "string \<Rightarrow> (object_key_error, object_key \<times> standing_runtime_checkpoint_key_parts) result" where
  "parse_standing_runtime_checkpoint = parse_with parse_standing_runtime_checkpoint_layout"

definition parse_standing_runtime_state_payload :: "string \<Rightarrow> (object_key_error, object_key \<times> standing_runtime_state_payload_key_parts) result" where
  "parse_standing_runtime_state_payload = parse_with parse_standing_runtime_state_payload_layout"

definition parse_standing_runtime_output_manifest :: "string \<Rightarrow> (object_key_error, object_key \<times> standing_runtime_output_manifest_key_parts) result" where
  "parse_standing_runtime_output_manifest = parse_with parse_standing_runtime_output_manifest_layout"

definition parse_standing_runtime_output_page :: "string \<Rightarrow> (object_key_error, object_key \<times> standing_runtime_output_page_key_parts) result" where
  "parse_standing_runtime_output_page = parse_with parse_standing_runtime_output_page_layout"

definition parse_standing_runtime_output_delta :: "string \<Rightarrow> (object_key_error, object_key \<times> standing_runtime_output_delta_key_parts) result" where
  "parse_standing_runtime_output_delta = parse_with parse_standing_runtime_output_delta_layout"

definition parse_ingest_staging_object :: "string \<Rightarrow> (object_key_error, object_key \<times> ingest_staging_key_parts) result" where
  "parse_ingest_staging_object = parse_ingest_staging"

end
