(* ===== verification/Object_Key_Laws.thy ===== *)
theory Object_Key_Laws
  imports Object_Key
begin

text \<open>
  Laws of the object keys. Every check and parser of a part succeeds exactly on the text that the
  constructors print for it; from that the parsers of keys are exact inverses of the constructors
  (the interface \<open>key_codec\<close>), and a key determines the data it was built from.
\<close>

named_theorems key_iffs

section \<open>Parts\<close>

definition segment_ok :: "string \<Rightarrow> bool" where
  "segment_ok s \<longleftrightarrow> s \<noteq> [] \<and> s \<noteq> ''.'' \<and> s \<noteq> ''..''
       \<and> list_all segment_byte s"

definition hash_ok :: "string \<Rightarrow> bool" where
  "hash_ok h \<longleftrightarrow> length h = 64 \<and> list_all is_ascii_hexdigit h"

lemma validate_segment_iff [key_iffs]: "validate_segment name s = Inr u \<longleftrightarrow> segment_ok s"
  by (simp add: validate_segment_def segment_ok_def)

lemma validate_offset_range_iff [key_iffs]: "validate_offset_range a b = Inr u \<longleftrightarrow> a < b"
  by (simp add: validate_offset_range_def)

lemma validate_sha256_iff [key_iffs]: "validate_sha256_hex h = Inr u \<longleftrightarrow> hash_ok h"
  by (simp add: validate_sha256_hex_def hash_ok_def)

lemma validate_hash_iff [key_iffs]: "validate_hash v h = Inr u \<longleftrightarrow> hash_ok h"
  by (simp add: validate_hash_def res_simps validate_sha256_iff)

lemma validate_view_path_iff [key_iffs]:
  "validate_view_path t p v = Inr u \<longleftrightarrow> segment_ok t \<and> segment_ok p \<and> segment_ok v"
  by (auto simp: validate_view_path_def res_simps key_iffs)

lemma parse_sha256_iff [key_iffs]: "parse_sha256_hash_segment x = Inr h \<longleftrightarrow> x = ''sha256:'' @ h
       \<and> hash_ok h"
  by (auto simp: parse_sha256_hash_segment_def res_simps key_iffs strip_prefix_iff)

lemma parse_view_spec_iff [key_iffs]:
  "parse_view_spec_hash_segment x = Inr h \<longleftrightarrow> x = ''velorix-view-spec-sha256-v1:'' @ h \<and> hash_ok h"
  by (auto simp: parse_view_spec_hash_segment_def res_simps key_iffs strip_prefix_iff)

lemma file_stem_iff [key_iffs]: "file_stem v suffix file = Inr stem \<longleftrightarrow> file = stem @ suffix"
  by (simp add: file_stem_def res_simps strip_suffix_iff)

lemma discard_iff [key_iffs]: "discard m = Inr u \<longleftrightarrow> (\<exists>x. m = Inr x)"
  by (auto simp: discard_def res_simps)

lemma parse_fixed_iff:
  assumes "0 < width" and "max_value < 10 ^ width"
  shows "parse_fixed max_value name s width = Inr n \<longleftrightarrow> n \<le> max_value \<and> s = pad width n"
proof
  assume "parse_fixed max_value name s width = Inr n"
  then have s: "is_fixed_width_digits s width" "digits_val s \<le> int max_value" "n = nat (digits_val s)"
    by (auto simp: parse_fixed_def parse_unsigned_def res_simps split: if_splits)
  have val: "digits_val s = int n" using s digits_val_nonneg by (simp add: is_fixed_width_digits_def)
  with s(1) have "s = pad width n" using fixed_width_iff [OF assms(1), of s n] by blast
  with s(2) val show "n \<le> max_value \<and> s = pad width n" by linarith
next
  assume n: "n \<le> max_value \<and> s = pad width n"
  then have "is_fixed_width_digits s width" using fixed_width_iff [OF assms(1), of s n] assms(2) by simp
  with n show "parse_fixed max_value name s width = Inr n"
    by (simp add: parse_fixed_def parse_unsigned_def)
qed

lemma parse_fixed_u32_iff [key_iffs]:
  "parse_fixed_u32 name s partition_width = Inr n \<longleftrightarrow> n \<le> u32_max_value \<and> s = pad partition_width n"
  unfolding parse_fixed_u32_def by (rule parse_fixed_iff) (simp_all add: partition_width_def u32_max_value_def)

lemma parse_fixed_u64_iff [key_iffs]:
  "parse_fixed_u64 name s checkpoint_width = Inr n \<longleftrightarrow> n \<le> u64_max_value \<and> s = pad checkpoint_width n"
  unfolding parse_fixed_u64_def by (rule parse_fixed_iff) (simp_all add: checkpoint_width_def u64_max_value_def)

lemma parse_partition_iff [key_iffs]:
  "parse_prefixed_u32 name s ''p='' partition_width = Inr n \<longleftrightarrow> n \<le> u32_max_value
       \<and> s = partition_text n"
  by (auto simp: parse_prefixed_u32_def res_simps key_iffs strip_prefix_iff partition_text_def)

lemma parse_checkpoint_iff [key_iffs]:
  "parse_prefixed_u64 name s ''chk='' checkpoint_width = Inr n \<longleftrightarrow> n \<le> u64_max_value
       \<and> s = checkpoint_text n"
  by (auto simp: parse_prefixed_u64_def res_simps key_iffs strip_prefix_iff checkpoint_text_def)

lemma parse_epoch_iff [key_iffs]:
  "parse_prefixed_u64 name s ''epoch='' checkpoint_width = Inr n \<longleftrightarrow> n \<le> u64_max_value
       \<and> s = epoch_text n"
  by (auto simp: parse_prefixed_u64_def res_simps key_iffs strip_prefix_iff epoch_text_def)

lemma pad_no_dash: "CHR ''-'' \<notin> set (pad width n)"
  by (auto dest!: pad_fresh simp: is_ascii_digit_def)

lemma parse_offset_range_iff [key_iffs]:
  "parse_offset_range v r = Inr (a, b) \<longleftrightarrow> a < b \<and> b \<le> u64_max_value \<and> r = range_text a b"
proof -
  have offset: "parse_fixed_u64 name s offset_width = Inr n \<longleftrightarrow> n \<le> u64_max_value
       \<and> s = pad offset_width n" for name s n
    using parse_fixed_u64_iff [of name s n] by (simp add: offset_width_def checkpoint_width_def)
  show ?thesis using pad_no_dash [of offset_width]
    by (auto simp: parse_offset_range_def res_simps key_iffs offset split_once_iff range_text_def)
qed

section \<open>Pieces\<close>

text \<open>A piece of a path: not empty and without a slash.\<close>

definition piece :: "string \<Rightarrow> bool" where
  "piece s \<longleftrightarrow> s \<noteq> [] \<and> CHR ''/'' \<notin> set s"

lemma piece_append: "piece s \<Longrightarrow> CHR ''/'' \<notin> set r \<Longrightarrow> piece (s @ r)"
  by (simp add: piece_def)

lemma piece_list_all: "s \<noteq> [] \<Longrightarrow> list_all P s \<Longrightarrow> \<not> P CHR ''/'' \<Longrightarrow> piece s"
  by (auto simp: piece_def list_all_iff)

lemma piece_segment [simp]: "segment_ok s \<Longrightarrow> piece s"
  by (rule piece_list_all [of _ segment_byte])
    (simp_all add: segment_ok_def segment_byte_def is_ascii_alphanumeric_def is_ascii_digit_def)

lemma piece_hash [simp]: "hash_ok h \<Longrightarrow> piece h"
  by (rule piece_list_all [of _ is_ascii_hexdigit]) (auto simp: hash_ok_def is_ascii_hexdigit_def is_ascii_digit_def)

lemma piece_pad [simp]: "piece (pad width n)"
  by (rule piece_list_all [of _ is_ascii_digit]) (simp_all add: is_ascii_digit_def)

lemma piece_texts [simp]: "piece (partition_text p)" "piece (checkpoint_text c)" "piece (epoch_text e)" "piece (range_text a b)"
  using piece_pad by (simp_all add: partition_text_def checkpoint_text_def epoch_text_def range_text_def piece_def)

abbreviation (input) path :: "string list \<Rightarrow> string" where
  "path segs \<equiv> join_char CHR ''/'' segs"

lemma split_path: "segs \<noteq> [] \<Longrightarrow> list_all piece segs \<Longrightarrow> split_char CHR ''/'' (path segs) = segs"
  by (simp add: split_char_iff list_all_iff piece_def)

lemma path_inject: "segs \<noteq> [] \<Longrightarrow> segs' \<noteq> [] \<Longrightarrow> list_all piece segs \<Longrightarrow> list_all piece segs' \<Longrightarrow>
    path segs = path segs' \<longleftrightarrow> segs = segs'"
  by (metis split_path)

section \<open>Acceptance\<close>

lemma layout_args_iff:
  "layout_args ns v = Some args \<longleftrightarrow> split_char CHR ''/'' v = ''v1'' # ns # args"
  by (auto simp: layout_args_def split: list.splits)

lemma object_key_parse_path:
  assumes "split_char CHR ''/'' v = ''v1'' # ns # args" and "list_all piece (ns # args)"
  shows "object_key_parse v = rbind (known_layout v ns args) (\<lambda>_. Inr (ObjectKey v))"
proof -
  have "v = path (''v1'' # ns # args)" using assms(1) join_split [of "CHR ''/''" v] by simp
  then have "v = ''v1/'' @ path (ns # args)" by simp
  then have "take 1 v \<noteq> ''/''" "take 3 v = ''v1/''" by simp_all
  moreover have "[] \<notin> set (split_char CHR ''/'' v)" using assms by (auto simp: piece_def list_all_iff)
  ultimately show ?thesis using assms(1) by (simp add: object_key_parse_def validate_known_layout_def)
qed

text \<open>A key that the layout of its namespace accepts is accepted by the general parser.\<close>

lemma parse_with_iff:
  assumes "layout v = Inr p \<Longrightarrow> \<exists>args. split_char CHR ''/'' v = ''v1'' # ns # args
       \<and> list_all piece (ns # args)
    \<and> known_layout v ns args = Inr ()"
  shows "parse_with layout v = Inr (k, p) \<longleftrightarrow> k = ObjectKey v \<and> layout v = Inr p"
proof
  assume a: "k = ObjectKey v \<and> layout v = Inr p"
  with assms obtain args where "split_char CHR ''/'' v = ''v1'' # ns # args" "list_all piece (ns # args)"
    "known_layout v ns args = Inr ()" by blast
  with a show "parse_with layout v = Inr (k, p)" by (simp add: parse_with_def object_key_parse_path)
qed (auto simp: parse_with_def object_key_parse_def res_simps split: if_splits)

lemma args_case3:
  "(case m of Some [a, b, c] \<Rightarrow> F a b c | _ \<Rightarrow> Inl err) = Inr r \<longleftrightarrow>
     (\<exists>a b c. m = Some [a, b, c] \<and> F a b c = Inr r)"
  by (auto split: option.splits list.splits)

lemma args_case4:
  "(case m of Some [a, b, c, d] \<Rightarrow> F a b c d | _ \<Rightarrow> Inl err) = Inr r \<longleftrightarrow>
     (\<exists>a b c d. m = Some [a, b, c, d] \<and> F a b c d = Inr r)"
  by (auto split: option.splits list.splits)

lemma args_case5:
  "(case m of Some [a, b, c, d, e] \<Rightarrow> F a b c d e | _ \<Rightarrow> Inl err) = Inr r \<longleftrightarrow>
     (\<exists>a b c d e. m = Some [a, b, c, d, e] \<and> F a b c d e = Inr r)"
  by (auto split: option.splits list.splits)

lemma args_case7:
  "(case m of Some [a, b, c, d, e, f, g] \<Rightarrow> F a b c d e f g | _ \<Rightarrow> Inl err) = Inr r \<longleftrightarrow>
     (\<exists>a b c d e f g. m = Some [a, b, c, d, e, f, g] \<and> F a b c d e f g = Inr r)"
  by (auto split: option.splits list.splits)

lemma args_case9:
  "(case m of Some [a, b, c, d, e, f, g, h,
       i] \<Rightarrow> F a b c d e f g h i | _ \<Rightarrow> Inl err) = Inr r \<longleftrightarrow>
     (\<exists>a b c d e f g h i. m = Some [a, b, c, d, e, f, g, h, i] \<and> F a b c d e f g h i = Inr r)"
  by (auto split: option.splits list.splits)

lemmas args_cases = args_case3 args_case4 args_case5 args_case7 args_case9

section \<open>Layouts\<close>

lemmas known_defs = known_layout_def ingest_layout_def checkpoint_layout_def transition_layout_def view_layout_def
  named_file_def standing_layout_def Let_def

definition sha256_ok :: "string \<Rightarrow> bool" where
  "sha256_ok x \<longleftrightarrow> take 7 x = ''sha256:'' \<and> hash_ok (drop 7 x)"

lemma sha256_ok_iff: "sha256_ok x \<longleftrightarrow> (\<exists>h. x = ''sha256:'' @ h \<and> hash_ok h)"
proof
  assume "sha256_ok x"
  then show "\<exists>h. x = ''sha256:'' @ h \<and> hash_ok h"
    by (intro exI [of _ "drop 7 x"]) (metis append_take_drop_id sha256_ok_def)
qed (auto simp: sha256_ok_def)

lemma parse_sha256_ok [simp]: "sha256_ok x \<Longrightarrow> parse_sha256_hash_segment x = Inr (drop 7 x)"
  by (auto simp: sha256_ok_iff key_iffs)

lemma piece_sha256 [simp]: "sha256_ok x \<Longrightarrow> piece (drop 7 x)"
  by (simp add: sha256_ok_def)

text \<open>
  The contract of a kind of key: the parser accepts exactly the texts that the constructor prints, and
  returns what it was given.
\<close>

locale key_codec =
  fixes build :: "'p \<Rightarrow> (object_key_error, object_key) result"
    and parse :: "string \<Rightarrow> (object_key_error, object_key \<times> 'p) result"
    and fits :: "'p \<Rightarrow> bool"
  assumes parse_iff: "parse s = Inr (k, p) \<longleftrightarrow> fits p \<and> build p = Inr k \<and> k = ObjectKey s"
begin

lemma roundtrip: "fits p \<Longrightarrow> build p = Inr k \<Longrightarrow> parse (as_str k) = Inr (k, p)"
  by (simp add: parse_iff)

lemma build_inject:
  assumes "fits p" and "fits q" and "build p = Inr k" and "build q = Inr k"
  shows "p = q"
  using roundtrip [OF assms(1,3)] roundtrip [OF assms(2,4)] by simp

lemma canonical: "parse s = Inr (k, p) \<Longrightarrow> build p = Inr (ObjectKey s)"
  by (simp add: parse_iff)

end

lemma key_codecI:
  assumes build: "\<And>p k. fits p \<Longrightarrow> build p = Inr k \<longleftrightarrow> k = ObjectKey (path (segs p))"
    and pieces: "\<And>p. segs p \<noteq> []" "\<And>p. fits p \<Longrightarrow> list_all piece (segs p)"
    and layout: "\<And>v p. layout v = Inr p \<longleftrightarrow> fits p \<and> split_char CHR ''/'' v = segs p"
    and known: "\<And>v p. layout v = Inr p \<Longrightarrow>
      \<exists>args. split_char CHR ''/'' v = ''v1'' # ns # args \<and> known_layout v ns args = Inr ()"
    and parse: "parse = parse_with layout"
  shows "key_codec build parse fits"
proof
  fix s k p
  have "parse s = Inr (k, p) \<longleftrightarrow> k = ObjectKey s \<and> layout s = Inr p"
    unfolding parse
  proof (rule parse_with_iff)
    assume "layout s = Inr p"
    with known [of s p] pieces(2) [of p] layout [of s p]
    show "\<exists>args. split_char CHR ''/'' s = ''v1'' # ns # args \<and> list_all piece (ns # args)
       \<and> known_layout s ns args = Inr ()"
      by (metis list.pred_inject(2))
  qed
  also have "\<dots> \<longleftrightarrow> k = ObjectKey s \<and> fits p \<and> s = path (segs p)"
    using layout split_path [OF pieces(1) pieces(2), of p] join_split [of "CHR ''/''" s] by metis
  finally show "parse s = Inr (k, p) \<longleftrightarrow> fits p \<and> build p = Inr k \<and> k = ObjectKey s"
    using build [of p k] by auto
qed

definition ingest_batch_fits :: "ingest_batch_key_parts \<Rightarrow> bool" where
  "ingest_batch_fits p \<longleftrightarrow> segment_ok (ib_stream_id p)
       \<and> ib_partition_id p \<le> u32_max_value \<and> ib_start_offset_inclusive p < ib_end_offset_exclusive p
       \<and> ib_end_offset_exclusive p \<le> u64_max_value"

definition ingest_batch_segs :: "ingest_batch_key_parts \<Rightarrow> string list" where
  "ingest_batch_segs p = [''v1'', ''ingest'', ib_stream_id p, partition_text (ib_partition_id p),
       range_text (ib_start_offset_inclusive p) (ib_end_offset_exclusive p) @ ''.batch'']"

definition build_ingest_batch :: "ingest_batch_key_parts \<Rightarrow> (object_key_error, object_key) result" where
  "build_ingest_batch p = ingest_batch (ib_stream_id p) (ib_partition_id p) (ib_start_offset_inclusive p) (ib_end_offset_exclusive p)"

lemma build_ingest_batch_iff: 
  "ingest_batch_fits p \<Longrightarrow> build_ingest_batch p = Inr k \<longleftrightarrow> k = ObjectKey (path (ingest_batch_segs p))"
  by (auto simp: build_ingest_batch_def ingest_batch_def ingest_batch_fits_def ingest_batch_segs_def res_simps key_iffs)

lemma ingest_batch_pieces: "ingest_batch_fits p \<Longrightarrow> list_all piece (ingest_batch_segs p)"
  by (simp add: ingest_batch_fits_def ingest_batch_segs_def piece_append) (simp add: piece_def)

lemma ingest_batch_layout_iff:
  "parse_ingest_batch_layout v = Inr p \<longleftrightarrow> ingest_batch_fits p
       \<and> split_char CHR ''/'' v = ingest_batch_segs p"
  by (cases p) (auto simp: parse_ingest_batch_layout_def args_cases layout_args_iff
    parse_ingest_batch_parts_def res_simps key_iffs
    ingest_batch_fits_def ingest_batch_segs_def split: if_splits)

lemma ingest_batch_known:
  "parse_ingest_batch_layout v = Inr p \<Longrightarrow>
     \<exists>args. split_char CHR ''/'' v = ''v1'' # ''ingest'' # args \<and> known_layout v ''ingest'' args = Inr ()"
  by (auto simp: parse_ingest_batch_layout_def args_cases layout_args_iff known_defs discard_def split: if_splits)

interpretation ingest_batch: key_codec build_ingest_batch parse_ingest_batch ingest_batch_fits
  by (rule key_codecI [OF build_ingest_batch_iff _ ingest_batch_pieces ingest_batch_layout_iff
    ingest_batch_known parse_ingest_batch_def])
    (simp_all add: ingest_batch_segs_def)

definition ingest_staging_fits :: "ingest_staging_key_parts \<Rightarrow> bool" where
  "ingest_staging_fits p \<longleftrightarrow> segment_ok (is_stream_id p) \<and> segment_ok (is_staging_id p)
       \<and> is_partition_id p \<le> u32_max_value \<and> is_start_offset_inclusive p < is_end_offset_exclusive p
       \<and> is_end_offset_exclusive p \<le> u64_max_value"

definition ingest_staging_segs :: "ingest_staging_key_parts \<Rightarrow> string list" where
  "ingest_staging_segs p = [''v1'', ''ingest-staging'', is_stream_id p, partition_text (is_partition_id p),
       range_text (is_start_offset_inclusive p) (is_end_offset_exclusive p), is_staging_id p @ ''.stage'']"

definition build_ingest_staging :: "ingest_staging_key_parts \<Rightarrow> (object_key_error, object_key) result" where
  "build_ingest_staging p = ingest_staging (is_stream_id p) (is_partition_id p) (is_start_offset_inclusive p) (is_end_offset_exclusive p) (is_staging_id p)"

lemma build_ingest_staging_iff: 
  "ingest_staging_fits p \<Longrightarrow> build_ingest_staging p = Inr k \<longleftrightarrow> k = ObjectKey (path (ingest_staging_segs p))"
  by (auto simp: build_ingest_staging_def ingest_staging_def ingest_staging_fits_def ingest_staging_segs_def res_simps key_iffs)

lemma ingest_staging_pieces: "ingest_staging_fits p \<Longrightarrow> list_all piece (ingest_staging_segs p)"
  by (simp add: ingest_staging_fits_def ingest_staging_segs_def piece_append) (simp add: piece_def)

lemma ingest_staging_layout_iff:
  "parse_ingest_staging_layout v = Inr p \<longleftrightarrow> ingest_staging_fits p
       \<and> split_char CHR ''/'' v = ingest_staging_segs p"
  by (cases p) (auto simp: parse_ingest_staging_layout_def args_cases layout_args_iff
    parse_ingest_staging_parts_def res_simps key_iffs
    ingest_staging_fits_def ingest_staging_segs_def split: if_splits)

lemma ingest_staging_known:
  "parse_ingest_staging_layout v = Inr p \<Longrightarrow>
     \<exists>args. split_char CHR ''/'' v = ''v1'' # ''ingest-staging'' # args
       \<and> known_layout v ''ingest-staging'' args = Inr ()"
  by (auto simp: parse_ingest_staging_layout_def args_cases layout_args_iff known_defs discard_def split: if_splits)

interpretation ingest_staging: key_codec build_ingest_staging parse_ingest_staging ingest_staging_fits
  by (rule key_codecI [OF build_ingest_staging_iff _ ingest_staging_pieces ingest_staging_layout_iff
    ingest_staging_known parse_ingest_staging_def])
    (simp_all add: ingest_staging_segs_def)

definition output_object_fits :: "output_object_key_parts \<Rightarrow> bool" where
  "output_object_fits p \<longleftrightarrow> segment_ok (oo_stream_id p) \<and> segment_ok (oo_object_id p)
       \<and> oo_partition_id p \<le> u32_max_value \<and> oo_checkpoint_version p \<le> u64_max_value
       \<and> oo_start_offset_inclusive p < oo_end_offset_exclusive p
       \<and> oo_end_offset_exclusive p \<le> u64_max_value"

definition output_object_segs :: "output_object_key_parts \<Rightarrow> string list" where
  "output_object_segs p = [''v1'', ''outputs'', oo_stream_id p, partition_text (oo_partition_id p),
       checkpoint_text (oo_checkpoint_version p),
       range_text (oo_start_offset_inclusive p) (oo_end_offset_exclusive p), oo_object_id p @ ''.output'']"

definition build_output_object :: "output_object_key_parts \<Rightarrow> (object_key_error, object_key) result" where
  "build_output_object p = output_object (oo_stream_id p) (oo_partition_id p) (oo_checkpoint_version p) (oo_start_offset_inclusive p) (oo_end_offset_exclusive p) (oo_object_id p)"

lemma build_output_object_iff: 
  "output_object_fits p \<Longrightarrow> build_output_object p = Inr k \<longleftrightarrow> k = ObjectKey (path (output_object_segs p))"
  by (auto simp: build_output_object_def output_object_def output_object_fits_def output_object_segs_def res_simps key_iffs)

lemma output_object_pieces: "output_object_fits p \<Longrightarrow> list_all piece (output_object_segs p)"
  by (simp add: output_object_fits_def output_object_segs_def piece_append) (simp add: piece_def)

lemma output_object_layout_iff:
  "parse_output_object_layout v = Inr p \<longleftrightarrow> output_object_fits p
       \<and> split_char CHR ''/'' v = output_object_segs p"
  by (cases p) (auto simp: parse_output_object_layout_def args_cases layout_args_iff
    parse_output_object_parts_def res_simps key_iffs
    output_object_fits_def output_object_segs_def split: if_splits)

lemma output_object_known:
  "parse_output_object_layout v = Inr p \<Longrightarrow>
     \<exists>args. split_char CHR ''/'' v = ''v1'' # ''outputs'' # args \<and> known_layout v ''outputs'' args = Inr ()"
  by (auto simp: parse_output_object_layout_def args_cases layout_args_iff known_defs discard_def split: if_splits)

interpretation output_object: key_codec build_output_object parse_output_object output_object_fits
  by (rule key_codecI [OF build_output_object_iff _ output_object_pieces output_object_layout_iff
    output_object_known parse_output_object_def])
    (simp_all add: output_object_segs_def)

definition ownership_epoch_record_fits :: "ownership_epoch_record_key_parts \<Rightarrow> bool" where
  "ownership_epoch_record_fits p \<longleftrightarrow> segment_ok (ow_stream_id p)
       \<and> ow_partition_id p \<le> u32_max_value \<and> ow_owner_epoch p \<le> u64_max_value"

definition ownership_epoch_record_segs :: "ownership_epoch_record_key_parts \<Rightarrow> string list" where
  "ownership_epoch_record_segs p = [''v1'', ''ownership'', ow_stream_id p, partition_text (ow_partition_id p),
       epoch_text (ow_owner_epoch p) @ ''.claim'']"

definition build_ownership_epoch_record :: "ownership_epoch_record_key_parts \<Rightarrow> (object_key_error,
       object_key) result" where
  "build_ownership_epoch_record p = ownership_epoch_record_key (ow_stream_id p) (ow_partition_id p) (ow_owner_epoch p)"

lemma build_ownership_epoch_record_iff: 
  "ownership_epoch_record_fits p \<Longrightarrow> build_ownership_epoch_record p = Inr k \<longleftrightarrow> k = ObjectKey (path (ownership_epoch_record_segs p))"
  by (auto simp: build_ownership_epoch_record_def ownership_epoch_record_key_def ownership_epoch_record_fits_def ownership_epoch_record_segs_def res_simps key_iffs)

lemma ownership_epoch_record_pieces: "ownership_epoch_record_fits p \<Longrightarrow> list_all piece (ownership_epoch_record_segs p)"
  by (simp add: ownership_epoch_record_fits_def ownership_epoch_record_segs_def piece_append) (simp add: piece_def)

lemma ownership_epoch_record_layout_iff:
  "parse_ownership_epoch_record_layout v = Inr p \<longleftrightarrow> ownership_epoch_record_fits p
       \<and> split_char CHR ''/'' v = ownership_epoch_record_segs p"
  by (cases p) (auto simp: parse_ownership_epoch_record_layout_def args_cases layout_args_iff
    parse_ownership_epoch_record_parts_def res_simps key_iffs
    ownership_epoch_record_fits_def ownership_epoch_record_segs_def split: if_splits)

lemma ownership_epoch_record_known:
  "parse_ownership_epoch_record_layout v = Inr p \<Longrightarrow>
     \<exists>args. split_char CHR ''/'' v = ''v1'' # ''ownership'' # args \<and> known_layout v ''ownership'' args = Inr ()"
  by (auto simp: parse_ownership_epoch_record_layout_def args_cases layout_args_iff known_defs discard_def split: if_splits)

interpretation ownership_epoch_record: key_codec build_ownership_epoch_record parse_ownership_epoch_record ownership_epoch_record_fits
  by (rule key_codecI [OF build_ownership_epoch_record_iff _ ownership_epoch_record_pieces ownership_epoch_record_layout_iff
    ownership_epoch_record_known parse_ownership_epoch_record_def])
    (simp_all add: ownership_epoch_record_segs_def)

definition standing_runtime_checkpoint_fits :: "standing_runtime_checkpoint_key_parts \<Rightarrow> bool" where
  "standing_runtime_checkpoint_fits p \<longleftrightarrow> segment_ok (sc_tenant_id p)
       \<and> segment_ok (sc_program_id p) \<and> segment_ok (sc_view_id p)
       \<and> sc_logical_epoch p \<le> u64_max_value \<and> sha256_ok (sc_content_hash p)"

definition standing_runtime_checkpoint_segs :: "standing_runtime_checkpoint_key_parts \<Rightarrow> string list" where
  "standing_runtime_checkpoint_segs p = [''v1'', ''standing-runtime-checkpoints'', sc_tenant_id p, sc_program_id p,
       sc_view_id p, ''epochs'', pad checkpoint_width (sc_logical_epoch p), ''sha256'',
       drop 7 (sc_content_hash p) @ ''.checkpoint.arrow'']"

definition build_standing_runtime_checkpoint :: "standing_runtime_checkpoint_key_parts \<Rightarrow> (object_key_error,
       object_key) result" where
  "build_standing_runtime_checkpoint p = standing_runtime_checkpoint (sc_tenant_id p) (sc_program_id p) (sc_view_id p) (sc_logical_epoch p) (sc_content_hash p)"

lemma build_standing_runtime_checkpoint_iff: 
  "standing_runtime_checkpoint_fits p \<Longrightarrow> build_standing_runtime_checkpoint p = Inr k \<longleftrightarrow> k = ObjectKey (path (standing_runtime_checkpoint_segs p))"
  by (auto simp: build_standing_runtime_checkpoint_def standing_runtime_checkpoint_def standing_runtime_checkpoint_fits_def standing_runtime_checkpoint_segs_def res_simps key_iffs)

lemma standing_runtime_checkpoint_pieces: "standing_runtime_checkpoint_fits p \<Longrightarrow> list_all piece (standing_runtime_checkpoint_segs p)"
  by (simp add: standing_runtime_checkpoint_fits_def standing_runtime_checkpoint_segs_def piece_append) (simp add: piece_def)

lemma standing_runtime_checkpoint_layout_iff:
  "parse_standing_runtime_checkpoint_layout v = Inr p \<longleftrightarrow> standing_runtime_checkpoint_fits p
       \<and> split_char CHR ''/'' v = standing_runtime_checkpoint_segs p"
  by (cases p) (auto simp: parse_standing_runtime_checkpoint_layout_def args_cases layout_args_iff
    parse_standing_runtime_checkpoint_parts_def res_simps key_iffs
    standing_runtime_checkpoint_fits_def standing_runtime_checkpoint_segs_def sha256_ok_iff split: if_splits)

lemma standing_runtime_checkpoint_known:
  "parse_standing_runtime_checkpoint_layout v = Inr p \<Longrightarrow>
     \<exists>args. split_char CHR ''/'' v = ''v1'' # ''standing-runtime-checkpoints'' # args
       \<and> known_layout v ''standing-runtime-checkpoints'' args = Inr ()"
  by (auto simp: parse_standing_runtime_checkpoint_layout_def args_cases layout_args_iff known_defs discard_def split: if_splits)

interpretation standing_runtime_checkpoint: key_codec build_standing_runtime_checkpoint parse_standing_runtime_checkpoint standing_runtime_checkpoint_fits
  by (rule key_codecI [OF build_standing_runtime_checkpoint_iff _ standing_runtime_checkpoint_pieces standing_runtime_checkpoint_layout_iff
    standing_runtime_checkpoint_known parse_standing_runtime_checkpoint_def])
    (simp_all add: standing_runtime_checkpoint_segs_def)

definition standing_runtime_state_payload_fits :: "standing_runtime_state_payload_key_parts \<Rightarrow> bool" where
  "standing_runtime_state_payload_fits p \<longleftrightarrow> segment_ok (ss_tenant_id p)
       \<and> segment_ok (ss_program_id p) \<and> segment_ok (ss_view_id p)
       \<and> ss_logical_epoch p \<le> u64_max_value \<and> sha256_ok (ss_state_content_hash p)"

definition standing_runtime_state_payload_segs :: "standing_runtime_state_payload_key_parts \<Rightarrow> string list" where
  "standing_runtime_state_payload_segs p = [''v1'', ''standing-runtime-state-payloads'', ss_tenant_id p,
       ss_program_id p, ss_view_id p, ''epochs'', pad checkpoint_width (ss_logical_epoch p), ''sha256'',
       drop 7 (ss_state_content_hash p) @ ''.state-payload.arrow'']"

definition build_standing_runtime_state_payload :: "standing_runtime_state_payload_key_parts \<Rightarrow> (object_key_error,
       object_key) result" where
  "build_standing_runtime_state_payload p = standing_runtime_state_payload (ss_tenant_id p) (ss_program_id p) (ss_view_id p) (ss_logical_epoch p) (ss_state_content_hash p)"

lemma build_standing_runtime_state_payload_iff: 
  "standing_runtime_state_payload_fits p \<Longrightarrow> build_standing_runtime_state_payload p = Inr k \<longleftrightarrow> k = ObjectKey (path (standing_runtime_state_payload_segs p))"
  by (auto simp: build_standing_runtime_state_payload_def standing_runtime_state_payload_def standing_runtime_state_payload_fits_def standing_runtime_state_payload_segs_def res_simps key_iffs)

lemma standing_runtime_state_payload_pieces: "standing_runtime_state_payload_fits p \<Longrightarrow> list_all piece (standing_runtime_state_payload_segs p)"
  by (simp add: standing_runtime_state_payload_fits_def standing_runtime_state_payload_segs_def piece_append) (simp add: piece_def)

lemma standing_runtime_state_payload_layout_iff:
  "parse_standing_runtime_state_payload_layout v = Inr p \<longleftrightarrow> standing_runtime_state_payload_fits p
       \<and> split_char CHR ''/'' v = standing_runtime_state_payload_segs p"
  by (cases p) (auto simp: parse_standing_runtime_state_payload_layout_def args_cases layout_args_iff
    parse_standing_runtime_state_payload_parts_def res_simps key_iffs
    standing_runtime_state_payload_fits_def standing_runtime_state_payload_segs_def sha256_ok_iff split: if_splits)

lemma standing_runtime_state_payload_known:
  "parse_standing_runtime_state_payload_layout v = Inr p \<Longrightarrow>
     \<exists>args. split_char CHR ''/'' v = ''v1'' # ''standing-runtime-state-payloads'' # args
       \<and> known_layout v ''standing-runtime-state-payloads'' args = Inr ()"
  by (auto simp: parse_standing_runtime_state_payload_layout_def args_cases layout_args_iff known_defs discard_def split: if_splits)

interpretation standing_runtime_state_payload: key_codec build_standing_runtime_state_payload parse_standing_runtime_state_payload standing_runtime_state_payload_fits
  by (rule key_codecI [OF build_standing_runtime_state_payload_iff _ standing_runtime_state_payload_pieces standing_runtime_state_payload_layout_iff
    standing_runtime_state_payload_known parse_standing_runtime_state_payload_def])
    (simp_all add: standing_runtime_state_payload_segs_def)

definition standing_runtime_output_manifest_fits :: "standing_runtime_output_manifest_key_parts \<Rightarrow> bool" where
  "standing_runtime_output_manifest_fits p \<longleftrightarrow> segment_ok (sm_tenant_id p)
       \<and> segment_ok (sm_program_id p) \<and> segment_ok (sm_view_id p)
       \<and> sm_logical_epoch p \<le> u64_max_value \<and> sha256_ok (sm_output_content_hash p)"

definition standing_runtime_output_manifest_segs :: "standing_runtime_output_manifest_key_parts \<Rightarrow> string list" where
  "standing_runtime_output_manifest_segs p = [''v1'', ''standing-runtime-output-manifests'', sm_tenant_id p,
       sm_program_id p, sm_view_id p, ''epochs'', pad checkpoint_width (sm_logical_epoch p), ''sha256'',
       drop 7 (sm_output_content_hash p) @ ''.output-manifest.json'']"

definition build_standing_runtime_output_manifest :: "standing_runtime_output_manifest_key_parts \<Rightarrow> (object_key_error,
       object_key) result" where
  "build_standing_runtime_output_manifest p = standing_runtime_output_manifest (sm_tenant_id p) (sm_program_id p) (sm_view_id p) (sm_logical_epoch p) (sm_output_content_hash p)"

lemma build_standing_runtime_output_manifest_iff: 
  "standing_runtime_output_manifest_fits p \<Longrightarrow> build_standing_runtime_output_manifest p = Inr k \<longleftrightarrow> k = ObjectKey (path (standing_runtime_output_manifest_segs p))"
  by (auto simp: build_standing_runtime_output_manifest_def standing_runtime_output_manifest_def standing_runtime_output_manifest_fits_def standing_runtime_output_manifest_segs_def res_simps key_iffs)

lemma standing_runtime_output_manifest_pieces: "standing_runtime_output_manifest_fits p \<Longrightarrow> list_all piece (standing_runtime_output_manifest_segs p)"
  by (simp add: standing_runtime_output_manifest_fits_def standing_runtime_output_manifest_segs_def piece_append) (simp add: piece_def)

lemma standing_runtime_output_manifest_layout_iff:
  "parse_standing_runtime_output_manifest_layout v = Inr p \<longleftrightarrow> standing_runtime_output_manifest_fits p
       \<and> split_char CHR ''/'' v = standing_runtime_output_manifest_segs p"
  by (cases p) (auto simp: parse_standing_runtime_output_manifest_layout_def args_cases layout_args_iff
    parse_standing_runtime_output_manifest_parts_def res_simps key_iffs
    standing_runtime_output_manifest_fits_def standing_runtime_output_manifest_segs_def sha256_ok_iff split: if_splits)

lemma standing_runtime_output_manifest_known:
  "parse_standing_runtime_output_manifest_layout v = Inr p \<Longrightarrow>
     \<exists>args. split_char CHR ''/'' v = ''v1'' # ''standing-runtime-output-manifests'' # args
       \<and> known_layout v ''standing-runtime-output-manifests'' args = Inr ()"
  by (auto simp: parse_standing_runtime_output_manifest_layout_def args_cases layout_args_iff known_defs discard_def split: if_splits)

interpretation standing_runtime_output_manifest: key_codec build_standing_runtime_output_manifest parse_standing_runtime_output_manifest standing_runtime_output_manifest_fits
  by (rule key_codecI [OF build_standing_runtime_output_manifest_iff _ standing_runtime_output_manifest_pieces standing_runtime_output_manifest_layout_iff
    standing_runtime_output_manifest_known parse_standing_runtime_output_manifest_def])
    (simp_all add: standing_runtime_output_manifest_segs_def)

definition standing_runtime_output_page_fits :: "standing_runtime_output_page_key_parts \<Rightarrow> bool" where
  "standing_runtime_output_page_fits p \<longleftrightarrow> segment_ok (sg_tenant_id p)
       \<and> segment_ok (sg_program_id p) \<and> segment_ok (sg_view_id p)
       \<and> sg_logical_epoch p \<le> u64_max_value \<and> sg_page_index p \<le> u32_max_value
       \<and> sha256_ok (sg_page_content_hash p)"

definition standing_runtime_output_page_segs :: "standing_runtime_output_page_key_parts \<Rightarrow> string list" where
  "standing_runtime_output_page_segs p = [''v1'', ''standing-runtime-output-pages'', sg_tenant_id p,
       sg_program_id p, sg_view_id p, ''epochs'', pad checkpoint_width (sg_logical_epoch p), ''pages'',
       pad partition_width (sg_page_index p), ''sha256'',
       drop 7 (sg_page_content_hash p) @ ''.output-page.arrow'']"

definition build_standing_runtime_output_page :: "standing_runtime_output_page_key_parts \<Rightarrow> (object_key_error,
       object_key) result" where
  "build_standing_runtime_output_page p = standing_runtime_output_page (sg_tenant_id p) (sg_program_id p) (sg_view_id p) (sg_logical_epoch p) (sg_page_index p) (sg_page_content_hash p)"

lemma build_standing_runtime_output_page_iff: 
  "standing_runtime_output_page_fits p \<Longrightarrow> build_standing_runtime_output_page p = Inr k \<longleftrightarrow> k = ObjectKey (path (standing_runtime_output_page_segs p))"
  by (auto simp: build_standing_runtime_output_page_def standing_runtime_output_page_def standing_runtime_output_page_fits_def standing_runtime_output_page_segs_def res_simps key_iffs)

lemma standing_runtime_output_page_pieces: "standing_runtime_output_page_fits p \<Longrightarrow> list_all piece (standing_runtime_output_page_segs p)"
  by (simp add: standing_runtime_output_page_fits_def standing_runtime_output_page_segs_def piece_append) (simp add: piece_def)

lemma standing_runtime_output_page_layout_iff:
  "parse_standing_runtime_output_page_layout v = Inr p \<longleftrightarrow> standing_runtime_output_page_fits p
       \<and> split_char CHR ''/'' v = standing_runtime_output_page_segs p"
  by (cases p) (auto simp: parse_standing_runtime_output_page_layout_def args_cases layout_args_iff
    parse_standing_runtime_output_page_parts_def res_simps key_iffs
    standing_runtime_output_page_fits_def standing_runtime_output_page_segs_def sha256_ok_iff split: if_splits)

lemma standing_runtime_output_page_known:
  "parse_standing_runtime_output_page_layout v = Inr p \<Longrightarrow>
     \<exists>args. split_char CHR ''/'' v = ''v1'' # ''standing-runtime-output-pages'' # args
       \<and> known_layout v ''standing-runtime-output-pages'' args = Inr ()"
  by (auto simp: parse_standing_runtime_output_page_layout_def args_cases layout_args_iff known_defs discard_def split: if_splits)

interpretation standing_runtime_output_page: key_codec build_standing_runtime_output_page parse_standing_runtime_output_page standing_runtime_output_page_fits
  by (rule key_codecI [OF build_standing_runtime_output_page_iff _ standing_runtime_output_page_pieces standing_runtime_output_page_layout_iff
    standing_runtime_output_page_known parse_standing_runtime_output_page_def])
    (simp_all add: standing_runtime_output_page_segs_def)

definition standing_runtime_output_delta_fits :: "standing_runtime_output_delta_key_parts \<Rightarrow> bool" where
  "standing_runtime_output_delta_fits p \<longleftrightarrow> segment_ok (sd_tenant_id p)
       \<and> segment_ok (sd_program_id p) \<and> segment_ok (sd_view_id p)
       \<and> sd_logical_epoch p \<le> u64_max_value \<and> sha256_ok (sd_delta_content_hash p)"

definition standing_runtime_output_delta_segs :: "standing_runtime_output_delta_key_parts \<Rightarrow> string list" where
  "standing_runtime_output_delta_segs p = [''v1'', ''standing-runtime-output-deltas'', sd_tenant_id p,
       sd_program_id p, sd_view_id p, ''epochs'', pad checkpoint_width (sd_logical_epoch p), ''sha256'',
       drop 7 (sd_delta_content_hash p) @ ''.output-delta.arrow'']"

definition build_standing_runtime_output_delta :: "standing_runtime_output_delta_key_parts \<Rightarrow> (object_key_error,
       object_key) result" where
  "build_standing_runtime_output_delta p = standing_runtime_output_delta (sd_tenant_id p) (sd_program_id p) (sd_view_id p) (sd_logical_epoch p) (sd_delta_content_hash p)"

lemma build_standing_runtime_output_delta_iff: 
  "standing_runtime_output_delta_fits p \<Longrightarrow> build_standing_runtime_output_delta p = Inr k \<longleftrightarrow> k = ObjectKey (path (standing_runtime_output_delta_segs p))"
  by (auto simp: build_standing_runtime_output_delta_def standing_runtime_output_delta_def standing_runtime_output_delta_fits_def standing_runtime_output_delta_segs_def res_simps key_iffs)

lemma standing_runtime_output_delta_pieces: "standing_runtime_output_delta_fits p \<Longrightarrow> list_all piece (standing_runtime_output_delta_segs p)"
  by (simp add: standing_runtime_output_delta_fits_def standing_runtime_output_delta_segs_def piece_append) (simp add: piece_def)

lemma standing_runtime_output_delta_layout_iff:
  "parse_standing_runtime_output_delta_layout v = Inr p \<longleftrightarrow> standing_runtime_output_delta_fits p
       \<and> split_char CHR ''/'' v = standing_runtime_output_delta_segs p"
  by (cases p) (auto simp: parse_standing_runtime_output_delta_layout_def args_cases layout_args_iff
    parse_standing_runtime_output_delta_parts_def res_simps key_iffs
    standing_runtime_output_delta_fits_def standing_runtime_output_delta_segs_def sha256_ok_iff split: if_splits)

lemma standing_runtime_output_delta_known:
  "parse_standing_runtime_output_delta_layout v = Inr p \<Longrightarrow>
     \<exists>args. split_char CHR ''/'' v = ''v1'' # ''standing-runtime-output-deltas'' # args
       \<and> known_layout v ''standing-runtime-output-deltas'' args = Inr ()"
  by (auto simp: parse_standing_runtime_output_delta_layout_def args_cases layout_args_iff known_defs discard_def split: if_splits)

interpretation standing_runtime_output_delta: key_codec build_standing_runtime_output_delta parse_standing_runtime_output_delta standing_runtime_output_delta_fits
  by (rule key_codecI [OF build_standing_runtime_output_delta_iff _ standing_runtime_output_delta_pieces standing_runtime_output_delta_layout_iff
    standing_runtime_output_delta_known parse_standing_runtime_output_delta_def])
    (simp_all add: standing_runtime_output_delta_segs_def)


section \<open>Other constructors\<close>

lemma sha256_segment_iff: "parse_sha256_hash_segment x = Inr h \<longleftrightarrow> sha256_ok x \<and> h = drop 7 x"
  by (auto simp: parse_sha256_iff sha256_ok_iff)

text \<open>The same laws as evaluations.\<close>

lemma key_evals:
  "segment_ok s \<Longrightarrow> validate_segment name s = Inr ()"
  "hash_ok h \<Longrightarrow> validate_hash v h = Inr ()"
  "sha256_ok x \<Longrightarrow> validate_hash v (drop 7 x) = Inr ()"
  "segment_ok t \<Longrightarrow> segment_ok p \<Longrightarrow> segment_ok w \<Longrightarrow> validate_view_path t p w = Inr ()"
  "file_stem v suffix (stem @ suffix) = Inr stem"
  "n \<le> u64_max_value \<Longrightarrow> parse_fixed_u64 name (pad checkpoint_width n) checkpoint_width = Inr n"
  "n \<le> u32_max_value \<Longrightarrow> parse_prefixed_u32 name (partition_text n) ''p='' partition_width = Inr n"
  "n \<le> u64_max_value \<Longrightarrow> parse_prefixed_u64 name (checkpoint_text n) ''chk='' checkpoint_width = Inr n"
  "a < b \<Longrightarrow> b \<le> u64_max_value \<Longrightarrow> parse_offset_range v (range_text a b) = Inr (a, b)"
  "discard (Inr r) = Inr ()"
  by (simp_all add: key_iffs sha256_ok_def)

lemma piece_Cons [simp]: "piece (c # s) \<longleftrightarrow> c \<noteq> CHR ''/'' \<and> CHR ''/'' \<notin> set s"
  by (auto simp: piece_def)

lemma accepted:
  assumes "list_all piece (ns # args)" and "\<And>v. known_layout v ns args = Inr ()"
  shows "object_key_parse (path (''v1'' # ns # args)) = Inr (ObjectKey (path (''v1'' # ns # args)))"
proof -
  have "split_char CHR ''/'' (path (''v1'' # ns # args)) = ''v1'' # ns # args"
    using assms(1) by (intro split_path) (auto simp: piece_def)
  from object_key_parse_path [OF this assms(1)] assms(2) show ?thesis by simp
qed

lemma ingest_admission_record_iff:
  "ingest_admission_record s p a b = Inr k \<longleftrightarrow> segment_ok s \<and> a < b
     \<and> ObjectKey (path [''v1'', ''ingest-admission'', s, partition_text p, ''ranges'',
       range_text a b @ ''.admission.json'']) = k"
  by (simp add: ingest_admission_record_def res_simps key_iffs)

lemma ingest_admission_record_accepted:
  "ingest_admission_record s p a b = Inr k \<Longrightarrow> p \<le> u32_max_value
       \<and> b \<le> u64_max_value \<Longrightarrow> object_key_parse (as_str k) = Inr k"
  unfolding ingest_admission_record_iff by (elim conjE, hypsubst, unfold object_key.sel, rule accepted)
    (simp_all add: piece_append known_defs key_evals)

lemma ingest_admission_orphan_expiry_decision_iff:
  "ingest_admission_orphan_expiry_decision s p a b d = Inr k \<longleftrightarrow> segment_ok s \<and> segment_ok d \<and> a < b
     \<and> ObjectKey (path [''v1'', ''ingest-admission'', s, partition_text p, ''ranges'', range_text a b,
       ''expiry-decisions'', d @ ''.expiry.json'']) = k"
  by (simp add: ingest_admission_orphan_expiry_decision_def res_simps key_iffs)

lemma ingest_admission_orphan_expiry_decision_accepted:
  "ingest_admission_orphan_expiry_decision s p a b d = Inr k \<Longrightarrow> p \<le> u32_max_value
       \<and> b \<le> u64_max_value \<Longrightarrow> object_key_parse (as_str k) = Inr k"
  unfolding ingest_admission_orphan_expiry_decision_iff by (elim conjE, hypsubst, unfold object_key.sel, rule accepted)
    (simp_all add: piece_append known_defs key_evals)

lemma ingest_epoch_manifest_iff:
  "ingest_epoch_manifest e = Inr k \<longleftrightarrow> sha256_ok e
     \<and> ObjectKey (path [''v1'', ''ingest-epochs'', ''sha256'', drop 7 e @ ''.epoch.json'']) = k"
  by (simp add: ingest_epoch_manifest_def res_simps key_iffs sha256_segment_iff del: parse_sha256_iff)

lemma ingest_epoch_manifest_accepted:
  "ingest_epoch_manifest e = Inr k \<Longrightarrow> object_key_parse (as_str k) = Inr k"
  unfolding ingest_epoch_manifest_iff by (elim conjE, hypsubst, unfold object_key.sel, rule accepted)
    (simp_all add: piece_append known_defs key_evals)

lemma ingest_epoch_view_convergence_iff:
  "ingest_epoch_view_convergence e t p v = Inr k \<longleftrightarrow> sha256_ok e \<and> segment_ok t
       \<and> segment_ok p \<and> segment_ok v
     \<and> ObjectKey (path [''v1'', ''ingest-epoch-convergence'', ''sha256'', drop 7 e, t, p, v @ ''.convergence.json'']) = k"
  by (simp add: ingest_epoch_view_convergence_def res_simps key_iffs sha256_segment_iff del: parse_sha256_iff)

lemma ingest_epoch_view_convergence_accepted:
  "ingest_epoch_view_convergence e t p v = Inr k \<Longrightarrow> object_key_parse (as_str k) = Inr k"
  unfolding ingest_epoch_view_convergence_iff by (elim conjE, hypsubst, unfold object_key.sel, rule accepted)
    (simp_all add: piece_append known_defs key_evals)

lemma ingest_epoch_view_runtime_failure_iff:
  "ingest_epoch_view_runtime_failure e t p v = Inr k \<longleftrightarrow> sha256_ok e \<and> segment_ok t
       \<and> segment_ok p \<and> segment_ok v
     \<and> ObjectKey (path [''v1'', ''ingest-epoch-runtime-failures'', ''sha256'', drop 7 e, t, p, v @ ''.failure.json'']) = k"
  by (simp add: ingest_epoch_view_runtime_failure_def res_simps key_iffs sha256_segment_iff del: parse_sha256_iff)

lemma ingest_epoch_view_runtime_failure_accepted:
  "ingest_epoch_view_runtime_failure e t p v = Inr k \<Longrightarrow> object_key_parse (as_str k) = Inr k"
  unfolding ingest_epoch_view_runtime_failure_iff by (elim conjE, hypsubst, unfold object_key.sel, rule accepted)
    (simp_all add: piece_append known_defs key_evals)

lemma state_object_iff:
  "state_object s p c i = Inr k \<longleftrightarrow> segment_ok s \<and> segment_ok i
     \<and> ObjectKey (path [''v1'', ''state'', s, partition_text p, checkpoint_text c, i @ ''.state'']) = k"
  by (simp add: state_object_def res_simps key_iffs)

lemma state_object_accepted:
  "state_object s p c i = Inr k \<Longrightarrow> p \<le> u32_max_value
       \<and> c \<le> u64_max_value \<Longrightarrow> object_key_parse (as_str k) = Inr k"
  unfolding state_object_iff by (elim conjE, hypsubst, unfold object_key.sel, rule accepted)
    (simp_all add: piece_append known_defs key_evals)

lemma temp_publish_iff:
  "temp_publish c i x = Inr k \<longleftrightarrow> segment_ok i \<and> segment_ok x
     \<and> ObjectKey (path [''v1'', ''tmp'', pad checkpoint_width c, i, x]) = k"
  by (simp add: temp_publish_def res_simps key_iffs)

lemma temp_publish_accepted:
  "temp_publish c i x = Inr k \<Longrightarrow> c \<le> u64_max_value \<Longrightarrow> object_key_parse (as_str k) = Inr k"
  unfolding temp_publish_iff by (elim conjE, hypsubst, unfold object_key.sel, rule accepted)
    (simp_all add: piece_append known_defs key_evals)

lemma checkpoint_gc_transition_record_iff:
  "checkpoint_gc_transition_record c i = Inr k \<longleftrightarrow> segment_ok i
     \<and> ObjectKey (path [''v1'', ''checkpoint-gc-transitions'', pad checkpoint_width c, ''transitions'',
       i @ ''.transition.json'']) = k"
  by (simp add: checkpoint_gc_transition_record_def res_simps key_iffs)

lemma checkpoint_gc_transition_record_accepted:
  "checkpoint_gc_transition_record c i = Inr k \<Longrightarrow> c \<le> u64_max_value \<Longrightarrow> object_key_parse (as_str k) = Inr k"
  unfolding checkpoint_gc_transition_record_iff by (elim conjE, hypsubst, unfold object_key.sel, rule accepted)
    (simp_all add: piece_append known_defs key_evals)

lemma checkpoint_recovery_transition_record_iff:
  "checkpoint_recovery_transition_record c i = Inr k \<longleftrightarrow> segment_ok i
     \<and> ObjectKey (path [''v1'', ''checkpoint-recovery'', pad checkpoint_width c, ''transitions'',
       i @ ''.transition.json'']) = k"
  by (simp add: checkpoint_recovery_transition_record_def res_simps key_iffs)

lemma checkpoint_recovery_transition_record_accepted:
  "checkpoint_recovery_transition_record c i = Inr k \<Longrightarrow> c \<le> u64_max_value \<Longrightarrow> object_key_parse (as_str k) = Inr k"
  unfolding checkpoint_recovery_transition_record_iff by (elim conjE, hypsubst, unfold object_key.sel, rule accepted)
    (simp_all add: piece_append known_defs key_evals)

lemma garbage_collection_run_iff:
  "garbage_collection_run r = Inr k \<longleftrightarrow> segment_ok r
     \<and> ObjectKey (path [''v1'', ''gc-runs'', r @ ''.run.json'']) = k"
  by (simp add: garbage_collection_run_def res_simps key_iffs)

lemma garbage_collection_run_accepted:
  "garbage_collection_run r = Inr k \<Longrightarrow> object_key_parse (as_str k) = Inr k"
  unfolding garbage_collection_run_iff by (elim conjE, hypsubst, unfold object_key.sel, rule accepted)
    (simp_all add: piece_append known_defs key_evals)

lemma query_policy_iff:
  "query_policy t q = Inr k \<longleftrightarrow> segment_ok t \<and> segment_ok q
     \<and> ObjectKey (path [''v1'', ''query-policy'', t, q @ ''.json'']) = k"
  by (simp add: query_policy_def res_simps key_iffs)

lemma query_policy_accepted:
  "query_policy t q = Inr k \<Longrightarrow> object_key_parse (as_str k) = Inr k"
  unfolding query_policy_iff by (elim conjE, hypsubst, unfold object_key.sel, rule accepted)
    (simp_all add: piece_append known_defs key_evals)

lemma active_materialized_view_iff:
  "active_materialized_view v = Inr k \<longleftrightarrow> segment_ok v
     \<and> ObjectKey (path [''v1'', ''views'', v, ''active.json'']) = k"
  by (simp add: active_materialized_view_def res_simps key_iffs)

lemma active_materialized_view_accepted:
  "active_materialized_view v = Inr k \<Longrightarrow> object_key_parse (as_str k) = Inr k"
  unfolding active_materialized_view_iff by (elim conjE, hypsubst, unfold object_key.sel, rule accepted)
    (simp_all add: piece_append known_defs key_evals)

lemma standing_runtime_latest_checkpoint_iff:
  "standing_runtime_latest_checkpoint t p v = Inr k \<longleftrightarrow> segment_ok t \<and> segment_ok p \<and> segment_ok v
     \<and> ObjectKey (path [''v1'', ''standing-runtime-checkpoints'', t, p, v, ''latest.json'']) = k"
  by (simp add: standing_runtime_latest_checkpoint_def res_simps key_iffs)

lemma standing_runtime_latest_checkpoint_accepted:
  "standing_runtime_latest_checkpoint t p v = Inr k \<Longrightarrow> object_key_parse (as_str k) = Inr k"
  unfolding standing_runtime_latest_checkpoint_iff by (elim conjE, hypsubst, unfold object_key.sel, rule accepted)
    (simp_all add: piece_append known_defs key_evals)

lemma relation_catalog_iff:
  "relation_catalog r v = Inr k \<longleftrightarrow> segment_ok r \<and> segment_ok v
     \<and> ObjectKey (path [''v1'', ''relations'', r, ''versions'', v @ ''.relation.json'']) = k"
  by (simp add: relation_catalog_def res_simps key_iffs)

lemma relation_catalog_accepted:
  "relation_catalog r v = Inr k \<Longrightarrow> object_key_parse (as_str k) = Inr k"
  unfolding relation_catalog_iff by (elim conjE, hypsubst, unfold object_key.sel, rule accepted)
    (simp_all add: piece_append known_defs key_evals)


end
