(* ===== verification/Object_Key_Props.thy ===== *)
theory Object_Key_Props
  imports Object_Key_Laws
begin

text \<open>
  What the object keys promise their users: every constructor but one prints a key that the general
  parser accepts, the parsers are inverse to the constructors, and the order of the texts of ingest
  batches, by which stores list them, is the numeric order.
\<close>

section \<open>Constructed keys\<close>

lemma parse_with_accepts: "parse_with layout v = Inr (k, p) \<Longrightarrow> object_key_parse v = Inr k"
  by (simp add: parse_with_def res_simps)

lemma materialized_view_accepted:
  assumes "materialized_view v x = Inr k"
  shows "object_key_parse (as_str k) = Inr k"
proof -
  from assms obtain h where h: "segment_ok v" "hash_ok h"
    "k = ObjectKey (path [''v1'', ''views'', v, ''spec-sha256'', h @ ''.view.json''])"
    by (auto simp: materialized_view_def res_simps key_iffs)
  show ?thesis unfolding h(3) object_key.sel
    by (rule accepted) (use h in \<open>simp_all add: piece_append known_defs key_evals\<close>)
qed

lemma checkpoint_keys_accepted:
  assumes "c \<le> u64_max_value"
  shows "object_key_parse (as_str (checkpoint_manifest_key c)) = Inr (checkpoint_manifest_key c)"
    and "object_key_parse (as_str (checkpoint_lifecycle_record c)) = Inr (checkpoint_lifecycle_record c)"
    and "object_key_parse (as_str (checkpoint_retention_record c)) = Inr (checkpoint_retention_record c)"
    and "object_key_parse (as_str checkpoint_latest_candidate_marker) = Inr checkpoint_latest_candidate_marker"
  using accepted [of "''checkpoints''" "[pad checkpoint_width c @ ''.manifest'']"]
    accepted [of "''checkpoint-lifecycle''" "[pad checkpoint_width c @ ''.status.json'']"]
    accepted [of "''checkpoint-retention''" "[pad checkpoint_width c @ ''.retention.json'']"]
    accepted [of "''checkpoint-index''" "[''latest-candidate.json'']"] assms
  by (simp_all add: piece_append known_defs key_evals checkpoint_manifest_key_def checkpoint_lifecycle_record_def
    checkpoint_retention_record_def checkpoint_latest_candidate_marker_def)

text \<open>
  The keys that the constructors return when their numbers are values of the Rust types, without those of
  \<open>output_chunk\<close>.
\<close>

inductive built_key :: "object_key \<Rightarrow> bool" where
  "ingest_batch_fits p0 \<Longrightarrow> build_ingest_batch p0 = Inr k \<Longrightarrow> built_key k"
| "ingest_staging_fits p1 \<Longrightarrow> build_ingest_staging p1 = Inr k \<Longrightarrow> built_key k"
| "output_object_fits p2 \<Longrightarrow> build_output_object p2 = Inr k \<Longrightarrow> built_key k"
| "ownership_epoch_record_fits p3 \<Longrightarrow> build_ownership_epoch_record p3 = Inr k \<Longrightarrow> built_key k"
| "standing_runtime_checkpoint_fits p4 \<Longrightarrow> build_standing_runtime_checkpoint p4 = Inr k \<Longrightarrow> built_key k"
| "standing_runtime_state_payload_fits p5 \<Longrightarrow> build_standing_runtime_state_payload p5 = Inr k \<Longrightarrow> built_key k"
| "standing_runtime_output_manifest_fits p6 \<Longrightarrow> build_standing_runtime_output_manifest p6 = Inr k \<Longrightarrow> built_key k"
| "standing_runtime_output_page_fits p7 \<Longrightarrow> build_standing_runtime_output_page p7 = Inr k \<Longrightarrow> built_key k"
| "standing_runtime_output_delta_fits p8 \<Longrightarrow> build_standing_runtime_output_delta p8 = Inr k \<Longrightarrow> built_key k"
| "ingest_admission_record s p a b = Inr k \<Longrightarrow> p \<le> u32_max_value
       \<and> b \<le> u64_max_value \<Longrightarrow> built_key k"
| "ingest_admission_orphan_expiry_decision s p a b d = Inr k \<Longrightarrow> p \<le> u32_max_value
       \<and> b \<le> u64_max_value \<Longrightarrow> built_key k"
| "ingest_epoch_manifest e = Inr k \<Longrightarrow> built_key k"
| "ingest_epoch_view_convergence e t p v = Inr k \<Longrightarrow> built_key k"
| "ingest_epoch_view_runtime_failure e t p v = Inr k \<Longrightarrow> built_key k"
| "state_object s p c i = Inr k \<Longrightarrow> p \<le> u32_max_value
       \<and> c \<le> u64_max_value \<Longrightarrow> built_key k"
| "temp_publish c i x = Inr k \<Longrightarrow> c \<le> u64_max_value \<Longrightarrow> built_key k"
| "checkpoint_gc_transition_record c i = Inr k \<Longrightarrow> c \<le> u64_max_value \<Longrightarrow> built_key k"
| "checkpoint_recovery_transition_record c i = Inr k \<Longrightarrow> c \<le> u64_max_value \<Longrightarrow> built_key k"
| "garbage_collection_run r = Inr k \<Longrightarrow> built_key k"
| "query_policy t q = Inr k \<Longrightarrow> built_key k"
| "active_materialized_view v = Inr k \<Longrightarrow> built_key k"
| "standing_runtime_latest_checkpoint t p v = Inr k \<Longrightarrow> built_key k"
| "relation_catalog r v = Inr k \<Longrightarrow> built_key k"
| "materialized_view v h = Inr k \<Longrightarrow> built_key k"
| "c \<le> u64_max_value \<Longrightarrow> built_key (checkpoint_manifest_key c)"
| "c \<le> u64_max_value \<Longrightarrow> built_key (checkpoint_lifecycle_record c)"
| "c \<le> u64_max_value \<Longrightarrow> built_key (checkpoint_retention_record c)"
| "built_key checkpoint_latest_candidate_marker"

lemmas codec_roundtrips = ingest_batch.roundtrip [unfolded parse_ingest_batch_def]
  ingest_staging.roundtrip [unfolded parse_ingest_staging_def]
  output_object.roundtrip [unfolded parse_output_object_def]
  ownership_epoch_record.roundtrip [unfolded parse_ownership_epoch_record_def]
  standing_runtime_checkpoint.roundtrip [unfolded parse_standing_runtime_checkpoint_def]
  standing_runtime_state_payload.roundtrip [unfolded parse_standing_runtime_state_payload_def]
  standing_runtime_output_manifest.roundtrip [unfolded parse_standing_runtime_output_manifest_def]
  standing_runtime_output_page.roundtrip [unfolded parse_standing_runtime_output_page_def]
  standing_runtime_output_delta.roundtrip [unfolded parse_standing_runtime_output_delta_def]

lemmas constructor_accepted = ingest_admission_record_accepted
  ingest_admission_orphan_expiry_decision_accepted
  ingest_epoch_manifest_accepted
  ingest_epoch_view_convergence_accepted
  ingest_epoch_view_runtime_failure_accepted
  state_object_accepted
  temp_publish_accepted
  checkpoint_gc_transition_record_accepted
  checkpoint_recovery_transition_record_accepted
  garbage_collection_run_accepted
  query_policy_accepted
  active_materialized_view_accepted
  standing_runtime_latest_checkpoint_accepted
  relation_catalog_accepted
  materialized_view_accepted checkpoint_keys_accepted

text \<open>
  C26: Every key that a constructor other than \<open>output_chunk\<close> returns is accepted by \<open>ObjectKey::parse\<close>,
  so keys that are stored in manifests can be read back.
\<close>

theorem built_keys_parse:
  assumes "built_key k"
  shows "object_key_parse (as_str k) = Inr k"
  using assms by cases (blast intro: parse_with_accepts codec_roundtrips constructor_accepted)+

theorem built_keys_parse_witness:
  "\<exists>k. state_object ''owner'' 12 9 ''state-0001'' = Inr k \<and> object_key_parse (as_str k) = Inr k
     \<and> as_str k = ''v1/state/owner/p=0000000012/chk=00000000000000000009/state-0001.state''"
proof -
  have "state_object ''owner'' 12 9 ''state-0001'' =
      Inr (ObjectKey ''v1/state/owner/p=0000000012/chk=00000000000000000009/state-0001.state'')" by code_simp
  moreover from this have "built_key (ObjectKey ''v1/state/owner/p=0000000012/chk=00000000000000000009/state-0001.state'')"
    by (rule built_key.intros) (simp add: u32_max_value_def u64_max_value_def)
  ultimately show ?thesis using built_keys_parse [of "ObjectKey ''v1/state/owner/p=0000000012/chk=00000000000000000009/state-0001.state''"]
    by simp
qed

text \<open>
  C28: A key that \<open>output_chunk\<close> returns is rejected by \<open>ObjectKey::parse\<close>, which has no layout for the
  namespace \<open>output-chunks\<close>, so it cannot be read back from a stored document.
\<close>

theorem output_chunk_not_parsed:
  assumes "output_chunk chunk_hash = Inr k"
  shows "object_key_parse (as_str k) = Inl (InvalidExternalKey (as_str k))"
proof -
  from assms obtain h where h: "hash_ok h" "as_str k = path (''v1'' # ''output-chunks'' # [''sha256'', h @ ''.chunk.arrow-ipc''])"
    by (auto simp: output_chunk_def res_simps key_iffs)
  have pieces: "list_all piece (''output-chunks'' # [''sha256'', h @ ''.chunk.arrow-ipc''])"
    using h(1) by (simp add: piece_append)
  have "split_char CHR ''/'' (as_str k) = ''v1'' # ''output-chunks'' # [''sha256'', h @ ''.chunk.arrow-ipc'']"
    unfolding h(2) by (rule split_path) (use pieces in simp_all)
  from object_key_parse_path [OF this pieces] show ?thesis by (simp add: known_defs)
qed

theorem output_chunk_not_parsed_witness:
  "\<exists>k e. output_chunk (''sha256:'' @ replicate 64 CHR ''a'') = Inr k \<and> object_key_parse (as_str k) = Inl e"
proof -
  have "isl (output_chunk (''sha256:'' @ replicate 64 CHR ''a'')) = False" by code_simp
  then obtain k where k: "output_chunk (''sha256:'' @ replicate 64 CHR ''a'') = Inr k"
    by (cases "output_chunk (''sha256:'' @ replicate 64 CHR ''a'')") auto
  with output_chunk_not_parsed [OF k] show ?thesis by blast
qed

section \<open>Parsers\<close>

text \<open>
  C25: The parsers of ingest batches, staging objects, output objects, ownership records and of the five
  kinds of runtime objects accept exactly the texts that the constructors print for values in the ranges
  of their types, and return the values that were printed.
\<close>

theorem key_parsers_exact:
  "(parse_ingest_batch s = Inr (k, p1) \<longleftrightarrow> ingest_batch_fits p1
       \<and> build_ingest_batch p1 = Inr k \<and> k = ObjectKey s)
   \<and> (parse_ingest_staging s = Inr (k, p2) \<longleftrightarrow>
        ingest_staging_fits p2 \<and> build_ingest_staging p2 = Inr k \<and> k = ObjectKey s)
   \<and> (parse_output_object s = Inr (k, p3) \<longleftrightarrow> output_object_fits p3
       \<and> build_output_object p3 = Inr k \<and> k = ObjectKey s)
   \<and> (parse_ownership_epoch_record s = Inr (k, p4) \<longleftrightarrow>
        ownership_epoch_record_fits p4 \<and> build_ownership_epoch_record p4 = Inr k \<and> k = ObjectKey s)
   \<and> (parse_standing_runtime_checkpoint s = Inr (k, p5) \<longleftrightarrow>
        standing_runtime_checkpoint_fits p5 \<and> build_standing_runtime_checkpoint p5 = Inr k \<and> k = ObjectKey s)
   \<and> (parse_standing_runtime_state_payload s = Inr (k, p6) \<longleftrightarrow>
        standing_runtime_state_payload_fits p6 \<and> build_standing_runtime_state_payload p6 = Inr k \<and> k = ObjectKey s)
   \<and> (parse_standing_runtime_output_manifest s = Inr (k, p7) \<longleftrightarrow>
        standing_runtime_output_manifest_fits p7 \<and> build_standing_runtime_output_manifest p7 = Inr k \<and> k = ObjectKey s)
   \<and> (parse_standing_runtime_output_page s = Inr (k, p8) \<longleftrightarrow>
        standing_runtime_output_page_fits p8 \<and> build_standing_runtime_output_page p8 = Inr k \<and> k = ObjectKey s)
   \<and> (parse_standing_runtime_output_delta s = Inr (k, p9) \<longleftrightarrow>
        standing_runtime_output_delta_fits p9 \<and> build_standing_runtime_output_delta p9 = Inr k \<and> k = ObjectKey s)"
  by (intro conjI; rule ingest_batch.parse_iff ingest_staging.parse_iff output_object.parse_iff
    ownership_epoch_record.parse_iff standing_runtime_checkpoint.parse_iff standing_runtime_state_payload.parse_iff
    standing_runtime_output_manifest.parse_iff standing_runtime_output_page.parse_iff
    standing_runtime_output_delta.parse_iff)

text \<open>A staged object is never taken for a committed batch.\<close>

lemma staging_not_batch: "parse_ingest_staging s = Inr x \<Longrightarrow> parse_ingest_batch s \<noteq> Inr y"
  by (auto simp: parse_ingest_staging_def parse_ingest_batch_def parse_with_def parse_ingest_staging_layout_def
    parse_ingest_batch_layout_def res_simps args_cases layout_args_iff)

section \<open>Order\<close>

text \<open>The derived order of \<open>ObjectKey\<close>, by which stores list keys, is the order of the texts.\<close>

instantiation object_key :: linorder
begin

definition less_eq_object_key :: "object_key \<Rightarrow> object_key \<Rightarrow> bool" where
  "k \<le> k' \<longleftrightarrow> as_str k \<le> as_str k'"

definition less_object_key :: "object_key \<Rightarrow> object_key \<Rightarrow> bool" where
  "k < k' \<longleftrightarrow> as_str k < as_str k'"

instance
  by standard (auto simp: less_eq_object_key_def less_object_key_def intro: object_key.expand)

end

lemma less_append_same: "a @ x < a @ y \<longleftrightarrow> x < (y :: string)"
  by (induction a) auto

lemma less_append_length:
  "length x = length y \<Longrightarrow> x @ s < y @ t \<longleftrightarrow> x < y \<or> (x = y \<and> s < (t :: string))"
  by (induction x y rule: list_induct2) auto

lemma digits_val_less:
  assumes "length xs = length ys" "list_all is_ascii_digit xs" "list_all is_ascii_digit ys"
  shows "xs < ys \<longleftrightarrow> digits_val xs < digits_val ys"
  using assms
proof (induction xs ys rule: list_induct2)
  case (Cons x xs y ys)
  define b :: int where "b = 10 ^ length ys"
  have val: "digits_val (x # xs) = digit_val x * b + digits_val xs" "digits_val (y # ys) = digit_val y * b + digits_val ys"
    using digits_val_append [of "[x]" xs] digits_val_append [of "[y]" ys] Cons.hyps by (simp_all add: digits_val_def b_def)
  have r: "0 \<le> digits_val xs" "digits_val xs < b" "0 \<le> digits_val ys" "digits_val ys < b"
    using Cons digits_val_nonneg digits_val_bound [of xs] digits_val_bound [of ys] by (simp_all add: b_def)
  have step: "m * b + u < n * b + v" if "m < n" "u < b" "0 \<le> v" "0 \<le> u" for m n u v :: int
  proof -
    have "(m + 1) * b \<le> n * b" using that r by (intro mult_right_mono) simp_all
    with that show ?thesis by (simp add: algebra_simps)
  qed
  consider "digit_val x < digit_val y" | "digit_val x = digit_val y" | "digit_val y < digit_val x" by linarith
  then show ?case
  proof cases
    case 1
    then have "x < y" by (simp add: less_char_def digit_val_def)
    with step [OF 1 r(2,3,1)] show ?thesis by (simp add: val)
  next
    case 2
    then have "x = y" using digit_of_val [of x] digit_of_val [of y] Cons.prems by simp
    then have "x # xs < y # ys \<longleftrightarrow> xs < ys" by simp
    also have "\<dots> \<longleftrightarrow> digits_val xs < digits_val ys" using Cons by simp
    finally show ?thesis using 2 unfolding val by simp
  next
    case 3
    then have "y < x" by (simp add: less_char_def digit_val_def)
    with step [OF 3 r(4,1,3)] show ?thesis by (auto simp: val)
  qed
qed (simp add: digits_val_def)

lemma pad_less: "0 < w \<Longrightarrow> m < 10 ^ w \<Longrightarrow> n < 10 ^ w \<Longrightarrow> pad w m < pad w n \<longleftrightarrow> m < n"
  using digits_val_less [of "pad w m" "pad w n"] length_pad [of w] by simp

lemma bounded_widths:
  "n \<le> u32_max_value \<Longrightarrow> n < 10 ^ partition_width" "n \<le> u64_max_value \<Longrightarrow> n < 10 ^ offset_width"
  "n \<le> u64_max_value \<Longrightarrow> n < 10 ^ checkpoint_width" "0 < partition_width" "0 < offset_width" "0 < checkpoint_width"
  by (simp_all add: u32_max_value_def u64_max_value_def partition_width_def offset_width_def checkpoint_width_def)

text \<open>
  C27: The keys of the ingest batches of a stream are in the order of partition, start offset and end
  offset, so listing them by text lists them in the order in which they are replayed.
\<close>

theorem ingest_batch_order:
  assumes "ingest_batch stream p a b = Inr k" and "ingest_batch stream p' a' b' = Inr k'"
    and "p \<le> u32_max_value" "p' \<le> u32_max_value" "b \<le> u64_max_value" "b' \<le> u64_max_value"
  shows "k < k' \<longleftrightarrow> p < p' \<or> (p = p' \<and> (a < a' \<or> (a = a' \<and> b < b')))"
proof -
  have key: "as_str k = ''v1/ingest/'' @ stream @ ''/p='' @ pad partition_width p @ ''/'' @ pad offset_width a @ ''-'' @ pad offset_width b @ ''.batch''"
    "as_str k' = ''v1/ingest/'' @ stream @ ''/p='' @ pad partition_width p' @ ''/'' @ pad offset_width a' @ ''-'' @ pad offset_width b' @ ''.batch''"
    and "a < b" "a' < b'"
    using assms(1,2) by (auto simp: ingest_batch_def res_simps key_iffs partition_text_def range_text_def)
  then have w: "p < 10 ^ partition_width" "p' < 10 ^ partition_width" "a < 10 ^ offset_width" "a' < 10 ^ offset_width"
    "b < 10 ^ offset_width" "b' < 10 ^ offset_width" using assms bounded_widths(1,2) by simp_all
  note less = less_append_same less_append_length length_pad pad_less pad_inject bounded_widths(4,5) w
  show ?thesis unfolding less_object_key_def key by (simp only: less) (simp add: less)
qed

theorem ingest_batch_order_witness:
  "\<exists>k k'. ingest_batch ''orders'' 999999 0 1 = Inr k \<and> ingest_batch ''orders'' 1000000 0 1 = Inr k' \<and> k < k'"
proof -
  have "validate_segment ''stream_id'' ''orders'' = Inr ()" by code_simp
  then obtain k k' where "ingest_batch ''orders'' 999999 0 1 = Inr k" "ingest_batch ''orders'' 1000000 0 1 = Inr k'"
    by (simp add: ingest_batch_def validate_offset_range_def)
  with ingest_batch_order [OF this] show ?thesis by (simp add: u32_max_value_def u64_max_value_def)
qed

end
