(* ===== verification/Ownership.thy ===== *)
theory Ownership
  imports Object_Key_Props
begin

text \<open>
  Ownership epoch records (\<open>velorix-storage/src/ownership.rs\<close>): the durable statement that an owner holds a
  partition with an epoch, stored under a key that names the partition and the epoch. A record is
  accepted under exactly the key of its own body.
\<close>

section \<open>Definitions\<close>

record ownership_epoch_record =
  er_stream_id :: string
  er_partition_id :: nat
  er_owner_id :: string
  er_owner_epoch :: nat
  er_lease_identity :: string
  er_created_at :: string
  er_previous_epoch :: "nat option"
  er_previous_checkpoint_version :: "nat option"

datatype ownership_epoch_record_error =
    OwnershipObjectKey object_key_error
  | MissingOwnerId
  | MissingLeaseIdentity
  | MissingRecordCreationTimestamp
  | OwnershipKeyMismatch object_key object_key
  | RecordOwnerClaimMismatch object_key string nat string nat

definition record_object_key :: "ownership_epoch_record \<Rightarrow> (object_key_error, object_key) result" where
  "record_object_key self = ownership_epoch_record_key (er_stream_id self) (er_partition_id self) (er_owner_epoch self)"

definition record_validate :: "ownership_epoch_record \<Rightarrow> (ownership_epoch_record_error, unit) result" where
  "record_validate self =
     rbind (rmap_err OwnershipObjectKey (record_object_key self)) (\<lambda>_.
       if er_owner_id self = [] then Inl MissingOwnerId
       else if er_lease_identity self = [] then Inl MissingLeaseIdentity
       else if er_created_at self = [] then Inl MissingRecordCreationTimestamp
       else Inr ())"

definition validate_object_key :: "ownership_epoch_record \<Rightarrow> object_key \<Rightarrow> (ownership_epoch_record_error, unit) result" where
  "validate_object_key self object_key =
     rbind (record_validate self) (\<lambda>_.
     rbind (rmap_err OwnershipObjectKey (record_object_key self)) (\<lambda>body_key.
       if body_key \<noteq> object_key then Inl (OwnershipKeyMismatch object_key body_key) else Inr ()))"

definition record_validate_owner_claim :: "ownership_epoch_record \<Rightarrow> object_key \<Rightarrow> string \<Rightarrow> nat \<Rightarrow>
    (ownership_epoch_record_error, unit) result" where
  "record_validate_owner_claim self object_key owner_id owner_epoch =
     rbind (validate_object_key self object_key) (\<lambda>_.
       if er_owner_id self \<noteq> owner_id \<or> er_owner_epoch self \<noteq> owner_epoch
       then Inl (RecordOwnerClaimMismatch object_key owner_id owner_epoch (er_owner_id self) (er_owner_epoch self))
       else Inr ())"

section \<open>Laws\<close>

definition record_ok :: "ownership_epoch_record \<Rightarrow> bool" where
  "record_ok r \<longleftrightarrow> segment_ok (er_stream_id r) \<and> er_owner_id r \<noteq> [] \<and> er_lease_identity r \<noteq> [] \<and> er_created_at r \<noteq> []"

lemma ownership_key_iff:
  "ownership_epoch_record_key s p e = Inr k \<longleftrightarrow> segment_ok s
     \<and> ObjectKey (path [''v1'', ''ownership'', s, partition_text p, epoch_text e @ ''.claim'']) = k"
  by (simp add: ownership_epoch_record_key_def res_simps key_iffs)

lemma record_validate_iff: "record_validate r = Inr u \<longleftrightarrow> record_ok r"
proof (cases "record_object_key r")
  case (Inl e)
  then have "\<not> segment_ok (er_stream_id r)"
    using ownership_key_iff [of "er_stream_id r" "er_partition_id r" "er_owner_epoch r"] by (auto simp: record_object_key_def)
  with Inl show ?thesis by (simp add: record_validate_def record_ok_def res_simps)
next
  case (Inr k)
  then have "segment_ok (er_stream_id r)" by (simp add: record_object_key_def ownership_key_iff)
  with Inr show ?thesis by (simp add: record_validate_def record_ok_def res_simps)
qed

lemma validate_object_key_iff:
  "validate_object_key r k = Inr u \<longleftrightarrow> record_ok r \<and> record_object_key r = Inr k"
  by (auto simp: validate_object_key_def res_simps record_validate_iff split: if_splits)

lemma record_owner_claim_iff:
  "record_validate_owner_claim r k owner epoch = Inr u \<longleftrightarrow>
     record_ok r \<and> record_object_key r = Inr k \<and> er_owner_id r = owner \<and> er_owner_epoch r = epoch"
  by (auto simp: record_validate_owner_claim_def res_simps validate_object_key_iff split: if_splits)

text \<open>Records of values in range under one key agree on stream, partition and epoch.\<close>

lemma record_key_determines:
  assumes "record_object_key r = Inr k" and "ownership_epoch_record_key s p e = Inr k"
    and "er_partition_id r \<le> u32_max_value" "p \<le> u32_max_value" "er_owner_epoch r \<le> u64_max_value" "e \<le> u64_max_value"
  shows "er_stream_id r = s \<and> er_partition_id r = p \<and> er_owner_epoch r = e"
proof -
  let ?a = "\<lparr>ow_stream_id = er_stream_id r, ow_partition_id = er_partition_id r, ow_owner_epoch = er_owner_epoch r\<rparr>"
  let ?b = "\<lparr>ow_stream_id = s, ow_partition_id = p, ow_owner_epoch = e\<rparr>"
  have "?a = ?b"
    by (rule ownership_epoch_record.build_inject)
      (use assms in \<open>auto simp: build_ownership_epoch_record_def ownership_epoch_record_fits_def record_object_key_def
        ownership_key_iff\<close>)
  then show ?thesis by simp
qed

end
