(* ===== verification/Reconcile.thy ===== *)
theory Reconcile
  imports Lease Ownership
begin

text \<open>
  The reconcile planner (\<open>velorix-control/src/reconcile_plan.rs\<close>) with the view contract it reads
  (\<open>control_plane_contract.rs\<close>) and the facts that \<open>velorix-k8s/src/worker_shard.rs\<close> builds for it from a
  lease and an ownership epoch record. A plan is a list of actions; \<open>run_action\<close>
  says what an action does to the one worker of the partition.

  Carrying out a plan leaves exactly the worker that lease, epoch record and desired owner agree on.
\<close>

section \<open>Definitions\<close>

datatype condition_status = ConditionTrue | ConditionFalse | ConditionUnknown

record velorix_condition =
  vc_type :: string
  vc_status :: condition_status
  vc_reason :: string
  vc_message :: string

record velorix_view_status =
  vs_observed_generation :: "nat option"
  vs_observed_checkpoint_version :: "nat option"
  vs_observed_owner_epoch :: "nat option"
  vs_conditions :: "velorix_condition list"

record worker_intent =
  wi_stream_id :: string
  wi_partition_id :: nat
  wi_owner_id :: string

record velorix_view_spec =
  sp_view_id :: string
  sp_worker :: worker_intent

record contract_metadata =
  cm_name :: string
  cm_namespace :: string
  cm_generation :: nat

record velorix_view =
  vv_api_version :: string
  vv_kind :: string
  vv_metadata :: contract_metadata
  vv_spec_version :: nat
  vv_spec :: velorix_view_spec
  vv_status :: velorix_view_status

record lease_fact =
  lf_owner_id :: string
  lf_owner_epoch :: "nat option"

record epoch_record_fact =
  ef_owner_id :: string
  ef_owner_epoch :: nat

record worker_fact =
  wf_owner_id :: string
  wf_owner_epoch :: nat

record observed_control_plane_facts =
  of_lease :: "lease_fact option"
  of_epoch_record :: "epoch_record_fact option"
  of_worker :: "worker_fact option"

datatype reconcile_action =
    AcquireLease string
  | RenewLease string
  | StopWorker string nat
  | StartWorker string nat

datatype reconcile_block_reason =
  MissingDurableEpochRecordSupport | EpochRecordConflict | LeaseOwnerConflict

record reconcile_plan =
  rp_actions :: "reconcile_action list"
  rp_block_reason :: "reconcile_block_reason option"

definition stop_worker_if_running :: "reconcile_plan \<Rightarrow> worker_fact option \<Rightarrow> reconcile_plan" where
  "stop_worker_if_running plan worker =
     (case worker of
        Some w \<Rightarrow> plan\<lparr>rp_actions := rp_actions plan @ [StopWorker (wf_owner_id w) (wf_owner_epoch w)]\<rparr>
      | None \<Rightarrow> plan)"

definition plan_reconcile :: "velorix_view \<Rightarrow> observed_control_plane_facts \<Rightarrow> reconcile_plan" where
  "plan_reconcile desired facts =
     (let desired_owner = wi_owner_id (sp_worker (vv_spec desired));
          plan = \<lparr>rp_actions = [], rp_block_reason = None\<rparr>;
          stopped = stop_worker_if_running plan (of_worker facts) in
      case of_lease facts of
        None \<Rightarrow> stopped\<lparr>rp_actions := rp_actions stopped @ [AcquireLease desired_owner]\<rparr>
      | Some lease \<Rightarrow>
          if lf_owner_id lease \<noteq> desired_owner then stopped\<lparr>rp_block_reason := Some LeaseOwnerConflict\<rparr>
          else (case lf_owner_epoch lease of
            None \<Rightarrow> stopped\<lparr>rp_block_reason := Some MissingDurableEpochRecordSupport\<rparr>
          | Some lease_epoch \<Rightarrow> (case of_epoch_record facts of
              None \<Rightarrow> stopped\<lparr>rp_block_reason := Some MissingDurableEpochRecordSupport\<rparr>
            | Some epoch_record \<Rightarrow>
                if \<not> (ef_owner_id epoch_record = lf_owner_id lease \<and> ef_owner_epoch epoch_record = lease_epoch)
                then stopped\<lparr>rp_block_reason := Some EpochRecordConflict\<rparr>
                else (case of_worker facts of
                  Some worker \<Rightarrow>
                    if wf_owner_id worker = lf_owner_id lease \<and> wf_owner_epoch worker = lease_epoch
                    then plan\<lparr>rp_actions := [RenewLease (lf_owner_id lease)]\<rparr>
                    else plan\<lparr>rp_actions := [StopWorker (wf_owner_id worker) (wf_owner_epoch worker),
                                             StartWorker (lf_owner_id lease) lease_epoch]\<rparr>
                | None \<Rightarrow> plan\<lparr>rp_actions := [StartWorker (lf_owner_id lease) lease_epoch]\<rparr>))))"

definition facts_from_observations :: "partition_lease_grant option \<Rightarrow> ownership_epoch_record option \<Rightarrow>
    worker_fact option \<Rightarrow> observed_control_plane_facts" where
  "facts_from_observations lease epoch_record worker =
     \<lparr>of_lease = map_option (\<lambda>grant. \<lparr>lf_owner_id = lg_owner_id grant, lf_owner_epoch = Some (lg_owner_epoch grant)\<rparr>) lease,
      of_epoch_record = map_option (\<lambda>record. \<lparr>ef_owner_id = er_owner_id record, ef_owner_epoch = er_owner_epoch record\<rparr>) epoch_record,
      of_worker = worker\<rparr>"

section \<open>Specification\<close>

text \<open>A worker that is started while another one runs does not replace it.\<close>

fun run_action :: "reconcile_action \<Rightarrow> worker_fact option \<Rightarrow> worker_fact option" where
  "run_action (StopWorker owner epoch) w = (if w = Some \<lparr>wf_owner_id = owner, wf_owner_epoch = epoch\<rparr> then None else w)"
| "run_action (StartWorker owner epoch) w = (if w = None then Some \<lparr>wf_owner_id = owner, wf_owner_epoch = epoch\<rparr> else w)"
| "run_action _ w = w"

definition worker_after :: "velorix_view \<Rightarrow> observed_control_plane_facts \<Rightarrow> worker_fact option" where
  "worker_after desired facts = fold run_action (rp_actions (plan_reconcile desired facts)) (of_worker facts)"

text \<open>The worker that the desired owner, the lease and the durable epoch record agree on.\<close>

definition authorised :: "velorix_view \<Rightarrow> observed_control_plane_facts \<Rightarrow> worker_fact \<Rightarrow> bool" where
  "authorised desired facts w \<longleftrightarrow>
     wf_owner_id w = wi_owner_id (sp_worker (vv_spec desired))
     \<and> of_lease facts = Some \<lparr>lf_owner_id = wf_owner_id w, lf_owner_epoch = Some (wf_owner_epoch w)\<rparr>
     \<and> of_epoch_record facts = Some \<lparr>ef_owner_id = wf_owner_id w, ef_owner_epoch = wf_owner_epoch w\<rparr>"

lemma worker_after_authorised: "worker_after desired facts = Some w \<longleftrightarrow> authorised desired facts w"
  by (cases "of_lease facts"; cases "of_epoch_record facts"; cases "of_worker facts"; cases w)
    (auto simp: worker_after_def plan_reconcile_def stop_worker_if_running_def authorised_def Let_def
      split: option.splits if_splits)

section \<open>Properties\<close>


end
