(* ===== verification/Reachability_Gc.thy ===== *)
theory Reachability_Gc
  imports Velorix_Prelude
begin

text \<open>
  Garbage collection by reachability (\<open>velorix-storage/src/reachability_gc.rs\<close>). A \<open>BTreeSet\<close> is a
  \<open>BTreeMap\<close> to unit; a \<open>HashSet\<close> is a list without repetitions. The order in which a \<open>HashSet\<close> is
  iterated is not specified, so it is the argument \<open>ord\<close>, of which only \<open>hash_order\<close> is assumed.

  The traversal returns exactly what the registered roots reach. An object that is reachable is never
  garbage, and one that is garbage was unreachable at every mark for the grace period. Between two
  marks it may have been reachable.
\<close>

section \<open>Definitions\<close>

datatype object_kind = CheckpointManifest | StateObject | OutputObject | LifecycleRecord | AdmissionRecord

record reachability_graph =
  rg_roots :: "(string, unit) btree_map"
  rg_edges :: "(string, string list) btree_map"
  rg_objects :: "(string, object_kind) btree_map"
  rg_grace_period_secs :: nat
  rg_unreachable_at :: "(string, nat) btree_map"

definition reachability_new :: "nat \<Rightarrow> reachability_graph" where
  "reachability_new grace_period_secs = \<lparr>rg_roots = [], rg_edges = [], rg_objects = [],
     rg_grace_period_secs = grace_period_secs, rg_unreachable_at = []\<rparr>"

definition add_root :: "reachability_graph \<Rightarrow> string \<Rightarrow> reachability_graph" where
  "add_root self key = self\<lparr>rg_roots := bt_insert key () (rg_roots self)\<rparr>"

definition remove_root :: "reachability_graph \<Rightarrow> string \<Rightarrow> reachability_graph" where
  "remove_root self key = self\<lparr>rg_roots := bt_remove key (rg_roots self)\<rparr>"

definition register_object :: "reachability_graph \<Rightarrow> string \<Rightarrow> object_kind \<Rightarrow> reachability_graph" where
  "register_object self key kind = self\<lparr>rg_objects := bt_insert key kind (rg_objects self)\<rparr>"

definition add_reference :: "reachability_graph \<Rightarrow> string \<Rightarrow> string \<Rightarrow> reachability_graph" where
  "add_reference self from_key to_key =
     (let refs = (case bt_get (rg_edges self) from_key of Some refs \<Rightarrow> refs | None \<Rightarrow> []) in
      self\<lparr>rg_edges := bt_insert from_key (List.insert to_key refs) (rg_edges self)\<rparr>)"

text \<open>The inner loop: neighbours seen for the first time are pushed. The end of the vector is the head of the list.\<close>

fun push_new :: "string list \<Rightarrow> string list \<Rightarrow> string list \<Rightarrow> string list \<times> string list" where
  "push_new [] reachable queue = (reachable, queue)"
| "push_new (neighbor # refs) reachable queue =
     (if neighbor \<in> set reachable then push_new refs reachable queue
      else push_new refs (neighbor # reachable) (neighbor # queue))"

definition references :: "(string list \<Rightarrow> string list) \<Rightarrow> (string, string list) btree_map \<Rightarrow> string \<Rightarrow> string list" where
  "references ord edges current = (case bt_get edges current of Some refs \<Rightarrow> ord refs | None \<Rightarrow> [])"

text \<open>All keys that the reference graph can push.\<close>

definition targets :: "(string list \<Rightarrow> string list) \<Rightarrow> (string, string list) btree_map \<Rightarrow> string set" where
  "targets ord edges = (\<Union>e \<in> set edges. set (ord (snd e)))"

lemma references_targets: "set (references ord edges current) \<subseteq> targets ord edges"
proof (cases "bt_get edges current")
  case (Some refs)
  then have "(current, refs) \<in> set edges" by (rule map_of_SomeD)
  with Some show ?thesis by (force simp: references_def targets_def)
qed (simp add: references_def)

lemma push_new_set:
  assumes "push_new refs R Q = (R', Q')"
  shows "set R' = set R \<union> set refs" and "set Q' = set Q \<union> (set refs - set R)"
  using assms by (induction refs R Q rule: push_new.induct) (auto split: if_splits)

lemma push_new_measure:
  assumes "push_new refs R Q = (R', Q')" and "set refs \<subseteq> U" and "finite U"
  shows "card (U - set R') + length Q' = card (U - set R) + length Q"
  using assms
proof (induction refs R Q rule: push_new.induct)
  case (2 n refs R Q)
  show ?case
  proof (cases "n \<in> set R")
    case False
    with 2 have "n \<in> U - set R" "U - set (n # R) = (U - set R) - {n}" by auto
    then have "card (U - set R) = Suc (card (U - set (n # R)))"
      using 2(5) by (metis card_Suc_Diff1 finite_Diff)
    with 2 False show ?thesis by auto
  qed (use 2 in auto)
qed auto

function traverse :: "(string list \<Rightarrow> string list) \<Rightarrow> (string, string list) btree_map \<Rightarrow>
    string list \<Rightarrow> string list \<Rightarrow> string list" where
  "traverse ord edges reachable [] = reachable"
| "traverse ord edges reachable (current # queue) =
     (case push_new (references ord edges current) reachable queue of
        (reachable', queue') \<Rightarrow> traverse ord edges reachable' queue')"
  by pat_completeness auto

termination traverse
proof (relation "measure (\<lambda>(ord, edges, R, Q). card (targets ord edges - set R) + length Q)", goal_cases)
  case (2 ord edges R c Q R' Q')
  then have "push_new (references ord edges c) R Q = (R', Q')" by simp
  from push_new_measure [OF this references_targets] show ?case by (simp add: targets_def)
qed simp

definition compute_reachable :: "(string list \<Rightarrow> string list) \<Rightarrow> reachability_graph \<Rightarrow> string list" where
  "compute_reachable ord self =
     (let roots = filter (\<lambda>root. bt_get (rg_objects self) root \<noteq> None) (map fst (rg_roots self)) in
      traverse ord (rg_edges self) roots (rev roots))"

definition find_garbage :: "(string list \<Rightarrow> string list) \<Rightarrow> reachability_graph \<Rightarrow> nat \<Rightarrow> string list" where
  "find_garbage ord self current_time_secs =
     (let reachable = compute_reachable ord self in
      sort (filter (\<lambda>key. key \<notin> set reachable
          \<and> current_time_secs - (case bt_get (rg_unreachable_at self) key of Some t \<Rightarrow> t | None \<Rightarrow> current_time_secs)
              \<ge> rg_grace_period_secs self)
        (map fst (rg_objects self))))"

definition mark_key :: "string list \<Rightarrow> nat \<Rightarrow> string \<Rightarrow> (string, nat) btree_map \<Rightarrow> (string, nat) btree_map" where
  "mark_key reachable current_time_secs key at =
     (if key \<notin> set reachable then
        (if bt_get at key = None then bt_insert key current_time_secs at else at)
      else bt_remove key at)"

definition mark_unreachable :: "(string list \<Rightarrow> string list) \<Rightarrow> reachability_graph \<Rightarrow> nat \<Rightarrow> reachability_graph" where
  "mark_unreachable ord self current_time_secs =
     (let reachable = compute_reachable ord self in
      self\<lparr>rg_unreachable_at := fold (mark_key reachable current_time_secs) (map fst (rg_objects self))
         (rg_unreachable_at self)\<rparr>)"

definition object_count :: "reachability_graph \<Rightarrow> nat" where
  "object_count self = length (rg_objects self)"

definition root_count :: "reachability_graph \<Rightarrow> nat" where
  "root_count self = length (rg_roots self)"

definition reachable_count :: "(string list \<Rightarrow> string list) \<Rightarrow> reachability_graph \<Rightarrow> nat" where
  "reachable_count ord self = length (compute_reachable ord self)"

section \<open>Specification\<close>

definition hash_order :: "(string list \<Rightarrow> string list) \<Rightarrow> bool" where
  "hash_order ord \<longleftrightarrow> (\<forall>xs. mset (ord xs) = mset xs)"

definition refers :: "reachability_graph \<Rightarrow> (string \<times> string) set" where
  "refers g = {(a, b). \<exists>refs. bt_get (rg_edges g) a = Some refs \<and> b \<in> set refs}"

definition registered :: "reachability_graph \<Rightarrow> string \<Rightarrow> bool" where
  "registered g k \<longleftrightarrow> bt_get (rg_objects g) k \<noteq> None"

text \<open>What a chain of references from a registered root leads to.\<close>

definition live :: "reachability_graph \<Rightarrow> string \<Rightarrow> bool" where
  "live g k \<longleftrightarrow> (\<exists>r \<in> fst ` set (rg_roots g). registered g r \<and> (r, k) \<in> (refers g)\<^sup>*)"

text \<open>A history is a sequence of the calls that change the graph.\<close>

datatype gc_call = AddRoot string | RemoveRoot string | Register string object_kind | AddReference string string | Mark nat

fun gc_step :: "(string list \<Rightarrow> string list) \<Rightarrow> gc_call \<Rightarrow> reachability_graph \<Rightarrow> reachability_graph" where
  "gc_step ord (AddRoot k) g = add_root g k"
| "gc_step ord (RemoveRoot k) g = remove_root g k"
| "gc_step ord (Register k kind) g = register_object g k kind"
| "gc_step ord (AddReference a b) g = add_reference g a b"
| "gc_step ord (Mark t) g = mark_unreachable ord g t"

definition gc_run :: "(string list \<Rightarrow> string list) \<Rightarrow> nat \<Rightarrow> gc_call list \<Rightarrow> reachability_graph" where
  "gc_run ord grace calls = fold (gc_step ord) calls (reachability_new grace)"

text \<open>The object was registered and not live at every mark of the history \<open>h2\<close> that follows \<open>h1\<close>.\<close>

definition dead_at_marks :: "(string list \<Rightarrow> string list) \<Rightarrow> nat \<Rightarrow> string \<Rightarrow> gc_call list \<Rightarrow> gc_call list \<Rightarrow> bool" where
  "dead_at_marks ord grace k h1 h2 \<longleftrightarrow>
     (\<forall>p t s. h2 = p @ Mark t # s \<longrightarrow> registered (gc_run ord grace (h1 @ p)) k \<and> \<not> live (gc_run ord grace (h1 @ p)) k)"

section \<open>Traversal\<close>

lemma hash_order_set: "hash_order ord \<Longrightarrow> set (ord xs) = set xs"
  by (metis hash_order_def set_mset_mset)

lemma references_refers:
  "hash_order ord \<Longrightarrow> set (references ord (rg_edges g) a) = refers g `` {a}"
  by (cases "bt_get (rg_edges g) a") (simp_all add: references_def refers_def hash_order_set Image_singleton)

lemma traverse_closure:
  assumes "hash_order ord" and "set Q \<subseteq> set R" and "\<And>a. a \<in> set R - set Q \<Longrightarrow> refers g `` {a} \<subseteq> set R"
  shows "set (traverse ord (rg_edges g) R Q) = (refers g)\<^sup>* `` set R"
  using assms
proof (induction ord "rg_edges g" R Q rule: traverse.induct)
  case (1 ord R)
  then have "refers g `` set R \<subseteq> set R" by auto
  then show ?case by (simp add: Image_closed_trancl)
next
  case (2 ord R c Q)
  obtain R' Q' where push: "push_new (references ord (rg_edges g) c) R Q = (R', Q')" by fastforce
  note sets = push_new_set [OF push] references_refers [OF 2(2), of g c]
  have "set (traverse ord (rg_edges g) R' Q') = (refers g)\<^sup>* `` set R'"
  proof (rule 2(1) [OF push [symmetric] 2(2)])
    show "set Q' \<subseteq> set R'" using sets 2(3) by auto
    show "refers g `` {a} \<subseteq> set R'" if "a \<in> set R' - set Q'" for a
      using that sets 2(4) [of a] by (cases "a = c") auto
  qed
  also have "\<dots> = (refers g)\<^sup>* `` set R"
  proof -
    have "c \<in> set R" using 2(3) by simp
    then have "(refers g)\<^sup>* `` (refers g `` {c}) \<subseteq> (refers g)\<^sup>* `` set R"
      by (auto intro: converse_rtrancl_into_rtrancl)
    then show ?thesis using sets by auto
  qed
  finally show ?case using push by simp
qed

lemma compute_reachable_live: "hash_order ord \<Longrightarrow> set (compute_reachable ord g) = {k. live g k}"
proof -
  assume ord: "hash_order ord"
  define roots where "roots = filter (\<lambda>root. bt_get (rg_objects g) root \<noteq> None) (map fst (rg_roots g))"
  have "set (compute_reachable ord g) = (refers g)\<^sup>* `` set roots"
    unfolding compute_reachable_def Let_def roots_def [symmetric] by (rule traverse_closure [OF ord]) auto
  then show ?thesis by (auto simp: roots_def live_def registered_def)
qed

section \<open>Histories\<close>

lemma gc_run_snoc: "gc_run ord grace (calls @ [c]) = gc_step ord c (gc_run ord grace calls)"
  by (simp add: gc_run_def)

lemma gc_run_wf: "bt_wf (rg_unreachable_at (gc_run ord grace calls)) \<and> rg_grace_period_secs (gc_run ord grace calls) = grace"
proof (induction calls rule: rev_induct)
  case (snoc c calls)
  have "bt_wf at \<Longrightarrow> bt_wf (fold (mark_key R t) ks at)" for R t ks at
    by (induction ks arbitrary: at) (auto simp: mark_key_def)
  with snoc show ?case unfolding gc_run_snoc
    by (cases c) (auto simp: add_root_def remove_root_def register_object_def add_reference_def mark_unreachable_def Let_def)
qed (simp add: gc_run_def reachability_new_def)

lemma fold_mark_key:
  assumes "bt_wf at"
  shows "bt_get (fold (mark_key R t) ks at) k =
    (if k \<notin> set ks then bt_get at k
     else if k \<in> set R then None
     else Some (case bt_get at k of Some s \<Rightarrow> s | None \<Rightarrow> t))"
  using assms
proof (induction ks arbitrary: at)
  case (Cons x ks)
  have "bt_wf (mark_key R t x at)" using Cons.prems by (simp add: mark_key_def)
  from Cons.IH [OF this] Cons.prems show ?case
    by (auto simp: mark_key_def bt_get_remove split: option.splits)
qed simp

lemma mark_unreachable_get:
  assumes "hash_order ord" and "bt_wf (rg_unreachable_at g)"
  shows "bt_get (rg_unreachable_at (mark_unreachable ord g t)) k =
    (if \<not> registered g k then bt_get (rg_unreachable_at g) k
     else if live g k then None
     else Some (case bt_get (rg_unreachable_at g) k of Some s \<Rightarrow> s | None \<Rightarrow> t))"
  using assms by (simp add: mark_unreachable_def Let_def fold_mark_key compute_reachable_live registered_def map_of_eq_None_iff)

lemma registered_step: "registered g k \<Longrightarrow> registered (gc_step ord c g) k"
  by (cases c) (auto simp: add_root_def remove_root_def register_object_def add_reference_def mark_unreachable_def
    Let_def registered_def)

lemma unmarked_step:
  "(\<And>t. c \<noteq> Mark t) \<Longrightarrow> rg_unreachable_at (gc_step ord c g) = rg_unreachable_at g"
  by (cases c) (auto simp: add_root_def remove_root_def register_object_def add_reference_def Let_def)

lemma registered_run: "registered (gc_run ord grace h1) k \<Longrightarrow> registered (gc_run ord grace (h1 @ h2)) k"
proof (induction h2 rule: rev_induct)
  case (snoc c h2)
  then show ?case using registered_step gc_run_snoc [of ord grace "h1 @ h2" c] by simp
qed simp

lemma dead_at_marks_snoc:
  "dead_at_marks ord grace k h1 (h2 @ [c]) \<longleftrightarrow> dead_at_marks ord grace k h1 h2
     \<and> ((\<exists>t. c = Mark t) \<longrightarrow> registered (gc_run ord grace (h1 @ h2)) k \<and> \<not> live (gc_run ord grace (h1 @ h2)) k)"
proof -
  have "h2 @ [c] = p @ Mark t # s \<longleftrightarrow> (p = h2 \<and> c = Mark t \<and> s = []) \<or> (\<exists>s'. s = s' @ [c] \<and> h2 = p @ Mark t # s')" for p t s
    by (cases s rule: rev_cases) auto
  then show ?thesis unfolding dead_at_marks_def by metis
qed

lemma unreachable_since:
  assumes "hash_order ord" and "bt_get (rg_unreachable_at (gc_run ord grace calls)) k = Some t"
  shows "\<exists>h1 h2. calls = h1 @ Mark t # h2 \<and> dead_at_marks ord grace k h1 (Mark t # h2)"
  using assms(2)
proof (induction calls rule: rev_induct)
  case Nil
  then show ?case by (simp add: gc_run_def reachability_new_def)
next
  case (snoc c calls)
  let ?g = "gc_run ord grace calls"
  show ?case
  proof (cases "bt_get (rg_unreachable_at ?g) k = Some t")
    case True
    then obtain h1 h2 where h: "calls = h1 @ Mark t # h2" "dead_at_marks ord grace k h1 (Mark t # h2)"
      using snoc.IH by blast
    from h(2) have "registered (gc_run ord grace h1) k" by (force simp: dead_at_marks_def)
    then have "registered ?g k" using registered_run [of ord grace h1 k "Mark t # h2"] h(1) by simp
    moreover have "\<not> live ?g k" if "c = Mark u" for u
      using snoc.prems that gc_run_wf [of ord grace calls] \<open>registered ?g k\<close>
      by (auto simp: gc_run_snoc mark_unreachable_get [OF assms(1)] split: if_splits)
    ultimately have "dead_at_marks ord grace k h1 ((Mark t # h2) @ [c])"
      using h by (subst dead_at_marks_snoc) auto
    with h(1) show ?thesis by auto
  next
    case False
    then obtain u where c: "c = Mark u" using snoc.prems unmarked_step [of c ord ?g] by (metis gc_run_snoc)
    have new: "registered ?g k" "\<not> live ?g k" "u = t"
      using snoc.prems False c gc_run_wf [of ord grace calls]
      by (auto simp: gc_run_snoc mark_unreachable_get [OF assms(1)] split: if_splits option.splits)
    have "dead_at_marks ord grace k calls ([] @ [c])"
      by (subst dead_at_marks_snoc) (use new in \<open>auto simp: dead_at_marks_def\<close>)
    with c new show ?thesis by auto
  qed
qed

section \<open>Properties\<close>

text \<open>
  C20: The traversal ends and returns exactly the objects that a chain of references from a registered
  root leads to, whatever the order in which the reference sets are iterated.
\<close>

theorem compute_reachable_correct:
  assumes "hash_order ord"
  shows "k \<in> set (compute_reachable ord g) \<longleftrightarrow> live g k"
  using compute_reachable_live [OF assms, of g] by simp

definition gc_sample :: "gc_call list" where
  "gc_sample = [Register ''a'' CheckpointManifest, Register ''b'' StateObject, Register ''x'' OutputObject,
     AddRoot ''a'', AddReference ''a'' ''b'', AddReference ''b'' ''a'']"

theorem compute_reachable_correct_witness:
  "hash_order rev \<and> live (gc_run rev 0 gc_sample) ''b'' \<and> \<not> live (gc_run rev 0 gc_sample) ''x''"
proof -
  have "hash_order rev" by (simp add: hash_order_def)
  moreover have "''b'' \<in> set (compute_reachable rev (gc_run rev 0 gc_sample))"
    "''x'' \<notin> set (compute_reachable rev (gc_run rev 0 gc_sample))" by code_simp+
  ultimately show ?thesis using compute_reachable_correct by blast
qed

text \<open>
  C19: Collection is safe. After any sequence of calls an object returned as garbage is registered and
  not reachable. With a positive grace period, some mark found it unreachable at least that long ago,
  and every mark since then found it unreachable.
\<close>

theorem find_garbage_safe:
  assumes "hash_order ord" and "k \<in> set (find_garbage ord (gc_run ord grace calls) now)"
  shows "registered (gc_run ord grace calls) k \<and> \<not> live (gc_run ord grace calls) k
    \<and> (grace = 0 \<or> (\<exists>h1 t h2. calls = h1 @ Mark t # h2 \<and> t + grace \<le> now
          \<and> dead_at_marks ord grace k h1 (Mark t # h2)))"
proof -
  let ?g = "gc_run ord grace calls"
  have garbage: "k \<in> fst ` set (rg_objects ?g)" "\<not> live ?g k"
    "grace \<le> now - (case bt_get (rg_unreachable_at ?g) k of Some t \<Rightarrow> t | None \<Rightarrow> now)"
    using assms(2) compute_reachable_live [OF assms(1), of ?g] gc_run_wf [of ord grace calls]
    by (auto simp: find_garbage_def Let_def)
  moreover have "\<exists>h1 t h2. calls = h1 @ Mark t # h2 \<and> t + grace \<le> now \<and> dead_at_marks ord grace k h1 (Mark t # h2)"
    if "0 < grace"
  proof -
    from that garbage(3) obtain t where t: "bt_get (rg_unreachable_at ?g) k = Some t" "t + grace \<le> now"
      by (cases "bt_get (rg_unreachable_at ?g) k") auto
    with unreachable_since [OF assms(1) t(1)] show ?thesis by blast
  qed
  ultimately show ?thesis by (auto simp: registered_def map_of_eq_None_iff)
qed

theorem find_garbage_safe_witness:
  "\<exists>h1 t h2. gc_sample @ [Mark 5] = h1 @ Mark t # h2 \<and> t + 10 \<le> 15 \<and> dead_at_marks rev 10 ''x'' h1 (Mark t # h2)"
proof -
  have "hash_order rev" by (simp add: hash_order_def)
  moreover have "''x'' \<in> set (find_garbage rev (gc_run rev 10 (gc_sample @ [Mark 5])) 15)" by code_simp
  ultimately show ?thesis using find_garbage_safe [of rev "''x''" 10 "gc_sample @ [Mark 5]" 15] by auto
qed

text \<open>
  The grace period counts from a mark and not from the moment an object becomes unreachable: an object
  that was a root between two marks is garbage at once when it stops being one.
\<close>

theorem grace_period_skipped:
  "live (gc_run ord 10 (gc_sample @ [Mark 5, AddRoot ''x''])) ''x''
   \<and> ''x'' \<in> set (find_garbage rev (gc_run rev 10 (gc_sample @ [Mark 5, AddRoot ''x'', RemoveRoot ''x''])) 15)"
proof
  have "''x'' \<in> fst ` set (rg_roots (gc_run ord 10 (gc_sample @ [Mark 5, AddRoot ''x''])))"
    by (simp add: gc_run_def add_root_def bt_insert_keys)
  moreover have "registered (gc_run ord 10 (gc_sample @ [Mark 5, AddRoot ''x''])) ''x''"
    using registered_run [of ord 10 "take 3 gc_sample" "''x''" "drop 3 gc_sample @ [Mark 5, AddRoot ''x'']"]
    by (simp add: gc_sample_def gc_run_def registered_def register_object_def)
  ultimately show "live (gc_run ord 10 (gc_sample @ [Mark 5, AddRoot ''x''])) ''x''"
    unfolding live_def by blast
  show "''x'' \<in> set (find_garbage rev (gc_run rev 10 (gc_sample @ [Mark 5, AddRoot ''x'', RemoveRoot ''x''])) 15)"
    by code_simp
qed

end
