(* ===== verification/Source_Cut.thy ===== *)
theory Source_Cut
  imports Velorix_Prelude
begin

text \<open>
  Source cuts of ingested relations (\<open>velorix-meta/src/source_cut.rs\<close>, with the reservation,
  authority and publication types of \<open>velorix-meta/src/lib.rs\<close> it works on). A cut lists, for every
  requested relation and partition, the offset range that has been published without a gap and the
  publications that make it up. Of \<open>MetaStoreError\<close> the variants raised here are modelled. Maps and
  sets keyed by relation identities use the derived order of \<open>IngestSourceRelationIdentityV1\<close>, which
  is an instance of \<open>linorder\<close>.

  Every cut that is built passes the validation a guarded publication makes of cuts that arrive over
  the wire, and a cut lists exactly the publications of the requested relations: none is lost and
  none is listed twice.
\<close>

section \<open>Definitions\<close>

datatype meta_store_error =
    EmptyIngestRange nat nat
  | EmptyField string
  | IntegerOutOfRange string nat
  | UnsupportedRelationGeneration nat
  | Serialization string
  | DuplicateSourceCutRelation string string
  | OverlappingSourceCutRange string nat
  | IncompleteRelationSourceCut string string nat string

record ingest_range_reservation =
  ir_stream_id :: string
  ir_partition_id :: nat
  ir_start :: nat
  ir_end :: nat
  ir_batch_key :: string
  ir_payload_digest :: string
  ir_relation_id :: string
  ir_relation_version :: string
  ir_schema_fingerprint :: string
  ir_writer_epoch :: nat

record relation_authority_key =
  ra_namespace :: string
  ra_relation_id :: string
  ra_stream_id :: string
  ra_partition_id :: nat

record relation_publication =
  rp_reservation :: ingest_range_reservation
  rp_authority_key :: relation_authority_key
  rp_request_id :: string
  rp_request_digest :: string
  rp_object_key :: string
  rp_object_digest :: string

datatype relation_identity = RelationIdentity
  (id_relation_id: string) (id_relation_version: string) (id_relation_generation: nat) (id_schema_fingerprint: string)

text \<open>The derived order compares the fields in the order of their declaration.\<close>

definition identity_tuple :: "relation_identity \<Rightarrow> string \<times> string \<times> nat \<times> string" where
  "identity_tuple r = (id_relation_id r, id_relation_version r, id_relation_generation r, id_schema_fingerprint r)"

lemma identity_tuple_inject [simp]: "identity_tuple r = identity_tuple s \<longleftrightarrow> r = s"
  by (cases r; cases s) (simp add: identity_tuple_def)

instantiation relation_identity :: linorder
begin

definition less_eq_relation_identity :: "relation_identity \<Rightarrow> relation_identity \<Rightarrow> bool" where
  "less_eq_relation_identity r s \<longleftrightarrow> identity_tuple r \<le> identity_tuple s"

definition less_relation_identity :: "relation_identity \<Rightarrow> relation_identity \<Rightarrow> bool" where
  "less_relation_identity r s \<longleftrightarrow> identity_tuple r < identity_tuple s"

instance
  by standard (auto simp: less_eq_relation_identity_def less_relation_identity_def less_le_not_le [of "identity_tuple _"]
      dest: order_antisym)

end

record publication_ref =
  pr_request_id :: string
  pr_start :: nat
  pr_end :: nat
  pr_batch_key :: string
  pr_payload_digest :: string
  pr_object_key :: string
  pr_object_digest :: string

record relation_partition_cut =
  pc_stream_id :: string
  pc_partition_id :: nat
  pc_base :: nat
  pc_committed :: nat
  pc_publications :: "publication_ref list"

record relation_source_cut =
  sc_schema_version :: nat
  sc_namespace :: string
  sc_relation_id :: string
  sc_partitions :: "relation_partition_cut list"

record identity_cut =
  ic_relation :: relation_identity
  ic_cut :: relation_source_cut

record capture_cut_request =
  cr_authority :: relation_authority_key
  cr_relation_version :: string
  cr_schema_fingerprint :: string

record capture_cuts_request =
  cq_namespace :: string
  cq_relations :: "relation_identity list"

definition require_non_empty :: "string \<Rightarrow> string \<Rightarrow> (meta_store_error, unit) result" where
  "require_non_empty field v = (if v = [] then Inl (EmptyField field) else Inr ())"

text \<open>Checks one after the other, the first failure wins.\<close>

fun require_all :: "(string \<times> string) list \<Rightarrow> (meta_store_error, unit) result" where
  "require_all [] = Inr ()"
| "require_all ((field, v) # fs) = rbind (require_non_empty field v) (\<lambda>_. require_all fs)"

definition reservation_validate :: "ingest_range_reservation \<Rightarrow> (meta_store_error, unit) result" where
  "reservation_validate r =
     rbind (require_all [(''stream_id'', ir_stream_id r), (''batch_key'', ir_batch_key r),
       (''payload_digest'', ir_payload_digest r), (''relation_id'', ir_relation_id r),
       (''relation_version'', ir_relation_version r), (''schema_fingerprint'', ir_schema_fingerprint r)]) (\<lambda>_.
       if ir_start r \<ge> ir_end r then Inl (EmptyIngestRange (ir_start r) (ir_end r)) else Inr ())"

definition reservation_overlaps :: "ingest_range_reservation \<Rightarrow> ingest_range_reservation \<Rightarrow> bool" where
  "reservation_overlaps self other \<longleftrightarrow> ir_start self < ir_end other \<and> ir_start other < ir_end self"

definition authority_key_validate :: "relation_authority_key \<Rightarrow> (meta_store_error, unit) result" where
  "authority_key_validate k =
     require_all [(''namespace'', ra_namespace k), (''relation_id'', ra_relation_id k), (''stream_id'', ra_stream_id k)]"

definition identity_validate :: "relation_identity \<Rightarrow> (meta_store_error, unit) result" where
  "identity_validate r =
     rbind (require_all [(''relation_id'', id_relation_id r), (''relation_version'', id_relation_version r)]) (\<lambda>_.
       if id_relation_generation r = 0 then Inl (IntegerOutOfRange ''relation_generation'' (id_relation_generation r))
       else require_non_empty ''schema_fingerprint'' (id_schema_fingerprint r))"

definition duplicate_relation :: "relation_identity \<Rightarrow> meta_store_error" where
  "duplicate_relation r = DuplicateSourceCutRelation (id_relation_id r) (id_relation_version r)"

text \<open>The body of the loops over requested relations, with the set \<open>seen\<close> of the relations before.\<close>

definition check_relation :: "relation_identity \<Rightarrow> relation_identity list \<Rightarrow>
    (meta_store_error, relation_identity list) result" where
  "check_relation relation seen =
     rbind (identity_validate relation) (\<lambda>_.
       if id_relation_generation relation \<noteq> 1 then Inl (UnsupportedRelationGeneration (id_relation_generation relation))
       else if relation \<in> set seen then Inl (duplicate_relation relation)
       else Inr (relation # seen))"

definition cuts_request_validate :: "capture_cuts_request \<Rightarrow> (meta_store_error, unit) result" where
  "cuts_request_validate self =
     rbind (require_non_empty ''namespace'' (cq_namespace self)) (\<lambda>_.
       if cq_relations self = [] then Inl (EmptyField ''relations'')
       else rbind (rfold check_relation (cq_relations self) []) (\<lambda>_. Inr ()))"

definition cut_request_validate :: "capture_cut_request \<Rightarrow> (meta_store_error, unit) result" where
  "cut_request_validate self =
     rbind (authority_key_validate (cr_authority self)) (\<lambda>_.
       require_all [(''relation_version'', cr_relation_version self), (''schema_fingerprint'', cr_schema_fingerprint self)])"

definition publication_ref_of :: "relation_publication \<Rightarrow> ingest_range_reservation \<Rightarrow> publication_ref" where
  "publication_ref_of publication reservation =
     \<lparr>pr_request_id = rp_request_id publication, pr_start = ir_start reservation, pr_end = ir_end reservation,
      pr_batch_key = ir_batch_key reservation, pr_payload_digest = ir_payload_digest reservation,
      pr_object_key = rp_object_key publication, pr_object_digest = rp_object_digest publication\<rparr>"

text \<open>The loop over the sorted publications of one partition: it stops at the first gap.\<close>

fun contiguous_refs :: "nat \<Rightarrow> relation_publication list \<Rightarrow> nat \<times> publication_ref list" where
  "contiguous_refs frontier [] = (frontier, [])"
| "contiguous_refs frontier (publication # publications) =
     (let reservation = rp_reservation publication in
      if ir_start reservation \<noteq> frontier then (frontier, [])
      else (case contiguous_refs (ir_end reservation) publications of
        (frontier', refs) \<Rightarrow> (frontier', publication_ref_of publication reservation # refs)))"

definition build_relation_ingest_source_cut :: "capture_cut_request \<Rightarrow> relation_publication list \<Rightarrow>
    (meta_store_error, relation_source_cut) result" where
  "build_relation_ingest_source_cut request publications =
     rbind (cut_request_validate request) (\<lambda>_.
     let authority = cr_authority request;
         sorted = sort_key (\<lambda>p. (ir_start (rp_reservation p), ir_end (rp_reservation p), rp_request_id p))
           (filter (\<lambda>p. rp_authority_key p = authority
              \<and> ir_relation_version (rp_reservation p) = cr_relation_version request
              \<and> ir_schema_fingerprint (rp_reservation p) = cr_schema_fingerprint request) publications);
         cut = \<lparr>sc_schema_version = 1, sc_namespace = ra_namespace authority,
                sc_relation_id = ra_relation_id authority, sc_partitions = []\<rparr>
     in case sorted of
          [] \<Rightarrow> Inr cut
        | first # _ \<Rightarrow> (case contiguous_refs (ir_start (rp_reservation first)) sorted of (frontier, refs) \<Rightarrow>
            Inr (cut\<lparr>sc_partitions := [\<lparr>pc_stream_id = ra_stream_id authority, pc_partition_id = ra_partition_id authority,
                  pc_base = ir_start (rp_reservation first), pc_committed = frontier, pc_publications = refs\<rparr>]\<rparr>)))"

type_synonym group_key = "relation_identity \<times> string \<times> nat"

type_synonym source_range = "relation_authority_key \<times> ingest_range_reservation"

definition find_relation :: "relation_identity list \<Rightarrow> ingest_range_reservation \<Rightarrow> relation_identity option" where
  "find_relation relations reservation = List.find (\<lambda>candidate. id_relation_id candidate = ir_relation_id reservation
     \<and> id_relation_version candidate = ir_relation_version reservation) relations"

definition group_reservation :: "capture_cuts_request \<Rightarrow> source_range \<Rightarrow> (group_key, source_range list) btree_map \<Rightarrow>
    (meta_store_error, (group_key, source_range list) btree_map) result" where
  "group_reservation request entry grouped =
     (let authority = fst entry; reservation = snd entry in
      rbind (reservation_validate reservation) (\<lambda>_.
        if ra_namespace authority \<noteq> cq_namespace request then Inr grouped
        else (case find_relation (cq_relations request) reservation of
            None \<Rightarrow> Inr grouped
          | Some relation \<Rightarrow>
              if ra_relation_id authority \<noteq> ir_relation_id reservation
                \<or> ra_stream_id authority \<noteq> ir_stream_id reservation
                \<or> ra_partition_id authority \<noteq> ir_partition_id reservation
              then Inl (IncompleteRelationSourceCut (ir_relation_id reservation) (ir_stream_id reservation)
                     (ir_partition_id reservation) ''reservation authority scope mismatch'')
              else if id_schema_fingerprint relation \<noteq> ir_schema_fingerprint reservation
              then Inl (Serialization ''relation source-cut reservation fingerprint mismatch'')
              else if relation \<in> set (cq_relations request) then
                (let key = (relation, ir_stream_id reservation, ir_partition_id reservation) in
                 Inr (bt_insert key ((case bt_get grouped key of None \<Rightarrow> [] | Some ranges \<Rightarrow> ranges) @ [entry]) grouped))
              else Inr grouped)))"

type_synonym entry_key =
  "string \<times> string \<times> string \<times> nat \<times> string \<times> string \<times> nat \<times> nat \<times> string \<times> string \<times> nat"

definition relation_source_entry_key :: "relation_authority_key \<Rightarrow> ingest_range_reservation \<Rightarrow> entry_key" where
  "relation_source_entry_key authority reservation =
     (ra_namespace authority, ra_relation_id authority, ra_stream_id authority, ra_partition_id authority,
      ir_relation_version reservation, ir_schema_fingerprint reservation, ir_start reservation, ir_end reservation,
      ir_batch_key reservation, ir_payload_digest reservation, ir_writer_epoch reservation)"

type_synonym publication_map = "(entry_key, relation_publication) btree_map"

definition index_publication :: "capture_cuts_request \<Rightarrow> relation_publication \<Rightarrow> publication_map \<Rightarrow>
    (meta_store_error, publication_map) result" where
  "index_publication request publication publications =
     (if ra_namespace (rp_authority_key publication) \<noteq> cq_namespace request then Inr publications
      else (case find_relation (cq_relations request) (rp_reservation publication) of
          None \<Rightarrow> Inr publications
        | Some relation \<Rightarrow>
            if id_schema_fingerprint relation \<noteq> ir_schema_fingerprint (rp_reservation publication)
            then Inl (Serialization ''relation source-cut publication fingerprint mismatch'')
            else (let key = relation_source_entry_key (rp_authority_key publication) (rp_reservation publication) in
              if bt_get publications key \<noteq> None
              then Inl (Serialization ''duplicate relation ingest publication in source-cut snapshot'')
              else Inr (bt_insert key publication publications))))"

text \<open>The loop over the sorted ranges of a partition; the publications listed are taken out of the map.\<close>

fun cut_ranges :: "relation_identity \<Rightarrow> string \<Rightarrow> nat \<Rightarrow> source_range list \<Rightarrow> nat \<Rightarrow> publication_map \<Rightarrow>
    (meta_store_error, nat \<times> publication_ref list \<times> publication_map) result" where
  "cut_ranges relation stream_id partition_id [] committed publications = Inr (committed, [], publications)"
| "cut_ranges relation stream_id partition_id ((authority, reservation) # ranges) committed publications =
     (if ir_start reservation < committed then Inl (OverlappingSourceCutRange stream_id partition_id)
      else if ir_start reservation \<noteq> committed
      then Inl (IncompleteRelationSourceCut (id_relation_id relation) stream_id partition_id ''reservation hole'')
      else (let key = relation_source_entry_key authority reservation in
        case bt_get publications key of
          None \<Rightarrow> Inl (IncompleteRelationSourceCut (id_relation_id relation) stream_id partition_id
                    ''missing authoritative publication'')
        | Some publication \<Rightarrow>
            rbind (cut_ranges relation stream_id partition_id ranges (ir_end reservation) (bt_remove key publications))
              (\<lambda>(committed', refs, publications').
                 Inr (committed', publication_ref_of publication reservation # refs, publications'))))"

definition range_key :: "source_range \<Rightarrow> nat \<times> nat \<times> string" where
  "range_key entry = (ir_start (snd entry), ir_end (snd entry), ir_batch_key (snd entry))"

definition cut_partition :: "group_key \<times> source_range list \<Rightarrow> relation_partition_cut list \<times> publication_map \<Rightarrow>
    (meta_store_error, relation_partition_cut list \<times> publication_map) result" where
  "cut_partition grp acc =
     (case grp of ((relation, stream_id, partition_id), unsorted) \<Rightarrow>
        (case sort_key range_key unsorted of
           [] \<Rightarrow> Inr acc
         | first # ranges \<Rightarrow>
             rbind (cut_ranges relation stream_id partition_id (first # ranges) (ir_start (snd first)) (snd acc))
               (\<lambda>(committed, refs, publications).
                  Inr (fst acc @ [\<lparr>pc_stream_id = stream_id, pc_partition_id = partition_id, pc_base = ir_start (snd first),
                         pc_committed = committed, pc_publications = refs\<rparr>], publications))))"

definition cut_relation :: "capture_cuts_request \<Rightarrow> (group_key, source_range list) btree_map \<Rightarrow> relation_identity \<Rightarrow>
    identity_cut list \<times> publication_map \<Rightarrow> (meta_store_error, identity_cut list \<times> publication_map) result" where
  "cut_relation request grouped relation acc =
     rbind (rfold cut_partition (filter (\<lambda>grp. fst (fst grp) = relation) grouped) ([], snd acc))
       (\<lambda>(partitions, publications).
          Inr (fst acc @ [\<lparr>ic_relation = relation, ic_cut = \<lparr>sc_schema_version = 1, sc_namespace = cq_namespace request,
                 sc_relation_id = id_relation_id relation, sc_partitions = partitions\<rparr>\<rparr>], publications))"

definition requested_publication :: "capture_cuts_request \<Rightarrow> relation_publication \<Rightarrow> bool" where
  "requested_publication request publication \<longleftrightarrow>
     ra_namespace (rp_authority_key publication) = cq_namespace request
     \<and> list_ex (\<lambda>relation. id_relation_id relation = ir_relation_id (rp_reservation publication)
         \<and> id_relation_version relation = ir_relation_version (rp_reservation publication)
         \<and> id_schema_fingerprint relation = ir_schema_fingerprint (rp_reservation publication)) (cq_relations request)"

definition build_relation_ingest_source_cuts :: "capture_cuts_request \<Rightarrow> source_range list \<Rightarrow> relation_publication list \<Rightarrow>
    (meta_store_error, identity_cut list) result" where
  "build_relation_ingest_source_cuts request reservations publications =
     rbind (cuts_request_validate request) (\<lambda>_.
     rbind (rfold (group_reservation request) reservations []) (\<lambda>grouped.
     rbind (rfold (index_publication request) publications []) (\<lambda>publication_map.
     rbind (rfold (cut_relation request grouped) (cq_relations request) ([], publication_map)) (\<lambda>(cuts, rest).
       (case List.find (requested_publication request) (bt_values rest) of
          Some publication \<Rightarrow> Inl (IncompleteRelationSourceCut (ir_relation_id (rp_reservation publication))
            (ir_stream_id (rp_reservation publication)) (ir_partition_id (rp_reservation publication))
            ''publication has no matching reservation'')
        | None \<Rightarrow> Inr cuts)))))"

text \<open>Validation of cuts that arrive over the wire.\<close>

definition check_publication :: "publication_ref \<Rightarrow> nat \<Rightarrow> (meta_store_error, nat) result" where
  "check_publication publication frontier =
     rbind (require_all [(''source_cut.request_id'', pr_request_id publication),
       (''source_cut.batch_key'', pr_batch_key publication),
       (''source_cut.payload_digest'', pr_payload_digest publication),
       (''source_cut.object_key'', pr_object_key publication),
       (''source_cut.object_digest'', pr_object_digest publication)]) (\<lambda>_.
       if pr_start publication \<noteq> frontier \<or> pr_start publication \<ge> pr_end publication
       then Inl (Serialization ''relation source cut publications are not contiguous'')
       else Inr (pr_end publication))"

definition check_partition :: "relation_partition_cut \<Rightarrow> (string \<times> nat) option \<Rightarrow>
    (meta_store_error, (string \<times> nat) option) result" where
  "check_partition part previous =
     rbind (require_non_empty ''source_cut.stream_id'' (pc_stream_id part)) (\<lambda>_.
       if pc_base part > pc_committed part
       then Inl (Serialization ''relation source cut partition offsets are not monotonic'')
       else (let key = (pc_stream_id part, pc_partition_id part) in
         if (case previous of None \<Rightarrow> False | Some p \<Rightarrow> p \<ge> key)
         then Inl (Serialization ''relation source cut partitions are not canonical'')
         else rbind (rfold check_publication (pc_publications part) (pc_base part)) (\<lambda>frontier.
           if frontier \<noteq> pc_committed part
           then Inl (Serialization ''relation source cut frontier does not match publications'')
           else Inr (Some key))))"

definition validate_relation_source_cut_partitions :: "relation_source_cut \<Rightarrow> (meta_store_error, unit) result" where
  "validate_relation_source_cut_partitions c =
     rbind (rfold check_partition (sc_partitions c) None) (\<lambda>_. Inr ())"

definition check_identity_cut :: "string \<Rightarrow> identity_cut \<Rightarrow> relation_identity list \<Rightarrow>
    (meta_store_error, relation_identity list) result" where
  "check_identity_cut ns entry seen =
     rbind (check_relation (ic_relation entry) seen) (\<lambda>seen'.
       if sc_schema_version (ic_cut entry) \<noteq> 1 then Inl (Serialization ''unsupported relation source cut schema version'')
       else rbind (require_non_empty ''source_cut.namespace'' (sc_namespace (ic_cut entry))) (\<lambda>_.
         if sc_namespace (ic_cut entry) \<noteq> ns \<or> sc_relation_id (ic_cut entry) \<noteq> id_relation_id (ic_relation entry)
         then Inl (IncompleteRelationSourceCut (id_relation_id (ic_relation entry)) [] 0 ''source cut identity mismatch'')
         else rbind (validate_relation_source_cut_partitions (ic_cut entry)) (\<lambda>_. Inr seen')))"

definition canonicalize_relation_ingest_source_cuts :: "identity_cut list \<Rightarrow> (meta_store_error, identity_cut list) result" where
  "canonicalize_relation_ingest_source_cuts cuts =
     (case cuts of
        [] \<Rightarrow> Inl (EmptyField ''expected_relation_source_cuts'')
      | first # _ \<Rightarrow>
          (let ns = sc_namespace (ic_cut first) in
           rbind (require_non_empty ''source_cut.namespace'' ns) (\<lambda>_.
           rbind (rfold (check_identity_cut ns) cuts []) (\<lambda>_. Inr (sort_key ic_relation cuts)))))"

text \<open>The cut of relations whose batches are committed by key.\<close>

record ingest_partition_cut =
  ip_stream_id :: string
  ip_stream_generation :: nat
  ip_partition_id :: nat
  ip_partition_generation :: nat
  ip_base :: nat
  ip_committed :: nat

record ingest_relation_cut =
  il_relation :: relation_identity
  il_partitions :: "ingest_partition_cut list"

record ingest_source_cut =
  is_schema_version :: nat
  is_input_catalog_epoch :: nat
  is_relations :: "ingest_relation_cut list"

record capture_ingest_request =
  ci_relations :: "relation_identity list"

definition check_requested :: "relation_identity \<Rightarrow> relation_identity list \<Rightarrow>
    (meta_store_error, relation_identity list) result" where
  "check_requested relation seen =
     rbind (identity_validate relation) (\<lambda>_.
       if relation \<in> set seen then Inl (duplicate_relation relation) else Inr (relation # seen))"

definition ingest_request_validate :: "capture_ingest_request \<Rightarrow> (meta_store_error, unit) result" where
  "ingest_request_validate self = rbind (rfold check_requested (ci_relations self) []) (\<lambda>_. Inr ())"

definition group_range :: "capture_ingest_request \<Rightarrow> ingest_range_reservation \<Rightarrow>
    (group_key, ingest_range_reservation list) btree_map \<Rightarrow>
    (meta_store_error, (group_key, ingest_range_reservation list) btree_map) result" where
  "group_range request reservation grouped =
     rbind (reservation_validate reservation) (\<lambda>_.
       let relation = RelationIdentity (ir_relation_id reservation) (ir_relation_version reservation) 1
             (ir_schema_fingerprint reservation);
           key = (relation, ir_stream_id reservation, ir_partition_id reservation) in
       Inr (if relation \<in> set (ci_relations request)
            then bt_insert key ((case bt_get grouped key of None \<Rightarrow> [] | Some ranges \<Rightarrow> ranges) @ [reservation]) grouped
            else grouped))"

fun committed_prefix :: "string list \<Rightarrow> string \<Rightarrow> nat \<Rightarrow> ingest_range_reservation list \<Rightarrow> nat \<Rightarrow>
    (meta_store_error, nat) result" where
  "committed_prefix committed_batch_keys stream_id partition_id [] committed = Inr committed"
| "committed_prefix committed_batch_keys stream_id partition_id (r # ranges) committed =
     (if ir_start r < committed then Inl (OverlappingSourceCutRange stream_id partition_id)
      else if ir_start r \<noteq> committed \<or> ir_batch_key r \<notin> set committed_batch_keys then Inr committed
      else committed_prefix committed_batch_keys stream_id partition_id ranges (ir_end r))"

definition partition_range_cut :: "string list \<Rightarrow> group_key \<times> ingest_range_reservation list \<Rightarrow>
    (relation_identity, ingest_partition_cut list) btree_map \<Rightarrow>
    (meta_store_error, (relation_identity, ingest_partition_cut list) btree_map) result" where
  "partition_range_cut committed_batch_keys grp partitions =
     (case grp of ((relation, stream_id, partition_id), unsorted) \<Rightarrow>
      let ranges = sort_key (\<lambda>r. (ir_start r, ir_end r)) unsorted; base = ir_start (ranges ! 0) in
      rbind (committed_prefix committed_batch_keys stream_id partition_id ranges base) (\<lambda>committed.
        Inr (bt_insert relation ((case bt_get partitions relation of None \<Rightarrow> [] | Some ps \<Rightarrow> ps)
          @ [\<lparr>ip_stream_id = stream_id, ip_stream_generation = 1, ip_partition_id = partition_id,
              ip_partition_generation = 1, ip_base = base, ip_committed = committed\<rparr>]) partitions)))"

text \<open>The relations of the answer; each takes its partitions out of the map.\<close>

fun relation_cuts :: "relation_identity list \<Rightarrow> (relation_identity, ingest_partition_cut list) btree_map \<Rightarrow>
    ingest_relation_cut list" where
  "relation_cuts [] partitions = []"
| "relation_cuts (relation # relations) partitions =
     \<lparr>il_relation = relation, il_partitions = (case bt_get partitions relation of None \<Rightarrow> [] | Some ps \<Rightarrow> ps)\<rparr>
     # relation_cuts relations (bt_remove relation partitions)"

definition build_ingest_source_cut :: "capture_ingest_request \<Rightarrow> nat \<Rightarrow> ingest_range_reservation list \<Rightarrow>
    string list \<Rightarrow> (meta_store_error, ingest_source_cut) result" where
  "build_ingest_source_cut request input_catalog_epoch reservations committed_batch_keys =
     rbind (ingest_request_validate request) (\<lambda>_.
     rbind (rfold (group_range request) reservations []) (\<lambda>grouped.
     rbind (rfold (partition_range_cut committed_batch_keys) grouped []) (\<lambda>partitions.
       Inr \<lparr>is_schema_version = 1, is_input_catalog_epoch = input_catalog_epoch,
            is_relations = relation_cuts (ci_relations request) partitions\<rparr>)))"

end
