(* ===== verification/Source_Cut_Laws.thy ===== *)
theory Source_Cut_Laws
  imports Source_Cut
begin

text \<open>
  What the builders of source cuts promise: the cuts of the requested relations pass the validation
  of cuts that arrive over the wire, and they list exactly the publications of those relations, each
  under its own relation and partition.
\<close>

section \<open>Maps as bags of entries\<close>

lemma mset_bt_insert: "bt_get m k = None \<Longrightarrow> mset (bt_insert k v m) = add_mset (k, v) (mset m)"
  by (induction m) (auto split: if_splits)

lemma mset_bt_remove: "bt_get m k = Some v \<Longrightarrow> mset m = add_mset (k, v) (mset (bt_remove k m))"
  by (induction m) (auto split: if_splits)

section \<open>Checks of texts and relations\<close>

lemma require_non_empty_Inr [simp]: "require_non_empty field v = Inr u \<longleftrightarrow> v \<noteq> []"
  by (simp add: require_non_empty_def)

lemma require_all_Inr [simp]: "require_all fs = Inr u \<longleftrightarrow> list_all (\<lambda>x. snd x \<noteq> []) fs"
  by (induction fs rule: require_all.induct) (auto simp: res_simps)

definition relation_ok :: "relation_identity \<Rightarrow> bool" where
  "relation_ok r \<longleftrightarrow> identity_validate r = Inr () \<and> id_relation_generation r = 1"

lemma check_relation_Inr: "check_relation r seen = Inr seen' \<longleftrightarrow> relation_ok r \<and> r \<notin> set seen \<and> seen' = r # seen"
  by (auto simp: check_relation_def relation_ok_def res_simps split: if_splits)

lemma check_relations_Inr:
  "rfold check_relation rs seen = Inr seen' \<Longrightarrow> list_all relation_ok rs \<and> distinct rs \<and> set rs \<inter> set seen = {}"
  by (induction rs arbitrary: seen) (fastforce simp: res_simps check_relation_Inr)+

lemma cuts_request_Inr:
  assumes "cuts_request_validate request = Inr u"
  shows "cq_namespace request \<noteq> []" and "cq_relations request \<noteq> []"
    and "list_all relation_ok (cq_relations request)" and "distinct (cq_relations request)"
  using assms check_relations_Inr [of "cq_relations request" "[]"]
  by (auto simp: cuts_request_validate_def res_simps split: if_splits)

section \<open>Grouping and indexing\<close>

text \<open>A reservation filed under a relation and a partition.\<close>

definition range_ok :: "group_key \<Rightarrow> source_range \<Rightarrow> bool" where
  "range_ok g r \<longleftrightarrow> reservation_validate (snd r) = Inr () \<and> ra_relation_id (fst r) = id_relation_id (fst g)
     \<and> ir_relation_version (snd r) = id_relation_version (fst g) \<and> ra_stream_id (fst r) = fst (snd g)
     \<and> ra_partition_id (fst r) = snd (snd g) \<and> fst (snd g) \<noteq> []"

definition groups_ok :: "(group_key, source_range list) btree_map \<Rightarrow> bool" where
  "groups_ok m \<longleftrightarrow> bt_wf m \<and> (\<forall>k rs. bt_get m k = Some rs \<longrightarrow> rs \<noteq> [] \<and> list_all (range_ok k) rs)"

lemma find_relation_Some:
  "find_relation rs res = Some r \<Longrightarrow> r \<in> set rs \<and> id_relation_id r = ir_relation_id res \<and> id_relation_version r = ir_relation_version res"
  by (auto simp: find_relation_def find_Some_iff)

lemma find_relation_None:
  "find_relation rs res = None \<longleftrightarrow> \<not> (\<exists>r \<in> set rs. id_relation_id r = ir_relation_id res \<and> id_relation_version r = ir_relation_version res)"
  by (auto simp: find_relation_def find_None_iff)

lemma reservation_stream: "reservation_validate r = Inr u \<Longrightarrow> ir_stream_id r \<noteq> []"
  by (auto simp: reservation_validate_def res_simps)

lemma group_reservation_ok:
  assumes "groups_ok m" and "group_reservation request r m = Inr m'"
  shows "groups_ok m'"
proof (cases "m' = m")
  case False
  with assms(2) obtain rel where rel: "find_relation (cq_relations request) (snd r) = Some rel"
    and r: "reservation_validate (snd r) = Inr ()" "ra_relation_id (fst r) = ir_relation_id (snd r)"
      "ra_stream_id (fst r) = ir_stream_id (snd r)" "ra_partition_id (fst r) = ir_partition_id (snd r)"
    and m': "m' = bt_insert (rel, ir_stream_id (snd r), ir_partition_id (snd r))
      ((case bt_get m (rel, ir_stream_id (snd r), ir_partition_id (snd r)) of None \<Rightarrow> [] | Some rs \<Rightarrow> rs) @ [r]) m"
    by (auto simp: group_reservation_def Let_def res_simps split: if_splits option.splits)
  have "range_ok (rel, ir_stream_id (snd r), ir_partition_id (snd r)) r"
    using r find_relation_Some [OF rel] reservation_stream [OF r(1)] by (simp add: range_ok_def)
  then show ?thesis using assms(1) by (auto simp: m' groups_ok_def split: option.splits)
qed (use assms in simp)

lemma grouped_ok:
  assumes "rfold (group_reservation request) rs [] = Inr m"
  shows "groups_ok m"
proof (rule rfold_invariant [OF assms])
  show "groups_ok []" by (simp add: groups_ok_def)
qed (rule group_reservation_ok)

definition entry_of :: "relation_publication \<Rightarrow> entry_key" where
  "entry_of p = relation_source_entry_key (rp_authority_key p) (rp_reservation p)"

definition index_ok :: "capture_cuts_request \<Rightarrow> publication_map \<Rightarrow> bool" where
  "index_ok request m \<longleftrightarrow> bt_wf m \<and> (\<forall>x \<in> set m. fst x = entry_of (snd x) \<and> requested_publication request (snd x))"

lemma index_step:
  assumes "index_publication request p m = Inr m'" and "index_ok request m"
  shows "index_ok request m' \<and> mset m' = mset m + (if requested_publication request p then {#(entry_of p, p)#} else {#})"
proof (cases "ra_namespace (rp_authority_key p) = cq_namespace request \<and> find_relation (cq_relations request) (rp_reservation p) \<noteq> None")
  case False
  then have "\<not> requested_publication request p" by (auto simp: requested_publication_def find_relation_None list_ex_iff)
  with False assms show ?thesis by (auto simp: index_publication_def split: option.splits)
next
  case True
  then obtain rel where rel: "find_relation (cq_relations request) (rp_reservation p) = Some rel" by blast
  from assms(1) True rel have fresh: "id_schema_fingerprint rel = ir_schema_fingerprint (rp_reservation p)"
    "bt_get m (entry_of p) = None" and m': "m' = bt_insert (entry_of p) p m"
    by (auto simp: index_publication_def entry_of_def Let_def split: if_splits)
  have "requested_publication request p"
    using True fresh(1) find_relation_Some [OF rel] by (auto simp: requested_publication_def list_ex_iff)
  moreover have "set m' = insert (entry_of p, p) (set m)"
    using arg_cong [OF mset_bt_insert [OF fresh(2), of p], of set_mset] by (simp add: m')
  ultimately show ?thesis using assms(2) mset_bt_insert [OF fresh(2), of p] by (auto simp: index_ok_def m')
qed

lemma indexed:
  "rfold (index_publication request) ps m = Inr m' \<Longrightarrow> index_ok request m \<Longrightarrow>
   index_ok request m' \<and> image_mset snd (mset m') = image_mset snd (mset m) + mset (filter (requested_publication request) ps)"
proof (induction ps arbitrary: m)
  case (Cons p ps)
  then obtain m1 where m1: "index_publication request p m = Inr m1" "rfold (index_publication request) ps m1 = Inr m'"
    by (auto simp: res_simps)
  from index_step [OF m1(1) Cons.prems(2)] Cons.IH [OF m1(2)] show ?case by auto
qed simp

section \<open>Cutting a partition\<close>

text \<open>A reference with the relation and the partition it is listed under, and where it belongs.\<close>

type_synonym listed = "string \<times> string \<times> string \<times> nat \<times> publication_ref"

definition listed_under :: "group_key \<Rightarrow> publication_ref \<Rightarrow> listed" where
  "listed_under g ref = (id_relation_id (fst g), id_relation_version (fst g), fst (snd g), snd (snd g), ref)"

definition listing :: "relation_publication \<Rightarrow> listed" where
  "listing p = (ra_relation_id (rp_authority_key p), ir_relation_version (rp_reservation p),
     ra_stream_id (rp_authority_key p), ra_partition_id (rp_authority_key p), publication_ref_of p (rp_reservation p))"

abbreviation (input) listings :: "publication_map \<Rightarrow> listed multiset" where
  "listings m \<equiv> image_mset listing (image_mset snd (mset m))"

text \<open>The texts a publication must have to be referred to in a cut.\<close>

definition publication_ok :: "relation_publication \<Rightarrow> bool" where
  "publication_ok p \<longleftrightarrow> rp_request_id p \<noteq> [] \<and> rp_object_key p \<noteq> [] \<and> rp_object_digest p \<noteq> []"

lemma listing_of_range:
  assumes "range_ok g r" and "entry_of p = relation_source_entry_key (fst r) (snd r)"
  shows "listing p = listed_under g (publication_ref_of p (snd r))"
  using assms by (simp add: range_ok_def entry_of_def relation_source_entry_key_def listing_def listed_under_def publication_ref_of_def)

lemma check_publication_range:
  assumes "range_ok g r" and "publication_ok p" and "ir_start (snd r) = c"
  shows "check_publication (publication_ref_of p (snd r)) c = Inr (ir_end (snd r)) \<and> c < ir_end (snd r)"
  using assms by (auto simp: check_publication_def publication_ref_of_def range_ok_def publication_ok_def
      reservation_validate_def res_simps split: if_splits)

lemma cut_ranges_Inr:
  assumes "cut_ranges (fst g) (fst (snd g)) (snd (snd g)) rs c m = Inr (c', refs, m')"
    and "list_all (range_ok g) rs" and "index_ok request m" and "\<forall>x \<in> set m. publication_ok (snd x)"
  shows "c \<le> c' \<and> rfold check_publication refs c = Inr c' \<and> index_ok request m' \<and> set m' \<subseteq> set m
    \<and> listings m = listings m' + mset (map (listed_under g) refs)"
  using assms
proof (induction rs arbitrary: c m refs)
  case (Cons r rs)
  obtain a res where r: "r = (a, res)" by fastforce
  let ?k = "relation_source_entry_key a res"
  from Cons.prems(1) obtain p refs' where start: "ir_start res = c" and p: "bt_get m ?k = Some p"
    and rest: "cut_ranges (fst g) (fst (snd g)) (snd (snd g)) rs (ir_end res) (bt_remove ?k m) = Inr (c', refs', m')"
    and refs: "refs = publication_ref_of p res # refs'"
    by (auto simp: r Let_def res_simps split: if_splits option.splits)
  have mem: "(?k, p) \<in> set m" using p by (rule map_of_SomeD)
  then have key: "entry_of p = ?k" and pub: "publication_ok p" using Cons.prems(3,4) by (auto simp: index_ok_def)
  have sub: "set (bt_remove ?k m) \<subseteq> set m" by (rule bt_remove_subset)
  then have idx: "index_ok request (bt_remove ?k m)" using Cons.prems(3) by (auto simp: index_ok_def)
  have rng: "range_ok g (a, res)" using Cons.prems(2) by (simp add: r)
  have "ir_end res \<le> c' \<and> rfold check_publication refs' (ir_end res) = Inr c' \<and> index_ok request m' \<and> set m' \<subseteq> set (bt_remove ?k m)
    \<and> listings (bt_remove ?k m) = listings m' + mset (map (listed_under g) refs')"
    by (rule Cons.IH [OF rest _ idx]) (use Cons.prems(2,4) sub in auto)
  moreover have "check_publication (publication_ref_of p res) c = Inr (ir_end res) \<and> c < ir_end res"
    using check_publication_range [OF rng pub] start by simp
  moreover have "listings m = add_mset (listed_under g (publication_ref_of p res)) (listings (bt_remove ?k m))"
    using mset_bt_remove [OF p] listing_of_range [OF rng] key by simp
  ultimately show ?case using sub by (auto simp: refs)
qed simp

text \<open>A partition of a cut as the validation wants it.\<close>

definition partition_ok :: "relation_partition_cut \<Rightarrow> bool" where
  "partition_ok p \<longleftrightarrow> pc_stream_id p \<noteq> [] \<and> pc_base p \<le> pc_committed p
     \<and> rfold check_publication (pc_publications p) (pc_base p) = Inr (pc_committed p)"

definition partition_key :: "relation_partition_cut \<Rightarrow> string \<times> nat" where
  "partition_key p = (pc_stream_id p, pc_partition_id p)"

definition partition_listing :: "relation_identity \<Rightarrow> relation_partition_cut \<Rightarrow> listed list" where
  "partition_listing rel p = map (listed_under (rel, partition_key p)) (pc_publications p)"

lemma sort_key_not_Nil: "rs \<noteq> [] \<Longrightarrow> sort_key f rs \<noteq> []"
  by (metis mset_sort mset_zero_iff)

lemma cut_partition_Inr:
  assumes "cut_partition (g, rs) (parts, m) = Inr (parts', m')"
    and "rs \<noteq> []" "list_all (range_ok g) rs" and "index_ok request m" and "\<forall>x \<in> set m. publication_ok (snd x)"
  shows "\<exists>p. parts' = parts @ [p] \<and> partition_ok p \<and> partition_key p = snd g \<and> index_ok request m' \<and> set m' \<subseteq> set m
    \<and> listings m = listings m' + mset (partition_listing (fst g) p)"
proof -
  obtain rel sid pid where g: "g = (rel, sid, pid)" using prod_cases3 by blast
  obtain first ranges where sorted: "sort_key range_key rs = first # ranges"
    using sort_key_not_Nil [OF assms(2)] by (meson neq_Nil_conv)
  have ok: "list_all (range_ok g) (first # ranges)"
    using assms(3) unfolding sorted [symmetric] by (simp add: list_all_iff)
  from assms(1) obtain c refs where cut: "cut_ranges (fst g) (fst (snd g)) (snd (snd g)) (first # ranges) (ir_start (snd first)) m = Inr (c, refs, m')"
    and parts': "parts' = parts @ [\<lparr>pc_stream_id = sid, pc_partition_id = pid, pc_base = ir_start (snd first), pc_committed = c, pc_publications = refs\<rparr>]"
    by (auto simp: cut_partition_def g sorted res_simps)
  from cut_ranges_Inr [OF cut ok assms(4,5)] ok show ?thesis
    by (auto simp: parts' partition_ok_def partition_key_def partition_listing_def g range_ok_def)
qed

lemma cut_partitions_Inr:
  assumes "rfold cut_partition gs (parts, m) = Inr (parts', m')"
    and "\<forall>g \<in> set gs. fst (fst g) = rel \<and> snd g \<noteq> [] \<and> list_all (range_ok (fst g)) (snd g)"
    and "index_ok request m" and "\<forall>x \<in> set m. publication_ok (snd x)"
  shows "\<exists>ps. parts' = parts @ ps \<and> list_all partition_ok ps \<and> map partition_key ps = map (\<lambda>g. snd (fst g)) gs
    \<and> index_ok request m' \<and> set m' \<subseteq> set m \<and> listings m = listings m' + mset (concat (map (partition_listing rel) ps))"
  using assms
proof (induction gs arbitrary: parts m)
  case (Cons g gs)
  obtain k rs where g: "g = (k, rs)" by fastforce
  from Cons.prems(1) obtain parts1 m1 where step: "cut_partition (k, rs) (parts, m) = Inr (parts1, m1)"
    and rest: "rfold cut_partition gs (parts1, m1) = Inr (parts', m')" by (auto simp: g res_simps)
  have k: "fst k = rel" "rs \<noteq> []" "list_all (range_ok k) rs" using Cons.prems(2) by (auto simp: g)
  from cut_partition_Inr [OF step k(2,3) Cons.prems(3,4)] obtain p where p: "parts1 = parts @ [p]" "partition_ok p"
    "partition_key p = snd k" "index_ok request m1" "set m1 \<subseteq> set m" "listings m = listings m1 + mset (partition_listing rel p)"
    using k(1) by blast
  have "\<exists>ps. parts' = parts1 @ ps \<and> list_all partition_ok ps \<and> map partition_key ps = map (\<lambda>g. snd (fst g)) gs
    \<and> index_ok request m' \<and> set m' \<subseteq> set m1 \<and> listings m1 = listings m' + mset (concat (map (partition_listing rel) ps))"
    by (rule Cons.IH [OF rest _ p(4)]) (use Cons.prems(2,4) p(5) in auto)
  then obtain ps where ps: "parts' = parts1 @ ps" "list_all partition_ok ps" "map partition_key ps = map (\<lambda>g. snd (fst g)) gs"
    "index_ok request m'" "set m' \<subseteq> set m1" "listings m1 = listings m' + mset (concat (map (partition_listing rel) ps))" by blast
  with p show ?case by (intro exI [of _ "p # ps"]) (auto simp: g)
qed simp

text \<open>The cut of one relation as the validation wants it.\<close>

definition identity_cut_ok :: "string \<Rightarrow> identity_cut \<Rightarrow> bool" where
  "identity_cut_ok ns c \<longleftrightarrow> sc_schema_version (ic_cut c) = 1 \<and> sc_namespace (ic_cut c) = ns
     \<and> sc_relation_id (ic_cut c) = id_relation_id (ic_relation c) \<and> list_all partition_ok (sc_partitions (ic_cut c))
     \<and> sorted_wrt (<) (map partition_key (sc_partitions (ic_cut c)))"

definition cut_listing :: "identity_cut \<Rightarrow> listed list" where
  "cut_listing c = concat (map (partition_listing (ic_relation c)) (sc_partitions (ic_cut c)))"

lemma group_keys_sorted:
  fixes m :: "(group_key, 'a) btree_map"
  assumes "bt_wf m"
  shows "sorted_wrt (<) (map (\<lambda>g. snd (fst g)) (filter (\<lambda>g. fst (fst g) = rel) m))"
proof -
  have "sorted_wrt (\<lambda>x y. fst x < fst y) (filter (\<lambda>g. fst (fst g) = rel) m)"
    using assms by (intro sorted_wrt_filter) (simp add: bt_wf_def sorted_wrt_map)
  then show ?thesis unfolding sorted_wrt_map by (rule sorted_wrt_mono_rel [rotated]) (auto simp: less_prod_def)
qed

lemma cut_relation_Inr:
  assumes "cut_relation request grouped rel (cuts, m) = Inr (cuts', m')" and "groups_ok grouped"
    and "index_ok request m" and "\<forall>x \<in> set m. publication_ok (snd x)"
  shows "\<exists>c. cuts' = cuts @ [c] \<and> ic_relation c = rel \<and> identity_cut_ok (cq_namespace request) c
    \<and> index_ok request m' \<and> set m' \<subseteq> set m \<and> listings m = listings m' + mset (cut_listing c)"
proof -
  let ?gs = "filter (\<lambda>g. fst (fst g) = rel) grouped"
  from assms(1) obtain ps where fold: "rfold cut_partition ?gs ([], m) = Inr (ps, m')"
    and cuts': "cuts' = cuts @ [\<lparr>ic_relation = rel, ic_cut = \<lparr>sc_schema_version = 1, sc_namespace = cq_namespace request,
      sc_relation_id = id_relation_id rel, sc_partitions = ps\<rparr>\<rparr>]"
    by (auto simp: cut_relation_def res_simps)
  have wf: "bt_wf grouped" using assms(2) by (simp add: groups_ok_def)
  have gs: "\<forall>g \<in> set ?gs. fst (fst g) = rel \<and> snd g \<noteq> [] \<and> list_all (range_ok (fst g)) (snd g)"
  proof
    fix g assume g: "g \<in> set ?gs"
    then have "bt_get grouped (fst g) = Some (snd g)"
      using wf by (intro map_of_is_SomeI) (simp_all add: bt_wf_def strict_sorted_iff)
    then have "snd g \<noteq> [] \<and> list_all (range_ok (fst g)) (snd g)" using assms(2) unfolding groups_ok_def by blast
    with g show "fst (fst g) = rel \<and> snd g \<noteq> [] \<and> list_all (range_ok (fst g)) (snd g)" by simp
  qed
  from cut_partitions_Inr [OF fold gs assms(3,4)] group_keys_sorted [OF wf, of rel] show ?thesis
    by (simp add: cuts' identity_cut_ok_def cut_listing_def)
qed

lemma cut_relations_Inr:
  assumes "rfold (cut_relation request grouped) rels (cuts, m) = Inr (cuts', m')" and "groups_ok grouped"
    and "index_ok request m" and "\<forall>x \<in> set m. publication_ok (snd x)"
  shows "\<exists>cs. cuts' = cuts @ cs \<and> map ic_relation cs = rels \<and> list_all (identity_cut_ok (cq_namespace request)) cs
    \<and> index_ok request m' \<and> listings m = listings m' + mset (concat (map cut_listing cs))"
  using assms
proof (induction rels arbitrary: cuts m)
  case (Cons rel rels)
  from Cons.prems(1) obtain cuts1 m1 where step: "cut_relation request grouped rel (cuts, m) = Inr (cuts1, m1)"
    and rest: "rfold (cut_relation request grouped) rels (cuts1, m1) = Inr (cuts', m')" by (auto simp: res_simps)
  from cut_relation_Inr [OF step Cons.prems(2-4)] obtain c where c: "cuts1 = cuts @ [c]" "ic_relation c = rel"
    "identity_cut_ok (cq_namespace request) c" "index_ok request m1" "set m1 \<subseteq> set m"
    "listings m = listings m1 + mset (cut_listing c)" by blast
  have "\<exists>cs. cuts' = cuts1 @ cs \<and> map ic_relation cs = rels \<and> list_all (identity_cut_ok (cq_namespace request)) cs
    \<and> index_ok request m' \<and> listings m1 = listings m' + mset (concat (map cut_listing cs))"
    by (rule Cons.IH [OF rest Cons.prems(2) c(4)]) (use Cons.prems(4) c(5) in auto)
  then obtain cs where "cuts' = cuts1 @ cs" "map ic_relation cs = rels" "list_all (identity_cut_ok (cq_namespace request)) cs"
    "index_ok request m'" "listings m1 = listings m' + mset (concat (map cut_listing cs))" by blast
  with c show ?case by (intro exI [of _ "c # cs"]) auto
qed simp

section \<open>Validation of what was built\<close>

lemma check_partition_ok:
  "partition_ok p \<Longrightarrow> (case prev of None \<Rightarrow> True | Some q \<Rightarrow> q < partition_key p) \<Longrightarrow> check_partition p prev = Inr (Some (partition_key p))"
  by (auto simp: check_partition_def partition_ok_def partition_key_def require_non_empty_def Let_def not_le split: option.splits)

lemma check_partitions_ok:
  "list_all partition_ok ps \<Longrightarrow> sorted_wrt (<) (map partition_key ps) \<Longrightarrow>
   (case prev of None \<Rightarrow> True | Some q \<Rightarrow> \<forall>p \<in> set ps. q < partition_key p) \<Longrightarrow> \<exists>x. rfold check_partition ps prev = Inr x"
proof (induction ps arbitrary: prev)
  case (Cons p ps)
  have "check_partition p prev = Inr (Some (partition_key p))"
    using Cons.prems by (intro check_partition_ok) (auto split: option.splits)
  moreover have "\<exists>x. rfold check_partition ps (Some (partition_key p)) = Inr x"
    using Cons.prems by (intro Cons.IH) auto
  ultimately show ?case by simp
qed simp

lemma check_identity_cut_ok:
  assumes "identity_cut_ok ns c" and "ns \<noteq> []" and "relation_ok (ic_relation c)" and "ic_relation c \<notin> set seen"
  shows "check_identity_cut ns c seen = Inr (ic_relation c # seen)"
proof -
  have "check_relation (ic_relation c) seen = Inr (ic_relation c # seen)" using assms(3,4) by (simp add: check_relation_Inr)
  moreover obtain x where "rfold check_partition (sc_partitions (ic_cut c)) None = Inr x"
    using check_partitions_ok [of "sc_partitions (ic_cut c)" None] assms(1) by (auto simp: identity_cut_ok_def)
  ultimately show ?thesis using assms(1,2)
    by (simp add: check_identity_cut_def identity_cut_ok_def validate_relation_source_cut_partitions_def require_non_empty_def)
qed

lemma check_identity_cuts_ok:
  "list_all (identity_cut_ok ns) cs \<Longrightarrow> ns \<noteq> [] \<Longrightarrow> list_all relation_ok (map ic_relation cs) \<Longrightarrow> distinct (map ic_relation cs) \<Longrightarrow>
   set (map ic_relation cs) \<inter> set seen = {} \<Longrightarrow> \<exists>x. rfold (check_identity_cut ns) cs seen = Inr x"
  by (induction cs arbitrary: seen) (simp_all add: check_identity_cut_ok)

text \<open>What a successful build does, with the publications left over at the end.\<close>

lemma build_cuts_Inr:
  assumes "build_relation_ingest_source_cuts request rs ps = Inr cuts" and "list_all publication_ok ps"
  shows "map ic_relation cuts = cq_relations request" and "list_all (identity_cut_ok (cq_namespace request)) cuts"
    and "mset (map listing (filter (requested_publication request) ps)) = mset (concat (map cut_listing cuts))"
    and "cuts_request_validate request = Inr ()"
proof -
  from assms(1) obtain grouped m rest where req: "cuts_request_validate request = Inr ()"
    and grouped: "rfold (group_reservation request) rs [] = Inr grouped"
    and m: "rfold (index_publication request) ps [] = Inr m"
    and cut: "rfold (cut_relation request grouped) (cq_relations request) ([], m) = Inr (cuts, rest)"
    and none: "List.find (requested_publication request) (map snd rest) = None"
    by (auto simp: build_relation_ingest_source_cuts_def res_simps split: option.splits)
  have "index_ok request []" by (simp add: index_ok_def)
  from indexed [OF m this] have idx: "index_ok request m"
    and bag: "image_mset snd (mset m) = mset (filter (requested_publication request) ps)" by simp_all
  have "set_mset (image_mset snd (mset m)) \<subseteq> set ps" unfolding bag by auto
  then have pubs: "\<forall>x \<in> set m. publication_ok (snd x)" using assms(2) by (force simp: list_all_iff)
  from cut_relations_Inr [OF cut grouped_ok [OF grouped] idx pubs]
  have cuts: "map ic_relation cuts = cq_relations request" "list_all (identity_cut_ok (cq_namespace request)) cuts"
    "index_ok request rest" "listings m = listings rest + mset (concat (map cut_listing cuts))" by auto
  have "rest = []" using none cuts(3) by (cases rest) (auto simp: index_ok_def find_None_iff)
  then have "mset (map listing (filter (requested_publication request) ps)) = mset (concat (map cut_listing cuts))"
    using cuts(4) bag by simp
  with cuts req show "map ic_relation cuts = cq_relations request" "list_all (identity_cut_ok (cq_namespace request)) cuts"
    "mset (map listing (filter (requested_publication request) ps)) = mset (concat (map cut_listing cuts))"
    "cuts_request_validate request = Inr ()" by blast+
qed

text \<open>
  C16: Every snapshot of source cuts that is built passes the validation that guarded publications make
  of snapshots from the wire, and is canonicalised to itself in the order of relations. Publications
  carry a request id, an object key and an object digest.
\<close>

theorem built_cuts_canonical:
  assumes "build_relation_ingest_source_cuts request reservations publications = Inr cuts"
    and "list_all publication_ok publications"
  shows "canonicalize_relation_ingest_source_cuts cuts = Inr (sort_key ic_relation cuts)"
proof -
  note built = build_cuts_Inr [OF assms] and req = cuts_request_Inr [OF build_cuts_Inr(4) [OF assms]]
  obtain c cs where cuts: "cuts = c # cs" using built(1) req(2) by (cases cuts) auto
  have ns: "sc_namespace (ic_cut c) = cq_namespace request" using built(2) by (simp add: cuts identity_cut_ok_def)
  obtain x where "rfold (check_identity_cut (cq_namespace request)) cuts [] = Inr x"
    using check_identity_cuts_ok [OF built(2) req(1), of "[]"] built(1) req(3,4) by auto
  then show ?thesis using req(1)
    by (simp add: canonicalize_relation_ingest_source_cuts_def cuts ns require_non_empty_def)
qed

definition sample_identity :: relation_identity where
  "sample_identity = RelationIdentity ''orders'' ''v1'' 1 ''f''"

definition sample_cuts_request :: capture_cuts_request where
  "sample_cuts_request = \<lparr>cq_namespace = ''n'', cq_relations = [sample_identity]\<rparr>"

definition sample_authority :: relation_authority_key where
  "sample_authority = \<lparr>ra_namespace = ''n'', ra_relation_id = ''orders'', ra_stream_id = ''s'', ra_partition_id = 2\<rparr>"

definition sample_reservation :: "nat \<Rightarrow> nat \<Rightarrow> ingest_range_reservation" where
  "sample_reservation a b = \<lparr>ir_stream_id = ''s'', ir_partition_id = 2, ir_start = a, ir_end = b, ir_batch_key = ''b'',
     ir_payload_digest = ''d'', ir_relation_id = ''orders'', ir_relation_version = ''v1'',
     ir_schema_fingerprint = ''f'', ir_writer_epoch = 1\<rparr>"

definition sample_publication :: "nat \<Rightarrow> nat \<Rightarrow> relation_publication" where
  "sample_publication a b = \<lparr>rp_reservation = sample_reservation a b, rp_authority_key = sample_authority,
     rp_request_id = ''q'', rp_request_digest = ''x'', rp_object_key = ''o'', rp_object_digest = ''y''\<rparr>"

definition sample_build :: "(meta_store_error, identity_cut list) result" where
  "sample_build = build_relation_ingest_source_cuts sample_cuts_request
     [(sample_authority, sample_reservation 3 5), (sample_authority, sample_reservation 0 3)]
     [sample_publication 0 3, sample_publication 3 5]"

lemma sample_built:
  obtains cuts where "sample_build = Inr cuts" and "length (concat (map cut_listing cuts)) = 2"
proof -
  have "case sample_build of Inl _ \<Rightarrow> False | Inr cuts \<Rightarrow> length (concat (map cut_listing cuts)) = 2" by code_simp
  then show ?thesis using that by (auto split: sum.splits)
qed

lemma sample_publications_ok: "list_all publication_ok [sample_publication 0 3, sample_publication 3 5]"
  by (simp add: publication_ok_def sample_publication_def)

theorem built_cuts_canonical_witness:
  "\<exists>cuts. sample_build = Inr cuts \<and> canonicalize_relation_ingest_source_cuts cuts = Inr (sort_key ic_relation cuts)"
proof (rule sample_built)
  fix cuts assume "sample_build = Inr cuts"
  with built_cuts_canonical [OF _ sample_publications_ok] show ?thesis unfolding sample_build_def by blast
qed

text \<open>
  C15: The cuts of a snapshot list exactly the publications of the requested relations in the
  namespace: every one of them once, under its own relation, version, stream and partition, and
  nothing else.
\<close>

theorem built_cuts_list_publications:
  assumes "build_relation_ingest_source_cuts request reservations publications = Inr cuts"
    and "list_all publication_ok publications"
  shows "mset (concat (map cut_listing cuts)) = mset (map listing (filter (requested_publication request) publications))"
  using build_cuts_Inr(3) [OF assms] by simp

theorem built_cuts_list_publications_witness:
  "\<exists>cuts. sample_build = Inr cuts \<and> mset (concat (map cut_listing cuts)) =
     {#listing (sample_publication 0 3), listing (sample_publication 3 5)#}"
proof (rule sample_built)
  fix cuts assume cuts: "sample_build = Inr cuts"
  have "filter (requested_publication sample_cuts_request) [sample_publication 0 3, sample_publication 3 5]
      = [sample_publication 0 3, sample_publication 3 5]"
    by (simp add: requested_publication_def sample_cuts_request_def sample_publication_def sample_authority_def
        sample_reservation_def sample_identity_def)
  with built_cuts_list_publications [OF cuts [unfolded sample_build_def] sample_publications_ok]
  have "mset (concat (map cut_listing cuts)) = {#listing (sample_publication 0 3), listing (sample_publication 3 5)#}" by simp
  with cuts show ?thesis by blast
qed

section \<open>The committed prefix\<close>

fun chain :: "nat \<Rightarrow> ingest_range_reservation list \<Rightarrow> nat \<Rightarrow> bool" where
  "chain b [] c \<longleftrightarrow> b = c"
| "chain b (r # rs) c \<longleftrightarrow> ir_start r = b \<and> chain (ir_end r) rs c"

text \<open>The committed offset ends the longest prefix of the ranges without a gap whose batches are committed.\<close>

lemma committed_prefix_maximal:
  "committed_prefix keys sid pid rs b = Inr c \<Longrightarrow>
   \<exists>xs ys. rs = xs @ ys \<and> chain b xs c \<and> (\<forall>r \<in> set xs. ir_batch_key r \<in> set keys)
     \<and> (case ys of [] \<Rightarrow> True | r # _ \<Rightarrow> c \<le> ir_start r \<and> (ir_start r \<noteq> c \<or> ir_batch_key r \<notin> set keys))"
proof (induction keys sid pid rs b rule: committed_prefix.induct)
  case (2 keys sid pid r rs b)
  show ?case
  proof (cases "ir_start r \<noteq> b \<or> ir_batch_key r \<notin> set keys")
    case True
    with 2 show ?thesis by (intro exI [of _ "[]"] exI [of _ "r # rs"]) (auto split: if_splits)
  next
    case False
    with 2 obtain xs ys where "rs = xs @ ys" "chain (ir_end r) xs c" "\<forall>r \<in> set xs. ir_batch_key r \<in> set keys"
      "case ys of [] \<Rightarrow> True | r # _ \<Rightarrow> c \<le> ir_start r \<and> (ir_start r \<noteq> c \<or> ir_batch_key r \<notin> set keys)" by auto
    with False show ?thesis by (intro exI [of _ "r # xs"] exI [of _ ys]) auto
  qed
qed simp

end
