(* ===== verification/Codec_V2.thy ===== *)
theory Codec_V2
  imports Codec
begin

unbundle bit_operations_syntax

text \<open>
  The second row codec of \<open>velorix-core/src/delta.rs\<close>: a type tag per value, lengths in four
  little-endian bytes, integers as variable-length bytes. Bytes are \<open>8 word\<close>s and the integers are
  words of their width, so shifts, truncating casts and wrap-around are those of the source.

  The encoding of a row is injective for values whose integers fit 64 signed bits and whose texts,
  arrays and objects have fewer than \<open>2 ^ 32\<close> elements. Larger unsigned integers are rounded to a
  floating-point number and collide.
\<close>

section \<open>Definitions\<close>

datatype v2_type_tag = TagNull | TagBoolFalse | TagBoolTrue | TagI64 | TagF64 | TagString | TagArray | TagObject

fun tag_byte :: "v2_type_tag \<Rightarrow> 8 word" where
  "tag_byte TagNull = 0"
| "tag_byte TagBoolFalse = 1"
| "tag_byte TagBoolTrue = 2"
| "tag_byte TagI64 = 3"
| "tag_byte TagF64 = 4"
| "tag_byte TagString = 5"
| "tag_byte TagArray = 6"
| "tag_byte TagObject = 7"

text \<open>\<open>to_le_bytes\<close> of a word of \<open>n\<close> bytes.\<close>

definition le_bytes :: "nat \<Rightarrow> 'a::len word \<Rightarrow> 8 word list" where
  "le_bytes n w = map (\<lambda>i. ucast (drop_bit (8 * i) w)) [0..<n]"

definition text_bytes :: "string \<Rightarrow> 8 word list" where
  "text_bytes s = map (\<lambda>c. of_nat (of_char c)) s"

function encode_varint :: "64 word \<Rightarrow> 8 word list" where
  "encode_varint v =
     (if v \<ge> 0x80 then (ucast v OR 0x80) # encode_varint (drop_bit 7 v) else [ucast v])"
  by pat_completeness auto

termination encode_varint
proof (relation "measure unat")
  fix v :: "64 word"
  assume "v \<ge> 0x80"
  then have "0 < unat v" by (simp add: word_le_nat_alt)
  then have "unat v div 2 ^ 7 < unat v" by simp
  then show "(drop_bit 7 v, v) \<in> measure unat"
    by (simp add: unat_drop_bit_eq drop_bit_eq_div [of 7 "unat v"])
qed simp

declare encode_varint.simps [simp del]

definition encode_zigzag_varint :: "64 word \<Rightarrow> 8 word list" where
  "encode_zigzag_varint v = encode_varint (push_bit 1 v XOR drop_bit 63 v)"

definition encode_v2_length :: "nat \<Rightarrow> 8 word list" where
  "encode_v2_length n = le_bytes 4 (of_nat n :: 32 word)"

definition encode_v2_string :: "string \<Rightarrow> 8 word list" where
  "encode_v2_string s = le_bytes 4 (of_nat (length s) :: 32 word) @ text_bytes s"

text \<open>The conversion of an integer to \<open>f64\<close>: the nearest value, ties to the even one.\<close>

fun ilog2 :: "nat \<Rightarrow> nat" where
  "ilog2 n = (if n < 2 then 0 else Suc (ilog2 (n div 2)))"

declare ilog2.simps [simp del]

definition round_half_even :: "nat \<Rightarrow> nat \<Rightarrow> nat" where
  "round_half_even n s =
     (let q = n div 2 ^ s; r = n mod 2 ^ s in
      if 2 * r > 2 ^ s \<or> (2 * r = 2 ^ s \<and> odd q) then q + 1 else q)"

definition f64_of_nat :: "nat \<Rightarrow> 64 word" where
  "f64_of_nat n =
     (if n = 0 then 0
      else let e = ilog2 n; m = (if e \<le> 52 then n * 2 ^ (52 - e) else round_half_even n (e - 52))
           in of_nat ((1023 + e) * 2 ^ 52 + m - 2 ^ 52))"

text \<open>\<open>Number::as_f64\<close>.\<close>

fun as_f64 :: "number \<Rightarrow> 64 word option" where
  "as_f64 (PosInt n) = Some (f64_of_nat n)"
| "as_f64 (NegInt i) = Some (f64_of_nat (nat (- i)) OR push_bit 63 1)"
| "as_f64 (Float b) = Some b"

definition encode_v2_number :: "serde \<Rightarrow> number \<Rightarrow> 8 word list" where
  "encode_v2_number J n =
     (case as_i64 (JNumber n) of
        Some i \<Rightarrow> tag_byte TagI64 # encode_zigzag_varint (word_of_int i)
      | None \<Rightarrow> (case as_f64 n of
          Some f \<Rightarrow> tag_byte TagF64 # le_bytes 8 f
        | None \<Rightarrow> tag_byte TagString # encode_v2_string (number_text J n)))"

fun encode_v2_value :: "serde \<Rightarrow> json \<Rightarrow> 8 word list" where
  "encode_v2_value J JNull = [tag_byte TagNull]"
| "encode_v2_value J (JBool b) = [tag_byte (if b then TagBoolTrue else TagBoolFalse)]"
| "encode_v2_value J (JNumber n) = encode_v2_number J n"
| "encode_v2_value J (JString s) = tag_byte TagString # encode_v2_string s"
| "encode_v2_value J (JArray vs) =
     tag_byte TagArray # encode_v2_length (length vs) @ concat (map (encode_v2_value J) vs)"
| "encode_v2_value J (JObject fs) =
     tag_byte TagObject # encode_v2_length (length (sort_key fst fs)) @
       concat (map (\<lambda>(k, v). encode_v2_string k @ encode_v2_value J v) (sort_key fst fs))"

definition encode_v2 :: "serde \<Rightarrow> json \<Rightarrow> 8 word list" where
  "encode_v2 J v = encode_v2_value J v"

definition encode_kv_v2 :: "serde \<Rightarrow> json \<Rightarrow> json \<Rightarrow> 8 word list" where
  "encode_kv_v2 J key v = encode_v2_value J key @ encode_v2_value J v"

section \<open>Bytes determine words\<close>

lemma le_bytes_inj:
  fixes a b :: "'a::len word"
  assumes "le_bytes n a = le_bytes n b" and "LENGTH('a) \<le> 8 * n"
  shows "a = b"
proof (rule bit_word_eqI)
  fix i assume i: "i < LENGTH('a)"
  then have "i div 8 < n" using assms(2) by linarith
  with assms(1) have "(ucast (drop_bit (8 * (i div 8)) a) :: 8 word) = ucast (drop_bit (8 * (i div 8)) b)"
    by (simp add: le_bytes_def)
  then have "bit (ucast (drop_bit (8 * (i div 8)) a) :: 8 word) (i mod 8) = bit (ucast (drop_bit (8 * (i div 8)) b) :: 8 word) (i mod 8)"
    by simp
  then show "bit a i = bit b i" by (simp add: bit_ucast_iff bit_drop_bit_eq)
qed

lemma le_bytes_prefix:
  fixes a b :: "'a::len word"
  assumes "le_bytes n a @ x = le_bytes n b @ y" and "LENGTH('a) \<le> 8 * n"
  shows "a = b \<and> x = y"
proof -
  have "length (le_bytes n a) = length (le_bytes n b)" by (simp add: le_bytes_def)
  with assms(1) have "le_bytes n a = le_bytes n b" "x = y" by simp_all
  with le_bytes_inj [OF _ assms(2)] show ?thesis by blast
qed

lemma text_bytes_inj: "text_bytes s = text_bytes t \<Longrightarrow> s = t"
  unfolding text_bytes_def
proof (rule map_injective)
  show "inj (\<lambda>c. of_nat (of_char c) :: 8 word)"
  proof (rule injI)
    fix c d :: char assume "(of_nat (of_char c) :: 8 word) = of_nat (of_char d)"
    then have "(of_char c :: nat) mod 256 = of_char d mod 256" by (simp add: word_unat_eq_iff unat_of_nat take_bit_eq_mod)
    then show "c = d" using nat_of_char_less_256 [of c] nat_of_char_less_256 [of d] by (simp add: of_char_eq_iff)
  qed
qed

lemma encode_v2_length_prefix:
  assumes "encode_v2_length m @ x = encode_v2_length n @ y" and "m < 2 ^ 32" "n < 2 ^ 32"
  shows "m = n \<and> x = y"
proof -
  have "(of_nat m :: 32 word) = of_nat n" "x = y"
    using le_bytes_prefix [of 4 "of_nat m :: 32 word" x "of_nat n" y] assms(1) by (auto simp: encode_v2_length_def)
  then show ?thesis using assms(2,3) by (simp add: word_unat_eq_iff unat_of_nat take_bit_eq_mod)
qed

lemma encode_v2_string_prefix:
  assumes "encode_v2_string s @ x = encode_v2_string t @ y" and "length s < 2 ^ 32" "length t < 2 ^ 32"
  shows "s = t \<and> x = y"
proof -
  have "length s = length t \<and> text_bytes s @ x = text_bytes t @ y"
    using assms encode_v2_length_prefix [of "length s" "text_bytes s @ x" "length t" "text_bytes t @ y"]
    by (simp add: encode_v2_string_def encode_v2_length_def)
  moreover from this have "length (text_bytes s) = length (text_bytes t)" by (simp add: text_bytes_def)
  ultimately show ?thesis using text_bytes_inj by simp
qed

section \<open>Variable-length integers\<close>

lemma encode_varint_small: "\<not> 0x80 \<le> v \<Longrightarrow> encode_varint v = [ucast v]"
  by (subst encode_varint.simps) simp

lemma encode_varint_large: "0x80 \<le> v \<Longrightarrow> encode_varint v = (ucast v OR 0x80) # encode_varint (drop_bit 7 v)"
  by (subst encode_varint.simps) simp

lemma bit_0x80: "bit (0x80 :: 8 word) j \<longleftrightarrow> j = 7"
proof -
  have eq: "(0x80 :: 8 word) = push_bit 7 1" by simp
  show ?thesis unfolding eq bit_push_bit_iff bit_1_iff using bit_imp_le_length [of "push_bit 7 (1 :: 8 word)" j] by auto
qed

lemma small_bytes: "\<not> (0x80 :: 64 word) \<le> v \<Longrightarrow> unat (ucast v :: 8 word) = unat v"
  by (simp add: unsigned_ucast_eq take_bit_eq_mod [of 8 "unat v"] word_le_nat_alt)

lemma varint_byte_last: "\<not> 0x80 \<le> v \<Longrightarrow> \<not> bit (ucast (v :: 64 word) :: 8 word) 7"
proof -
  assume v: "\<not> 0x80 \<le> v"
  have "\<not> bit (unat (ucast v :: 8 word)) 7"
    using v by (simp add: small_bytes [OF v] bit_iff_odd word_le_nat_alt)
  then show ?thesis by (simp add: bit_unsigned_iff)
qed

lemma varint_byte_more: "bit (ucast (v :: 64 word) OR 0x80 :: 8 word) 7"
  unfolding bit_or_iff bit_0x80 by simp

lemma varint_byte_low:
  assumes "(ucast (a :: 64 word) OR 0x80 :: 8 word) = ucast b OR 0x80" and "drop_bit 7 a = drop_bit 7 b"
  shows "a = b"
proof (rule bit_word_eqI)
  fix i assume i: "i < LENGTH(64)"
  show "bit a i = bit b i"
  proof (cases "i < 7")
    case True
    have "bit (ucast a OR 0x80 :: 8 word) i = bit (ucast b OR 0x80 :: 8 word) i" using assms(1) by simp
    with True show ?thesis unfolding bit_or_iff bit_ucast_iff bit_0x80 by simp
  next
    case False
    have "bit (drop_bit 7 a) (i - 7) = bit (drop_bit 7 b) (i - 7)" using assms(2) by simp
    with False show ?thesis unfolding bit_drop_bit_eq by simp
  qed
qed

lemma encode_varint_prefix: "encode_varint a @ x = encode_varint b @ y \<Longrightarrow> a = b \<and> x = y"
proof (induction a arbitrary: b rule: encode_varint.induct)
  case (1 a)
  have heads: "(ucast v :: 8 word) \<noteq> ucast w OR 0x80" if "\<not> 0x80 \<le> v" for v w :: "64 word"
    using varint_byte_last [OF that] varint_byte_more [of w] by metis
  show ?case
  proof (cases "0x80 \<le> a")
    case True
    have b: "0x80 \<le> b"
    proof (rule ccontr)
      assume b: "\<not> 0x80 \<le> b"
      show False using 1(2) heads [OF b, of a] unfolding encode_varint_large [OF True] encode_varint_small [OF b] by simp
    qed
    have "(ucast a OR 0x80 :: 8 word) = ucast b OR 0x80"
      and rest: "encode_varint (drop_bit 7 a) @ x = encode_varint (drop_bit 7 b) @ y"
      using 1(2) unfolding encode_varint_large [OF True] encode_varint_large [OF b] by simp_all
    with 1(1) [OF True rest] varint_byte_low show ?thesis by blast
  next
    case False
    have b: "\<not> 0x80 \<le> b"
    proof
      assume b: "0x80 \<le> b"
      show False using 1(2) heads [OF False, of b] unfolding encode_varint_large [OF b] encode_varint_small [OF False] by simp
    qed
    have "(ucast a :: 8 word) = ucast b" "x = y"
      using 1(2) unfolding encode_varint_small [OF False] encode_varint_small [OF b] by simp_all
    with small_bytes [OF False] small_bytes [OF b] show ?thesis by (simp only: word_unat_eq_iff)
  qed
qed

lemma zigzag_inj: "push_bit 1 a XOR drop_bit 63 a = push_bit 1 b XOR drop_bit 63 b \<Longrightarrow> a = (b :: 64 word)"
proof (rule bit_word_eqI)
  fix i assume eq: "push_bit 1 a XOR drop_bit 63 a = push_bit 1 b XOR drop_bit 63 b" and i: "i < LENGTH(64)"
  have eqs: "bit (push_bit 1 a XOR drop_bit 63 a) j = bit (push_bit 1 b XOR drop_bit 63 b) j" for j using eq by simp
  have high: "\<not> bit w (63 + j)" if "0 < j" for w :: "64 word" and j using that bit_imp_le_length [of w "63 + j"] by auto
  show "bit a i = bit b i"
  proof (cases "i = 63")
    case True
    with eqs [of 0] show ?thesis unfolding bit_xor_iff bit_push_bit_iff bit_drop_bit_eq by simp
  next
    case False
    with i eqs [of "Suc i"] high [of "Suc i" a] high [of "Suc i" b] show ?thesis
      unfolding bit_xor_iff bit_push_bit_iff bit_drop_bit_eq by simp
  qed
qed

lemma zigzag_prefix: "encode_zigzag_varint a @ x = encode_zigzag_varint b @ y \<Longrightarrow> a = b \<and> x = y"
  using encode_varint_prefix zigzag_inj unfolding encode_zigzag_varint_def by blast

lemma word_of_i64_inj:
  assumes "(word_of_int i :: 64 word) = word_of_int j" and "i64_range i" "i64_range j"
  shows "i = j"
proof -
  have "take_bit 64 i = take_bit 64 j" using assms(1) by (simp add: word_of_int_eq_iff)
  then have "(18446744073709551616 :: int) dvd i - j" by (simp add: take_bit_eq_mod mod_eq_dvd_iff)
  moreover have "\<bar>i - j\<bar> < 18446744073709551616" using assms(2,3) unfolding i64_range_def by linarith
  ultimately show ?thesis using dvd_imp_le_int [of "i - j" 18446744073709551616] by fastforce
qed

section \<open>Values\<close>

text \<open>The values whose encoding is unambiguous.\<close>

fun fits_i64 :: "number \<Rightarrow> bool" where
  "fits_i64 (PosInt m) \<longleftrightarrow> m < 2 ^ 63"
| "fits_i64 _ \<longleftrightarrow> True"

fun v2_wf :: "json \<Rightarrow> bool" where
  "v2_wf (JNumber n) \<longleftrightarrow> number_wf n \<and> fits_i64 n"
| "v2_wf (JString s) \<longleftrightarrow> length s < 2 ^ 32"
| "v2_wf (JArray vs) \<longleftrightarrow> length vs < 2 ^ 32 \<and> list_all v2_wf vs"
| "v2_wf (JObject fs) \<longleftrightarrow> length fs < 2 ^ 32 \<and> distinct (map fst fs)
     \<and> list_all (\<lambda>(k, v). length k < 2 ^ 32 \<and> v2_wf v) fs"
| "v2_wf _ \<longleftrightarrow> True"

lemma number_wf_i64:
  assumes "number_wf n" and "fits_i64 n"
  obtains i where "as_i64 (JNumber n) = Some i" "i64_range i" "n = (if i < 0 then NegInt i else PosInt (nat i))"
    | b where "n = Float b"
proof (cases n)
  case (PosInt m)
  then have "i64_range (int m)" using assms(2) by (simp add: i64_range_def)
  then show thesis using that(1) [of "int m"] PosInt by (simp add: i64_checked_def)
next
  case (NegInt i)
  then show thesis using that(1) [of i] assms(1) by simp
qed (use that(2) in simp)

lemma encode_v2_number_prefix:
  assumes "encode_v2_number J m @ x = encode_v2_number J n @ y"
    and m: "number_wf m" "fits_i64 m" and n: "number_wf n" "fits_i64 n"
  shows "m = n \<and> x = y"
proof (rule number_wf_i64 [OF m]; rule number_wf_i64 [OF n])
  fix i j assume ij: "as_i64 (JNumber m) = Some i" "i64_range i" "m = (if i < 0 then NegInt i else PosInt (nat i))"
    "as_i64 (JNumber n) = Some j" "i64_range j" "n = (if j < 0 then NegInt j else PosInt (nat j))"
  then have "(word_of_int i :: 64 word) = word_of_int j \<and> x = y"
    using assms(1) zigzag_prefix by (simp add: encode_v2_number_def)
  then have "i = j" "x = y" using word_of_i64_inj ij(2,5) by blast+
  with ij show ?thesis by simp
next
  fix a b assume "m = Float a" "n = Float b"
  then show ?thesis using assms(1) le_bytes_prefix [of 8 a x b y] by (simp add: encode_v2_number_def)
qed (use assms(1) in \<open>auto simp: encode_v2_number_def\<close>)

lemma encode_v2_number_head:
  assumes "number_wf n" and "fits_i64 n"
  shows "\<exists>t. encode_v2_number J n = 3 # t \<or> encode_v2_number J n = 4 # t"
  by (rule number_wf_i64 [OF assms]) (simp_all add: encode_v2_number_def)

lemma concat_map_prefix:
  assumes "length as = length bs" and "concat (map f as) @ x = concat (map f bs) @ y"
    and "\<And>a b x y. a \<in> set as \<Longrightarrow> b \<in> set bs \<Longrightarrow> f a @ x = f b @ y \<Longrightarrow> R a b \<and> x = y"
  shows "list_all2 R as bs \<and> x = y"
  using assms
proof (induction as arbitrary: bs x)
  case (Cons a as)
  then obtain b bs' where bs: "bs = b # bs'" by (cases bs) auto
  have "R a b \<and> concat (map f as) @ x = concat (map f bs') @ y"
    using Cons.prems(2) by (intro Cons.prems(3)) (simp_all add: bs)
  moreover from this have "list_all2 R as bs' \<and> x = y"
  proof (intro Cons.IH)
    show "R a' b' \<and> x' = y'" if "a' \<in> set as" "b' \<in> set bs'" "f a' @ x' = f b' @ y'" for a' b' x' y'
      using that by (intro Cons.prems(3)) (simp_all add: bs)
  qed (use Cons.prems(1) in \<open>simp_all add: bs\<close>)
  ultimately show ?case by (simp add: bs)
qed simp

lemma encode_v2_value_prefix:
  "v2_wf v \<Longrightarrow> v2_wf w \<Longrightarrow> encode_v2_value J v @ x = encode_v2_value J w @ y \<Longrightarrow> json_eq v w \<and> x = y"
proof (induction v arbitrary: w x y)
  case (JNumber n)
  obtain t where t: "encode_v2_number J n = 3 # t \<or> encode_v2_number J n = 4 # t"
    using encode_v2_number_head JNumber.prems(1) by (metis v2_wf.simps(1))
  then obtain m where w: "w = JNumber m" using JNumber.prems(3) by (cases w) (auto split: if_splits)
  have "n = m \<and> x = y" using encode_v2_number_prefix [of J n x m y] JNumber.prems by (simp add: w)
  then show ?case using JNumber.prems(1) by (simp add: w number_eq_wf)
next
  case (JString s)
  have "w \<noteq> JNumber n" for n using JString.prems encode_v2_number_head [of n J] by auto
  then obtain t where w: "w = JString t" using JString.prems(3) by (cases w) (auto split: if_splits)
  show ?case using encode_v2_string_prefix [of s x t y] JString.prems by (simp add: w)
next
  case (JArray vs)
  have "w \<noteq> JNumber n" for n using JArray.prems encode_v2_number_head [of n J] by auto
  then obtain ws where w: "w = JArray ws" using JArray.prems(3) by (cases w) (auto split: if_splits)
  have len: "length vs = length ws" and rest: "concat (map (encode_v2_value J) vs) @ x = concat (map (encode_v2_value J) ws) @ y"
    using encode_v2_length_prefix [of "length vs" _ "length ws"] JArray.prems by (auto simp: w)
  have "list_all2 json_eq vs ws \<and> x = y"
    by (rule concat_map_prefix [OF len rest]) (use JArray.IH JArray.prems in \<open>auto simp: w list_all_iff\<close>)
  then show ?case by (simp add: w)
next
  case (JObject fs)
  have "w \<noteq> JNumber n" for n using JObject.prems encode_v2_number_head [of n J] by auto
  then obtain gs where w: "w = JObject gs" using JObject.prems(3) by (cases w) (auto split: if_splits)
  let ?f = "\<lambda>(k, v). encode_v2_string k @ encode_v2_value J v"
  have len: "length (sort_key fst fs) = length (sort_key fst gs)"
    and rest: "concat (map ?f (sort_key fst fs)) @ x = concat (map ?f (sort_key fst gs)) @ y"
    using encode_v2_length_prefix [of "length fs" _ "length gs"] JObject.prems by (auto simp: w)
  have "list_all2 (\<lambda>(k, v) (l, w). k = l \<and> json_eq v w) (sort_key fst fs) (sort_key fst gs) \<and> x = y"
  proof (rule concat_map_prefix [OF len rest])
    fix a b x y assume ab: "a \<in> set (sort_key fst fs)" "b \<in> set (sort_key fst gs)" "?f a @ x = ?f b @ y"
    obtain k v l u where kv: "a = (k, v)" "b = (l, u)" by fastforce
    with ab JObject.prems w have wf: "length k < 2 ^ 32" "v2_wf v" "length l < 2 ^ 32" "v2_wf u"
      by (auto simp: list_all_iff)
    have "k = l \<and> encode_v2_value J v @ x = encode_v2_value J u @ y"
      using ab(3) encode_v2_string_prefix wf(1,3) by (simp add: kv)
    moreover from this have "json_eq v u \<and> x = y"
      using JObject.IH [of "(k, v)" v u x y] ab(1) wf by (simp add: kv)
    ultimately show "(case a of (k, v) \<Rightarrow> \<lambda>(l, w). k = l \<and> json_eq v w) b \<and> x = y" by (simp add: kv)
  qed
  then show ?case using json_eq_JObjectI [of gs "sort_key fst fs" fs "sort_key fst gs"] JObject.prems by (simp add: w)
next
  case JNull
  have "w \<noteq> JNumber n" for n using JNull.prems encode_v2_number_head [of n J] by auto
  then show ?case using JNull.prems by (cases w) (auto split: if_splits)
next
  case (JBool b)
  have "w \<noteq> JNumber n" for n using JBool.prems encode_v2_number_head [of n J] by (auto split: if_splits)
  then show ?case using JBool.prems by (cases w) (auto split: if_splits)
qed

lemma encode_v2_value_cong: "v2_wf v \<Longrightarrow> v2_wf w \<Longrightarrow> json_eq v w \<Longrightarrow> encode_v2_value J v = encode_v2_value J w"
proof (induction v arbitrary: w)
  case (JNumber n)
  then show ?case by (cases w) (auto simp: number_eq_wf)
next
  case (JArray vs)
  then obtain ws where w: "w = JArray ws" by (cases w) auto
  have eq: "list_all2 json_eq vs ws" using JArray.prems(3) by (simp add: w)
  then have "list_all2 (\<lambda>x y. encode_v2_value J x = encode_v2_value J y) vs ws"
    by (rule list.rel_mono_strong) (use JArray.prems JArray.IH in \<open>simp add: w list_all_iff\<close>)
  then have "map (encode_v2_value J) vs = map (encode_v2_value J) ws" by (induction rule: list_all2_induct) simp_all
  with list_all2_lengthD [OF eq] show ?case by (simp add: w)
next
  case (JObject fs)
  then obtain gs where w: "w = JObject gs" by (cases w) auto
  let ?h = "\<lambda>(k, v). (k, encode_v2_value J v)"
  have "mset (map ?h fs) = mset (map ?h gs)"
  proof (rule json_eq_JObject_mset)
    fix k v u assume kv: "(k, v) \<in> set fs" "(k, u) \<in> set gs" "json_eq v u"
    moreover from this JObject.prems(1,2) w have "v2_wf v" "v2_wf u" by (auto simp: list_all_iff)
    ultimately show "encode_v2_value J v = encode_v2_value J u" using JObject.IH [of "(k, v)" v u] by simp
  qed (use JObject.prems w in simp_all)
  moreover have "distinct (map fst (map ?h fs))" using JObject.prems by (simp add: comp_def case_prod_unfold)
  ultimately have "sort_key fst (map ?h fs) = sort_key fst (map ?h gs)" by (rule sort_key_mset_eq)
  moreover have "concat (map (\<lambda>(k, v). encode_v2_string k @ encode_v2_value J v) (sort_key fst hs))
      = concat (map (\<lambda>(k, e). encode_v2_string k @ e) (sort_key fst (map ?h hs)))" for hs
    by (simp add: sort_key_map comp_def case_prod_unfold)
  moreover have "length fs = length gs" using JObject.prems(3) by (simp add: w)
  ultimately show ?case by (simp add: w)
next
  case JNull
  then show ?case by (cases w) simp_all
next
  case (JBool b)
  then show ?case by (cases w) simp_all
next
  case (JString s)
  then show ?case by (cases w) simp_all
qed



text \<open>
  Unsigned integers above \<open>i64::MAX\<close> are rounded to a floating-point number before they are
  encoded, so different integers can get the same bytes.
\<close>

theorem encode_v2_u64_collision:
  "encode_v2 J (JNumber (PosInt 9223372036854775808)) = encode_v2 J (JNumber (PosInt 9223372036854775809))
   \<and> \<not> json_eq (JNumber (PosInt 9223372036854775808)) (JNumber (PosInt 9223372036854775809))"
proof -
  have "ilog2 9223372036854775808 = 63" "ilog2 9223372036854775809 = 63" by (simp_all add: ilog2.simps)
  then have "f64_of_nat 9223372036854775808 = f64_of_nat 9223372036854775809"
    by (simp add: f64_of_nat_def round_half_even_def)
  then show ?thesis by (simp add: encode_v2_def encode_v2_number_def i64_checked_def i64_range_def)
qed

end
