(* ===== verification/Object_Store.thy ===== *)
theory Object_Store
  imports Texts
begin

text \<open>
  Calls to an object store. The \<open>object_store\<close> crate is third-party code: its operations are a record of
  functions on a state, and \<open>store_laws\<close> states their documented behaviour. The store is shared: around
  every call other clients may change the objects by the relation \<open>others\<close>, so the sequences of calls
  below are interleaved with those of other processes. An asynchronous function that may fail is a
  function from a state to a result and the next state.
\<close>

section \<open>Fallible actions on a state\<close>

type_synonym ('s, 'e, 'a) action = "'s \<Rightarrow> ('e, 'a) result \<times> 's"

text \<open>\<open>lift\<close> is a computation without store access, \<open>bind\<close> is \<open>.await?\<close>, \<open>on_result\<close> is a
  \<open>match\<close> on the awaited result.\<close>

definition lift :: "('e, 'a) result \<Rightarrow> ('s, 'e, 'a) action" where
  "lift r s = (r, s)"

definition bind :: "('s, 'e, 'a) action \<Rightarrow> ('a \<Rightarrow> ('s, 'e, 'b) action) \<Rightarrow> ('s, 'e, 'b) action" where
  "bind m f s = (case m s of (Inl e, t) \<Rightarrow> (Inl e, t) | (Inr x, t) \<Rightarrow> f x t)"

definition on_result :: "('s, 'e, 'a) action \<Rightarrow> (('e, 'a) result \<Rightarrow> ('s, 'f, 'b) action) \<Rightarrow> ('s, 'f, 'b) action" where
  "on_result m f s = (case m s of (r, t) \<Rightarrow> f r t)"

text \<open>\<open>observe\<close> reads something beside the store, such as the clock.\<close>

definition observe :: "('s \<Rightarrow> 'a) \<Rightarrow> ('s, 'e, 'a) action" where
  "observe f s = (Inr (f s), s)"

definition map_err :: "('e \<Rightarrow> 'f) \<Rightarrow> ('s, 'e, 'a) action \<Rightarrow> ('s, 'f, 'a) action" where
  "map_err f m s = (case m s of (r, t) \<Rightarrow> (rmap_err f r, t))"

text \<open>\<open>for x in xs\<close> with a body that may leave, without and with collected results.\<close>

primrec each :: "('x \<Rightarrow> ('s, 'e, unit) action) \<Rightarrow> 'x list \<Rightarrow> ('s, 'e, unit) action" where
  "each f [] = lift (Inr ())"
| "each f (x # xs) = bind (f x) (\<lambda>_. each f xs)"

primrec collect :: "('x \<Rightarrow> ('s, 'e, 'a) action) \<Rightarrow> 'x list \<Rightarrow> ('s, 'e, 'a list) action" where
  "collect f [] = lift (Inr [])"
| "collect f (x # xs) = bind (f x) (\<lambda>y. bind (collect f xs) (\<lambda>ys. lift (Inr (y # ys))))"

text \<open>
  Concurrent requests whose results are all awaited, after which the first error is returned. The
  requests run in the order of the list, one of the schedules of \<open>buffer_unordered\<close>.
\<close>

definition join_all :: "('x \<Rightarrow> ('s, 'e, 'a) action) \<Rightarrow> 'x list \<Rightarrow> ('s, 'e, 'a list) action" where
  "join_all f xs = bind (collect (\<lambda>x. on_result (f x) (\<lambda>r. lift (Inr r))) xs) (\<lambda>results. lift (rmap_list (\<lambda>r. r) results))"

named_theorems action_simps \<open>when an action succeeds\<close>

lemma lift_iff [action_simps]: "lift r s = (r', t) \<longleftrightarrow> r = r' \<and> s = t"
  by (simp add: lift_def)

lemma observe_iff [action_simps]: "observe f s = (r, t) \<longleftrightarrow> r = Inr (f s) \<and> s = t"
  by (auto simp: observe_def)

lemma bind_iff [action_simps]: "bind m f s = (Inr y, t) \<longleftrightarrow> (\<exists>x u. m s = (Inr x, u) \<and> f x u = (Inr y, t))"
  by (auto simp: bind_def split: prod.splits sum.splits)

lemma bind_lift: "bind (lift (Inr x)) f = f x" "bind (lift (Inl e)) f = lift (Inl e)"
  by (simp_all add: fun_eq_iff bind_def lift_def)

lemma on_result_iff [action_simps]: "on_result m f s = (r, t) \<longleftrightarrow>
    (\<exists>x u. m s = (Inr x, u) \<and> f (Inr x) u = (r, t)) \<or> (\<exists>e u. m s = (Inl e, u) \<and> f (Inl e) u = (r, t))"
  by (cases "m s"; cases "fst (m s)") (auto simp: on_result_def)

lemma map_err_iff [action_simps]: "map_err f m s = (Inr y, t) \<longleftrightarrow> m s = (Inr y, t)"
  by (auto simp: map_err_def res_simps split: prod.splits)

lemma each_Cons_iff: "each f (x # xs) s = (Inr u, t) \<longleftrightarrow> (\<exists>w. f x s = (Inr (), w) \<and> each f xs w = (Inr u, t))"
  by (simp add: action_simps)

lemma bind_cases:
  assumes "bind m f s = (r, t)"
  obtains (error) e where "m s = (Inl e, t)" "r = Inl e" | (ok) x u where "m s = (Inr x, u)" "f x u = (r, t)"
  using assms by (auto simp: bind_def split: prod.splits sum.splits)

subsection \<open>What an action may do to the state\<close>

text \<open>Every outcome of the action is related to the state it started in.\<close>

definition moves :: "('s \<Rightarrow> 's \<Rightarrow> bool) \<Rightarrow> ('s, 'e, 'a) action \<Rightarrow> bool" where
  "moves R m \<longleftrightarrow> (\<forall>s. R s (snd (m s)))"

named_theorems moves_intros \<open>actions that keep to a reflexive and transitive relation\<close>

lemma movesD: "moves R m \<Longrightarrow> m s = (r, t) \<Longrightarrow> R s t"
  unfolding moves_def by (metis snd_conv)

lemma movesI: "(\<And>s r t. m s = (r, t) \<Longrightarrow> R s t) \<Longrightarrow> moves R m"
  unfolding moves_def by (metis prod.collapse)

lemma moves_lift [moves_intros]: "reflp R \<Longrightarrow> moves R (lift r)"
  by (simp add: moves_def lift_def reflp_def)

lemma moves_observe [moves_intros]: "reflp R \<Longrightarrow> moves R (observe f)"
  by (simp add: moves_def observe_def reflp_def)

lemma moves_bind [moves_intros]: "transp R \<Longrightarrow> moves R m \<Longrightarrow> (\<And>x. moves R (f x)) \<Longrightarrow> moves R (bind m f)"
  by (rule movesI, erule bind_cases) (auto dest: movesD elim: transpE)

lemma moves_on_result [moves_intros]: "transp R \<Longrightarrow> moves R m \<Longrightarrow> (\<And>r. moves R (f r)) \<Longrightarrow> moves R (on_result m f)"
  by (rule movesI) (auto simp: on_result_iff dest: movesD elim: transpE)

lemma moves_map_err [moves_intros]: "moves R m \<Longrightarrow> moves R (map_err f m)"
  by (auto simp: map_err_def intro!: movesI dest: movesD split: prod.splits)

lemma moves_each [moves_intros]: "reflp R \<Longrightarrow> transp R \<Longrightarrow> (\<And>x. x \<in> set xs \<Longrightarrow> moves R (f x)) \<Longrightarrow> moves R (each f xs)"
  by (induction xs) (auto intro!: moves_intros)

lemma moves_collect [moves_intros]: "reflp R \<Longrightarrow> transp R \<Longrightarrow> (\<And>x. x \<in> set xs \<Longrightarrow> moves R (f x)) \<Longrightarrow> moves R (collect f xs)"
  by (induction xs) (auto intro!: moves_intros)

lemma moves_join_all [moves_intros]: "reflp R \<Longrightarrow> transp R \<Longrightarrow> (\<And>x. x \<in> set xs \<Longrightarrow> moves R (f x)) \<Longrightarrow> moves R (join_all f xs)"
  unfolding join_all_def by (intro moves_intros)

text \<open>
  Started in a state with \<open>P\<close>, the action keeps to \<open>R\<close> and ends with \<open>Q\<close>. The precondition may be used
  after any number of steps of \<open>R\<close> that keep it.
\<close>

definition triple :: "('s \<Rightarrow> 's \<Rightarrow> bool) \<Rightarrow> ('s \<Rightarrow> bool) \<Rightarrow> ('s, 'e, 'a) action \<Rightarrow> (('e, 'a) result \<Rightarrow> 's \<Rightarrow> bool) \<Rightarrow> bool" where
  "triple R P m Q \<longleftrightarrow> (\<forall>s r t. P s \<longrightarrow> m s = (r, t) \<longrightarrow> R s t \<and> Q r t)"

abbreviation when_ok :: "('a \<Rightarrow> 's \<Rightarrow> bool) \<Rightarrow> ('e, 'a) result \<Rightarrow> 's \<Rightarrow> bool" where
  "when_ok Q \<equiv> \<lambda>r t. \<forall>x. r = Inr x \<longrightarrow> Q x t"

lemma tripleI: "(\<And>s r t. P s \<Longrightarrow> m s = (r, t) \<Longrightarrow> R s t \<and> Q r t) \<Longrightarrow> triple R P m Q"
  by (simp add: triple_def)

lemma tripleD: "triple R P m Q \<Longrightarrow> m s = (r, t) \<Longrightarrow> P s \<Longrightarrow> R s t \<and> Q r t"
  by (simp add: triple_def)

lemma triple_moves: "triple R (\<lambda>_. True) m Q \<Longrightarrow> moves R m"
  by (auto intro!: movesI dest: tripleD)

lemma triple_lift: "reflp R \<Longrightarrow> (\<And>s. P s \<Longrightarrow> Q r s) \<Longrightarrow> triple R P (lift r) Q"
  by (auto simp: triple_def lift_iff dest: reflpD)

lemma triple_bind:
  assumes "transp R" "triple R P m (when_ok Q)" "\<And>x. triple R (Q x) (f x) (when_ok Q')"
  shows "triple R P (bind m f) (when_ok Q')"
proof (rule tripleI)
  fix s r t
  assume P: "P s" and "bind m f s = (r, t)"
  from this(2) show "R s t \<and> (\<forall>x. r = Inr x \<longrightarrow> Q' x t)"
  proof (cases rule: bind_cases)
    case (error e)
    then show ?thesis using tripleD [OF assms(2) error(1) P] by simp
  next
    case (ok x u)
    then have "R s u" "Q x u" using tripleD [OF assms(2) ok(1) P] by auto
    then show ?thesis using tripleD [OF assms(3) ok(2)] assms(1) by (auto elim: transpE)
  qed
qed

lemma triple_on_result:
  assumes "transp R" "triple R P m Q" "\<And>r. triple R (Q r) (f r) Q'"
  shows "triple R P (on_result m f) Q'"
  by (rule tripleI) (use assms in \<open>auto simp: on_result_iff dest!: tripleD elim: transpE\<close>)

lemma triple_frame:
  assumes "triple R P m (when_ok Q)" "\<And>s t. R s t \<Longrightarrow> I s \<Longrightarrow> I t"
  shows "triple R (\<lambda>s. P s \<and> I s) m (when_ok (\<lambda>x t. Q x t \<and> I t))"
  using assms unfolding triple_def by blast

lemma triple_weaken:
  assumes "triple R P m Q" "\<And>s. P' s \<Longrightarrow> P s" "\<And>r t. Q r t \<Longrightarrow> Q' r t"
  shows "triple R P' m Q'"
  using assms unfolding triple_def by blast

text \<open>Each request of a successful group succeeded somewhere between the start and the end.\<close>

lemma each_member:
  assumes R: "reflp R" "transp R" "\<And>x. x \<in> set xs \<Longrightarrow> moves R (f x)"
    and "each f xs s = (Inr u, t)" "x \<in> set xs"
  shows "\<exists>s' t'. R s s' \<and> f x s' = (Inr (), t') \<and> R t' t"
  using assms(3-) 
proof (induction xs arbitrary: s)
  case (Cons y ys)
  from Cons.prems(2) obtain w where w: "f y s = (Inr (), w)" "each f ys w = (Inr u, t)" unfolding each_Cons_iff by blast
  have sw: "R s w" using movesD [OF Cons.prems(1) w(1)] by simp
  have wt: "R w t" using movesD [OF moves_each [OF R(1,2)] w(2)] Cons.prems(1) by simp
  show ?case
  proof (cases "x = y")
    case True
    with w(1) wt R(1) show ?thesis by (meson reflpD)
  next
    case False
    with Cons.IH [of w] Cons.prems w(2) obtain s' t' where "R w s'" "f x s' = (Inr (), t')" "R t' t" by auto
    with sw R(2) show ?thesis by (meson transpD)
  qed
qed simp

lemma collect_members:
  assumes R: "reflp R" "transp R" "\<And>x. x \<in> set xs \<Longrightarrow> moves R (f x)"
    and "collect f xs s = (Inr ys, t)"
  shows "list_all2 (\<lambda>x y. \<exists>s' t'. R s s' \<and> f x s' = (Inr y, t') \<and> R t' t) xs ys"
  using assms(3-)
proof (induction xs arbitrary: s ys)
  case (Cons x xs)
  from Cons.prems(2) obtain y zs w where w: "f x s = (Inr y, w)" "collect f xs w = (Inr zs, t)" "ys = y # zs"
    by (auto simp: action_simps)
  have sw: "R s w" using movesD [OF Cons.prems(1) w(1)] by simp
  have wt: "R w t" using movesD [OF moves_collect [OF R(1,2)] w(2)] Cons.prems(1) by simp
  have "list_all2 (\<lambda>x y. \<exists>s' t'. R w s' \<and> f x s' = (Inr y, t') \<and> R t' t) xs zs" using Cons.IH Cons.prems w(2) by auto
  then have "list_all2 (\<lambda>x y. \<exists>s' t'. R s s' \<and> f x s' = (Inr y, t') \<and> R t' t) xs zs"
    by (rule list_all2_mono) (meson sw R(2) transpD)
  with w wt R(1) show ?case by (auto dest: reflpD)
qed (simp add: action_simps)

lemma join_all_members:
  fixes f :: "'x \<Rightarrow> ('s, 'e, 'a) action"
  assumes R: "reflp R" "transp R" "\<And>x. x \<in> set xs \<Longrightarrow> moves R (f x)"
    and "join_all f xs s = (Inr ys, t)"
  shows "list_all2 (\<lambda>x y. \<exists>s' t'. R s s' \<and> f x s' = (Inr y, t') \<and> R t' t) xs ys"
proof -
  from assms(4) obtain rs
    where rs: "(collect (\<lambda>x. on_result (f x) (\<lambda>r. lift (Inr r))) xs :: ('s, 'e, _) action) s = (Inr rs, t)" "rmap_list (\<lambda>r. r) rs = Inr ys"
    unfolding join_all_def bind_iff lift_iff by blast
  have "list_all2 (\<lambda>x r. \<exists>s' t'. R s s' \<and> (on_result (f x) (\<lambda>r. lift (Inr r)) :: ('s, 'e, _) action) s' = (Inr r, t') \<and> R t' t) xs rs"
    by (rule collect_members [OF R(1,2) _ rs(1)]) (auto intro!: moves_intros R)
  moreover have "list_all2 (\<lambda>r y. r = Inr y) rs ys" using rs(2) by (simp add: rmap_list_eq_Inr)
  ultimately have "list_all2 (\<lambda>x y. \<exists>s' t'. R s s' \<and> (on_result (f x) (\<lambda>r. lift (Inr r)) :: ('s, 'e, _) action) s' = (Inr (Inr y), t') \<and> R t' t) xs ys"
    by (rule list_all2_trans [rotated]) auto
  then show ?thesis by (simp add: action_simps)
qed

section \<open>Object stores\<close>

datatype store_error = NotFound | AlreadyExists | Precondition | NotImplemented | OtherStoreError string

text \<open>
  The operations that the publisher calls. Locations are the texts that are given to \<open>Path::from\<close>.
  \<open>os_get\<close> is \<open>get\<close> followed by \<open>bytes\<close>, \<open>os_create\<close> is \<open>put_opts\<close> with \<open>PutMode::Create\<close>, \<open>os_put\<close> is
  \<open>put\<close>, and a listing is the locations that it has returned when its stream is exhausted.
\<close>

record ('s, 'b) object_store =
  os_get :: "string \<Rightarrow> ('s, store_error, 'b) action"
  os_head :: "string \<Rightarrow> ('s, store_error, unit) action"
  os_list :: "string \<Rightarrow> ('s, store_error, string list) action"
  os_list_with_offset :: "string \<Rightarrow> string \<Rightarrow> ('s, store_error, string list) action"
  os_create :: "string \<Rightarrow> 'b \<Rightarrow> ('s, store_error, unit) action"
  os_put :: "string \<Rightarrow> 'b \<Rightarrow> ('s, store_error, unit) action"
  os_delete :: "string \<Rightarrow> ('s, store_error, unit) action"

type_synonym 'b objects = "string \<Rightarrow> 'b option"

text \<open>A prefix is a directory, with or without its final slash.\<close>

definition dir_of :: "string \<Rightarrow> string" where
  "dir_of p = (if p \<noteq> [] \<and> last p = CHR ''/'' then p else p @ ''/'')"

definition under :: "string \<Rightarrow> string \<Rightarrow> bool" where
  "under p k \<longleftrightarrow> length (dir_of p) < length k \<and> take (length (dir_of p)) k = dir_of p"

text \<open>\<open>moment others c d e\<close>: \<open>e\<close> is the store at some moment between \<open>c\<close> and \<open>d\<close>.\<close>

definition moment :: "('b objects \<Rightarrow> 'b objects \<Rightarrow> bool) \<Rightarrow> 'b objects \<Rightarrow> 'b objects \<Rightarrow> 'b objects \<Rightarrow> bool" where
  "moment others c d e \<longleftrightarrow> others c e \<and> others e d"

definition listing :: "('b objects \<Rightarrow> 'b objects \<Rightarrow> bool) \<Rightarrow> (string \<Rightarrow> bool) \<Rightarrow> 'b objects \<Rightarrow> 'b objects \<Rightarrow> string list \<Rightarrow> bool" where
  "listing others P c d ks \<longleftrightarrow> distinct ks \<and> (\<forall>k \<in> set ks. P k \<and> (\<exists>e. moment others c d e \<and> e k \<noteq> None))
     \<and> (\<forall>k. P k \<longrightarrow> (\<forall>e. moment others c d e \<longrightarrow> e k \<noteq> None) \<longrightarrow> k \<in> set ks)"

text \<open>An object that is returned was there at some moment of the call.\<close>

definition get_law :: "('s, 'b) object_store \<Rightarrow> ('s \<Rightarrow> 'b objects) \<Rightarrow> ('b objects \<Rightarrow> 'b objects \<Rightarrow> bool) \<Rightarrow> bool" where
  "get_law st objects others \<longleftrightarrow> (\<forall>k s r t. os_get st k s = (r, t) \<longrightarrow>
     (\<exists>e. moment others (objects s) (objects t) e \<and> (\<forall>b. r = Inr b \<longrightarrow> e k = Some b) \<and> (r = Inl NotFound \<longrightarrow> e k = None)))"

definition head_law :: "('s, 'b) object_store \<Rightarrow> ('s \<Rightarrow> 'b objects) \<Rightarrow> ('b objects \<Rightarrow> 'b objects \<Rightarrow> bool) \<Rightarrow> bool" where
  "head_law st objects others \<longleftrightarrow> (\<forall>k s r t. os_head st k s = (r, t) \<longrightarrow>
     (\<exists>e. moment others (objects s) (objects t) e \<and> (r = Inr () \<longrightarrow> e k \<noteq> None) \<and> (r = Inl NotFound \<longrightarrow> e k = None)))"

text \<open>A listing is not a snapshot: it has every object that was there all the time.\<close>

definition list_law :: "('s, 'b) object_store \<Rightarrow> ('s \<Rightarrow> 'b objects) \<Rightarrow> ('b objects \<Rightarrow> 'b objects \<Rightarrow> bool) \<Rightarrow> bool" where
  "list_law st objects others \<longleftrightarrow>
     (\<forall>p s r t. os_list st p s = (r, t) \<longrightarrow> others (objects s) (objects t)
        \<and> (\<forall>ks. r = Inr ks \<longrightarrow> listing others (under p) (objects s) (objects t) ks))
     \<and> (\<forall>p k s r t. os_list_with_offset st p k s = (r, t) \<longrightarrow> others (objects s) (objects t)
        \<and> (\<forall>ks. r = Inr ks \<longrightarrow> listing others (\<lambda>k'. under p k' \<and> k < k') (objects s) (objects t) ks))"

text \<open>A conditional create is atomic. After any other error the object may or may not have been written.\<close>

definition create_law :: "('s, 'b) object_store \<Rightarrow> ('s \<Rightarrow> 'b objects) \<Rightarrow> ('b objects \<Rightarrow> 'b objects \<Rightarrow> bool) \<Rightarrow> bool" where
  "create_law st objects others \<longleftrightarrow> (\<forall>k b s r t. os_create st k b s = (r, t) \<longrightarrow>
     (\<exists>e. others (objects s) e \<and>
       (if r = Inr () then e k = None \<and> others (e(k \<mapsto> b)) (objects t)
        else if r = Inl AlreadyExists then e k \<noteq> None \<and> others e (objects t)
        else others e (objects t) \<or> (e k = None \<and> others (e(k \<mapsto> b)) (objects t)))))"

definition put_law :: "('s, 'b) object_store \<Rightarrow> ('s \<Rightarrow> 'b objects) \<Rightarrow> ('b objects \<Rightarrow> 'b objects \<Rightarrow> bool) \<Rightarrow> bool" where
  "put_law st objects others \<longleftrightarrow> (\<forall>k b s r t. os_put st k b s = (r, t) \<longrightarrow>
     (\<exists>e. others (objects s) e \<and>
       (if r = Inr () then others (e(k \<mapsto> b)) (objects t)
        else others e (objects t) \<or> others (e(k \<mapsto> b)) (objects t))))"

definition store_laws :: "('s, 'b) object_store \<Rightarrow> ('s \<Rightarrow> 'b objects) \<Rightarrow> ('b objects \<Rightarrow> 'b objects \<Rightarrow> bool) \<Rightarrow> bool" where
  "store_laws st objects others \<longleftrightarrow> reflp others \<and> transp others \<and> get_law st objects others \<and> head_law st objects others
     \<and> list_law st objects others \<and> create_law st objects others \<and> put_law st objects others"

text \<open>Two states of the store, by their objects.\<close>

abbreviation stored :: "('s \<Rightarrow> 'b objects) \<Rightarrow> ('b objects \<Rightarrow> 'b objects \<Rightarrow> bool) \<Rightarrow> 's \<Rightarrow> 's \<Rightarrow> bool" where
  "stored objects others \<equiv> (\<lambda>s t. others (objects s) (objects t))"

lemma under_append: "under p k \<Longrightarrow> under p (k @ r)"
  by (simp add: under_def)

lemma store_others: "store_laws st objects others \<Longrightarrow> reflp others" "store_laws st objects others \<Longrightarrow> transp others"
  by (simp_all add: store_laws_def)

lemma stored_refl: "store_laws st objects others \<Longrightarrow> reflp (stored objects others)"
  by (auto simp: store_laws_def reflp_def)

lemma stored_trans: "store_laws st objects others \<Longrightarrow> transp (stored objects others)"
  unfolding store_laws_def transp_def by blast

lemma moment_others: "transp others \<Longrightarrow> moment others c d e \<Longrightarrow> others c d"
  by (auto simp: moment_def elim: transpE)

lemma store_get:
  assumes "store_laws st objects others" "os_get st k s = (r, t)"
  obtains e where "moment others (objects s) (objects t) e" "\<And>b. r = Inr b \<Longrightarrow> e k = Some b" "r = Inl NotFound \<Longrightarrow> e k = None"
  using assms unfolding store_laws_def get_law_def by blast

lemma store_head:
  assumes "store_laws st objects others" "os_head st k s = (r, t)"
  obtains e where "moment others (objects s) (objects t) e" "r = Inr () \<Longrightarrow> e k \<noteq> None" "r = Inl NotFound \<Longrightarrow> e k = None"
  using assms unfolding store_laws_def head_law_def by blast

lemma store_list:
  assumes "store_laws st objects others" "os_list st p s = (r, t)"
  shows "others (objects s) (objects t)" "r = Inr ks \<Longrightarrow> listing others (under p) (objects s) (objects t) ks"
  using assms unfolding store_laws_def list_law_def by blast+

lemma store_list_with_offset:
  assumes "store_laws st objects others" "os_list_with_offset st p k s = (r, t)"
  shows "others (objects s) (objects t)"
    "r = Inr ks \<Longrightarrow> listing others (\<lambda>k'. under p k' \<and> k < k') (objects s) (objects t) ks"
  using assms unfolding store_laws_def list_law_def by blast+

lemma read_only_moves [moves_intros]:
  assumes laws: "store_laws st objects others"
  shows "moves (stored objects others) (os_get st k)" "moves (stored objects others) (os_head st k)"
    "moves (stored objects others) (os_list st p)" "moves (stored objects others) (os_list_with_offset st p k)"
  using moment_others [OF store_others(2) [OF laws]]
  by (auto intro!: movesI elim: store_get [OF laws] store_head [OF laws]
    dest: store_list(1) [OF laws] store_list_with_offset(1) [OF laws])

text \<open>A created object is new, and a step of this client lies between steps of the others.\<close>

lemma store_create_ok:
  assumes "store_laws st objects others" "os_create st k b s = (Inr (), t)"
  obtains e where "others (objects s) e" "e k = None" "others (e(k \<mapsto> b)) (objects t)"
  using assms unfolding store_laws_def create_law_def by (metis (full_types))

lemma store_create_moves:
  assumes laws: "store_laws st objects others" and "os_create st k b s = (r, t)"
    and step: "\<And>e. others (objects s) e \<Longrightarrow> e k = None \<Longrightarrow> others e (e(k \<mapsto> b))"
  shows "others (objects s) (objects t)"
proof -
  note trans = transpE [OF store_others(2) [OF laws]]
  obtain e where e: "others (objects s) e" "others e (objects t) \<or> e k = None \<and> others (e(k \<mapsto> b)) (objects t)"
    using assms(1,2) unfolding store_laws_def create_law_def by (metis (full_types))
  from e(2) show ?thesis using e(1) step [OF e(1)] by (blast intro: trans)
qed

lemma store_put_moves:
  assumes laws: "store_laws st objects others" and "os_put st k b s = (r, t)"
    and step: "\<And>e. others (objects s) e \<Longrightarrow> others e (e(k \<mapsto> b))"
  shows "others (objects s) (objects t)"
proof -
  note trans = transpE [OF store_others(2) [OF laws]]
  obtain e where e: "others (objects s) e" "others e (objects t) \<or> others (e(k \<mapsto> b)) (objects t)"
    using assms(1,2) unfolding store_laws_def put_law_def by (metis (full_types))
  from e(2) show ?thesis using e(1) step [OF e(1)] by (blast intro: trans)
qed

end
