(* ===== verification/Manifest.thy ===== *)
theory Manifest
  imports Object_Key_Props Lease
begin

text \<open>
  Checkpoint manifests (\<open>velorix-storage/src/manifest.rs\<close>) and their validation. A \<open>HashSet\<close> that only
  answers whether it has an element is a list. The tree-shaped manifest is a list of segments with
  three queries. Validation accepts exactly the manifests that \<open>manifest_ok\<close> describes.
\<close>

section \<open>Definitions\<close>

record input_range =
  ir_stream_id :: string
  ir_partition_id :: nat
  ir_start_offset_inclusive :: nat
  ir_end_offset_exclusive :: nat

record state_object_ref =
  sr_object_id :: string
  sr_object_key :: object_key
  sr_owner :: string
  sr_partition_id :: nat
  sr_checkpoint_version :: nat
  sr_owner_claim :: "partition_owner_claim option"

record output_object_ref =
  or_object_id :: string
  or_object_key :: object_key
  or_stream_id :: string
  or_partition_id :: nat
  or_checkpoint_version :: nat
  or_start_offset_inclusive :: nat
  or_end_offset_exclusive :: nat
  or_owner_claim :: "partition_owner_claim option"

record checkpoint_manifest =
  cm_schema_version :: nat
  cm_checkpoint_version :: nat
  cm_input_ranges :: "input_range list"
  cm_state_objects :: "state_object_ref list"
  cm_output_objects :: "output_object_ref list"
  cm_parent_checkpoint :: "nat option"
  cm_created_at :: string
  cm_relation_id :: "string option"
  cm_relation_version :: "string option"
  cm_schema_fingerprint :: "string option"

datatype segment_kind = StateSegment | OutputSegment | DeltaSegment

record checkpoint_manifest_segment =
  ms_segment_id :: nat
  ms_segment_kind :: segment_kind
  ms_content_hash :: string
  ms_byte_size :: nat
  ms_row_count :: nat
  ms_min_key :: "string option"
  ms_max_key :: "string option"
  ms_object_key :: object_key

record tree_checkpoint_manifest =
  tm_schema_version :: nat
  tm_checkpoint_version :: nat
  tm_parent_checkpoint :: "nat option"
  tm_created_at :: string
  tm_segments :: "checkpoint_manifest_segment list"
  tm_total_state_bytes :: nat
  tm_total_output_bytes :: nat
  tm_relation_id :: "string option"
  tm_relation_version :: "string option"
  tm_schema_fingerprint :: "string option"

definition segments_by_kind :: "tree_checkpoint_manifest \<Rightarrow> segment_kind \<Rightarrow> checkpoint_manifest_segment list" where
  "segments_by_kind self kind = filter (\<lambda>s. ms_segment_kind s = kind) (tm_segments self)"

definition segment_count :: "tree_checkpoint_manifest \<Rightarrow> nat" where
  "segment_count self = length (tm_segments self)"

definition has_segment :: "tree_checkpoint_manifest \<Rightarrow> string \<Rightarrow> bool" where
  "has_segment self content_hash = list_ex (\<lambda>s. ms_content_hash s = content_hash) (tm_segments self)"

datatype manifest_error =
    UnsupportedSchemaVersion nat
  | MissingInputProgress
  | MissingStateObjects
  | InvalidInputRange string nat nat nat
  | DuplicateInputRange string nat
  | InputRangesNotSorted
  | InvalidParentCheckpoint nat nat
  | MissingParentCheckpoint nat
  | UnexpectedGenesisParent
  | StateObjectCheckpointMismatch string nat nat
  | StateObjectKeyMismatch string object_key object_key
  | MissingOwnerClaim string
  | OwnerClaimMismatch string partition_owner_claim partition_owner_claim
  | MissingOutputOwnerClaim string
  | ManifestOutputOwnerClaimMismatch string partition_owner_claim partition_owner_claim
  | InvalidOutputRange string nat nat
  | OutputObjectCheckpointMismatch string nat nat
  | OutputObjectKeyMismatch string object_key object_key
  | DuplicateObjectId string
  | DuplicateObjectKey object_key
  | MissingCreationTimestamp

definition manifest_object_key :: "checkpoint_manifest \<Rightarrow> object_key" where
  "manifest_object_key self = checkpoint_manifest_key (cm_checkpoint_version self)"

definition validate_parent_checkpoint :: "checkpoint_manifest \<Rightarrow> (manifest_error, unit) result" where
  "validate_parent_checkpoint self =
     (case (cm_checkpoint_version self, cm_parent_checkpoint self) of
        (0, None) \<Rightarrow> Inr ()
      | (0, Some _) \<Rightarrow> Inl UnexpectedGenesisParent
      | (Suc v, Some parent) \<Rightarrow> if v = parent then Inr () else Inl (InvalidParentCheckpoint parent (Suc v))
      | (Suc v, None) \<Rightarrow> Inl (MissingParentCheckpoint (Suc v)))"

fun check_ranges :: "(string \<times> nat) option \<Rightarrow> (string \<times> nat) list \<Rightarrow> input_range list \<Rightarrow> (manifest_error, unit) result" where
  "check_ranges previous seen [] = Inr ()"
| "check_ranges previous seen (range_ref # ranges) =
     (let current = (ir_stream_id range_ref, ir_partition_id range_ref) in
      if ir_start_offset_inclusive range_ref \<ge> ir_end_offset_exclusive range_ref then
        Inl (InvalidInputRange (ir_stream_id range_ref) (ir_partition_id range_ref)
          (ir_start_offset_inclusive range_ref) (ir_end_offset_exclusive range_ref))
      else if (case previous of Some p \<Rightarrow> p > current | None \<Rightarrow> False) then Inl InputRangesNotSorted
      else if current \<in> set seen then Inl (DuplicateInputRange (ir_stream_id range_ref) (ir_partition_id range_ref))
      else check_ranges (Some current) (current # seen) ranges)"

definition validate_input_ranges :: "checkpoint_manifest \<Rightarrow> (manifest_error, unit) result" where
  "validate_input_ranges self =
     (if cm_input_ranges self = [] then Inl MissingInputProgress else check_ranges None [] (cm_input_ranges self))"

definition check_state_object :: "nat \<Rightarrow> state_object_ref \<Rightarrow> (manifest_error, unit) result" where
  "check_state_object version ref =
     (if sr_checkpoint_version ref \<noteq> version
      then Inl (StateObjectCheckpointMismatch (sr_object_id ref) (sr_checkpoint_version ref) version)
      else rbind (rmap_err (\<lambda>_. StateObjectKeyMismatch (sr_object_id ref) (sr_object_key ref) (sr_object_key ref))
          (state_object (sr_owner ref) (sr_partition_id ref) (sr_checkpoint_version ref) (sr_object_id ref))) (\<lambda>expected.
        if sr_object_key ref \<noteq> expected
        then Inl (StateObjectKeyMismatch (sr_object_id ref) expected (sr_object_key ref)) else Inr ()))"

definition validate_state_objects :: "checkpoint_manifest \<Rightarrow> (manifest_error, unit) result" where
  "validate_state_objects self =
     (if cm_state_objects self = [] then Inl MissingStateObjects
      else rfold (\<lambda>ref _. check_state_object (cm_checkpoint_version self) ref) (cm_state_objects self) ())"

definition check_output_object :: "nat \<Rightarrow> output_object_ref \<Rightarrow> (manifest_error, unit) result" where
  "check_output_object version ref =
     (if or_start_offset_inclusive ref \<ge> or_end_offset_exclusive ref
      then Inl (InvalidOutputRange (or_object_id ref) (or_start_offset_inclusive ref) (or_end_offset_exclusive ref))
      else rbind (rmap_err (\<lambda>_. OutputObjectKeyMismatch (or_object_id ref) (or_object_key ref) (or_object_key ref))
          (output_object (or_stream_id ref) (or_partition_id ref) (or_checkpoint_version ref)
            (or_start_offset_inclusive ref) (or_end_offset_exclusive ref) (or_object_id ref))) (\<lambda>expected.
        if or_object_key ref \<noteq> expected
        then Inl (OutputObjectKeyMismatch (or_object_id ref) expected (or_object_key ref))
        else if or_checkpoint_version ref \<noteq> version
        then Inl (OutputObjectCheckpointMismatch (or_object_id ref) (or_checkpoint_version ref) version)
        else Inr ()))"

definition validate_output_objects :: "checkpoint_manifest \<Rightarrow> (manifest_error, unit) result" where
  "validate_output_objects self =
     rfold (\<lambda>ref _. check_output_object (cm_checkpoint_version self) ref) (cm_output_objects self) ()"

text \<open>\<open>ObjectRef\<close>: the id and the key of a referenced object, states first.\<close>

definition object_refs :: "checkpoint_manifest \<Rightarrow> (string \<times> object_key) list" where
  "object_refs self =
     map (\<lambda>ref. (sr_object_id ref, sr_object_key ref)) (cm_state_objects self)
     @ map (\<lambda>ref. (or_object_id ref, or_object_key ref)) (cm_output_objects self)"

fun check_unique :: "string list \<Rightarrow> object_key list \<Rightarrow> (string \<times> object_key) list \<Rightarrow> (manifest_error, unit) result" where
  "check_unique object_ids object_keys [] = Inr ()"
| "check_unique object_ids object_keys ((object_id, object_key) # refs) =
     (if object_id \<in> set object_ids then Inl (DuplicateObjectId object_id)
      else if object_key \<in> set object_keys then Inl (DuplicateObjectKey object_key)
      else check_unique (object_id # object_ids) (object_key # object_keys) refs)"

definition validate_unique_object_refs :: "checkpoint_manifest \<Rightarrow> (manifest_error, unit) result" where
  "validate_unique_object_refs self = check_unique [] [] (object_refs self)"

definition manifest_validate :: "checkpoint_manifest \<Rightarrow> (manifest_error, unit) result" where
  "manifest_validate self =
     (if cm_schema_version self \<noteq> 1 then Inl (UnsupportedSchemaVersion (cm_schema_version self))
      else if cm_created_at self = [] then Inl MissingCreationTimestamp
      else
        rbind (validate_parent_checkpoint self) (\<lambda>_.
        rbind (validate_input_ranges self) (\<lambda>_.
        rbind (validate_state_objects self) (\<lambda>_.
        rbind (validate_unique_object_refs self) (\<lambda>_.
        rbind (validate_output_objects self) (\<lambda>_. Inr ()))))))"

definition check_claim :: "(partition_owner_claim \<Rightarrow> partition_owner_claim \<Rightarrow> manifest_error) \<Rightarrow> manifest_error \<Rightarrow>
    partition_owner_claim \<Rightarrow> partition_owner_claim option \<Rightarrow> (manifest_error, unit) result" where
  "check_claim mismatch missing owner_claim claim =
     (case claim of
        Some actual \<Rightarrow> if actual = owner_claim then Inr () else Inl (mismatch owner_claim actual)
      | None \<Rightarrow> Inl missing)"

definition manifest_validate_owner_claim :: "checkpoint_manifest \<Rightarrow> partition_owner_claim \<Rightarrow> (manifest_error, unit) result" where
  "manifest_validate_owner_claim self owner_claim =
     rbind (rfold (\<lambda>ref _. check_claim (OwnerClaimMismatch (sr_object_id ref)) (MissingOwnerClaim (sr_object_id ref))
         owner_claim (sr_owner_claim ref)) (cm_state_objects self) ()) (\<lambda>_.
     rfold (\<lambda>ref _. check_claim (ManifestOutputOwnerClaimMismatch (or_object_id ref)) (MissingOutputOwnerClaim (or_object_id ref))
         owner_claim (or_owner_claim ref)) (cm_output_objects self) ())"

text \<open>\<open>ValidatedCheckpointManifest\<close>: a manifest that has passed validation.\<close>

datatype validated_checkpoint_manifest = Validated (inner: checkpoint_manifest)

definition try_new :: "checkpoint_manifest \<Rightarrow> (manifest_error, validated_checkpoint_manifest) result" where
  "try_new manifest = rbind (manifest_validate manifest) (\<lambda>_. Inr (Validated manifest))"

section \<open>Laws\<close>

text \<open>A fold that only checks.\<close>

lemma rfold_check: "rfold (\<lambda>x _. f x) xs () = Inr u \<longleftrightarrow> (\<forall>x \<in> set xs. f x = Inr ())"
  by (induction xs) (auto simp: res_simps)

definition range_id :: "input_range \<Rightarrow> string \<times> nat" where
  "range_id r = (ir_stream_id r, ir_partition_id r)"

text \<open>An element above the maximum of a set, in the two tests of the loop.\<close>

lemma fresh_above_max: "q \<in> S \<Longrightarrow> \<forall>p \<in> S. p \<le> q \<Longrightarrow> \<not> c < q \<and> c \<notin> S \<longleftrightarrow> q < c" for c :: "'a :: linorder"
  by (cases c q rule: linorder_cases) auto

lemma check_ranges_seen:
  "q \<in> set seen \<Longrightarrow> \<forall>p \<in> set seen. p \<le> q \<Longrightarrow> check_ranges (Some q) seen rs = Inr u \<longleftrightarrow>
     (\<forall>r \<in> set rs. ir_start_offset_inclusive r < ir_end_offset_exclusive r)
     \<and> sorted_wrt (<) (map range_id rs) \<and> (\<forall>r \<in> set rs. q < range_id r)"
proof (induction rs arbitrary: q seen)
  case (Cons r rs)
  define c where "c = range_id r"
  define nonempty where "nonempty \<longleftrightarrow> ir_start_offset_inclusive r < ir_end_offset_exclusive r"
  have step: "check_ranges (Some q) seen (r # rs) = Inr u \<longleftrightarrow>
      nonempty \<and> \<not> c < q \<and> c \<notin> set seen \<and> check_ranges (Some c) (c # seen) rs = Inr u"
    by (auto simp: Let_def c_def nonempty_def range_id_def)
  have max: "\<forall>p \<in> set (c # seen). p \<le> c" if "q < c" using Cons.prems that by (auto intro: order.trans)
  have "check_ranges (Some q) seen (r # rs) = Inr u \<longleftrightarrow>
      nonempty \<and> q < c \<and> check_ranges (Some c) (c # seen) rs = Inr u"
    unfolding step using fresh_above_max [OF Cons.prems, of c] by blast
  also have "\<dots> \<longleftrightarrow> nonempty \<and> q < c \<and> (\<forall>r \<in> set rs. ir_start_offset_inclusive r < ir_end_offset_exclusive r)
      \<and> sorted_wrt (<) (map range_id rs) \<and> (\<forall>r \<in> set rs. c < range_id r)"
    using Cons.IH [of c "c # seen"] max by auto
  also have "\<dots> \<longleftrightarrow> (\<forall>r \<in> set (r # rs). ir_start_offset_inclusive r < ir_end_offset_exclusive r)
      \<and> sorted_wrt (<) (map range_id (r # rs)) \<and> (\<forall>r \<in> set (r # rs). q < range_id r)"
    unfolding nonempty_def c_def by (auto intro: less_trans)
  finally show ?case .
qed simp

lemma check_ranges_iff: "check_ranges None [] rs = Inr u \<longleftrightarrow>
    (\<forall>r \<in> set rs. ir_start_offset_inclusive r < ir_end_offset_exclusive r) \<and> sorted_wrt (<) (map range_id rs)"
proof (cases rs)
  case (Cons r rest)
  have "check_ranges None [] (r # rest) = Inr u \<longleftrightarrow> ir_start_offset_inclusive r < ir_end_offset_exclusive r
      \<and> check_ranges (Some (range_id r)) [range_id r] rest = Inr u"
    by (auto simp: Let_def range_id_def)
  then show ?thesis using Cons check_ranges_seen [of "range_id r" "[range_id r]" rest] by auto
qed simp

lemma check_unique_iff:
  "check_unique ids keys refs = Inr u \<longleftrightarrow> distinct (map fst refs) \<and> distinct (map snd refs)
     \<and> set ids \<inter> fst ` set refs = {} \<and> set keys \<inter> snd ` set refs = {}"
  by (induction ids keys refs rule: check_unique.induct) auto

lemma check_state_object_iff:
  "check_state_object v ref = Inr u \<longleftrightarrow> sr_checkpoint_version ref = v
     \<and> state_object (sr_owner ref) (sr_partition_id ref) v (sr_object_id ref) = Inr (sr_object_key ref)"
  by (auto simp: check_state_object_def res_simps split: if_splits)

lemma check_output_object_iff:
  "check_output_object v ref = Inr u \<longleftrightarrow> or_checkpoint_version ref = v
     \<and> or_start_offset_inclusive ref < or_end_offset_exclusive ref
     \<and> output_object (or_stream_id ref) (or_partition_id ref) v (or_start_offset_inclusive ref)
         (or_end_offset_exclusive ref) (or_object_id ref) = Inr (or_object_key ref)"
  by (auto simp: check_output_object_def res_simps split: if_splits)

lemma validate_parent_iff:
  "validate_parent_checkpoint m = Inr u \<longleftrightarrow>
     cm_parent_checkpoint m = (if cm_checkpoint_version m = 0 then None else Some (cm_checkpoint_version m - 1))"
  by (auto simp: validate_parent_checkpoint_def split: option.splits nat.splits)

definition manifest_ok :: "checkpoint_manifest \<Rightarrow> bool" where
  "manifest_ok m \<longleftrightarrow> cm_schema_version m = 1 \<and> cm_created_at m \<noteq> []
     \<and> cm_parent_checkpoint m = (if cm_checkpoint_version m = 0 then None else Some (cm_checkpoint_version m - 1))
     \<and> cm_input_ranges m \<noteq> [] \<and> cm_state_objects m \<noteq> []
     \<and> (\<forall>r \<in> set (cm_input_ranges m). ir_start_offset_inclusive r < ir_end_offset_exclusive r)
     \<and> sorted_wrt (<) (map range_id (cm_input_ranges m))
     \<and> (\<forall>ref \<in> set (cm_state_objects m). sr_checkpoint_version ref = cm_checkpoint_version m
          \<and> state_object (sr_owner ref) (sr_partition_id ref) (cm_checkpoint_version m) (sr_object_id ref) = Inr (sr_object_key ref))
     \<and> (\<forall>ref \<in> set (cm_output_objects m). or_checkpoint_version ref = cm_checkpoint_version m
          \<and> output_object (or_stream_id ref) (or_partition_id ref) (cm_checkpoint_version m)
              (or_start_offset_inclusive ref) (or_end_offset_exclusive ref) (or_object_id ref) = Inr (or_object_key ref))
     \<and> distinct (map fst (object_refs m))"

text \<open>An accepted object key ends in the id of the object, so different ids have different keys.\<close>

lemma output_object_iff:
  "output_object s p c a b i = Inr k \<longleftrightarrow> segment_ok s \<and> segment_ok i \<and> a < b
     \<and> ObjectKey (path [''v1'', ''outputs'', s, partition_text p, checkpoint_text c, range_text a b, i @ ''.output'']) = k"
  by (simp add: output_object_def res_simps key_iffs)

lemma state_path_id: "state_object s p c i = Inr k \<Longrightarrow> split_char CHR ''/'' (as_str k) =
    [''v1'', ''state'', s, partition_text p, checkpoint_text c, i @ ''.state'']"
  unfolding state_object_iff by (elim conjE, hypsubst, unfold object_key.sel, rule split_path) (simp_all add: piece_append)

lemma output_path_id: "output_object s p c a b i = Inr k \<Longrightarrow> split_char CHR ''/'' (as_str k) =
    [''v1'', ''outputs'', s, partition_text p, checkpoint_text c, range_text a b, i @ ''.output'']"
  unfolding output_object_iff by (elim conjE, hypsubst, unfold object_key.sel, rule split_path) (simp_all add: piece_append)

lemma object_keys_distinct:
  assumes states: "\<forall>ref \<in> set (cm_state_objects m).
        state_object (sr_owner ref) (sr_partition_id ref) (cm_checkpoint_version m) (sr_object_id ref) = Inr (sr_object_key ref)"
    and outputs: "\<forall>ref \<in> set (cm_output_objects m).
        output_object (or_stream_id ref) (or_partition_id ref) (cm_checkpoint_version m)
          (or_start_offset_inclusive ref) (or_end_offset_exclusive ref) (or_object_id ref) = Inr (or_object_key ref)"
    and ids: "distinct (map fst (object_refs m))"
  shows "distinct (map snd (object_refs m))"
proof -
  define ref_id where "ref_id k = (let parts = split_char CHR ''/'' (as_str k); name = last parts in
      take (length name - (if parts ! 1 = ''state'' then 6 else 7)) name)" for k
  have "ref_id k = i" if "(i, k) \<in> set (object_refs m)" for i k
  proof -
    have state: "ref_id k = i" if "state_object s p c i = Inr k" for s p c
      using state_path_id [OF that] by (simp add: ref_id_def)
    have out: "ref_id k = i" if "output_object s p c a b i = Inr k" for s p c a b
      using output_path_id [OF that] by (simp add: ref_id_def)
    from that consider ref where "ref \<in> set (cm_state_objects m)" "i = sr_object_id ref" "k = sr_object_key ref"
      | ref where "ref \<in> set (cm_output_objects m)" "i = or_object_id ref" "k = or_object_key ref"
      by (auto simp: object_refs_def)
    then show ?thesis using states outputs by cases (metis state, metis out)
  qed
  then have "map fst (object_refs m) = map ref_id (map snd (object_refs m))" by auto
  with ids show ?thesis by (auto simp: distinct_map dest: inj_on_imageI2)
qed

lemma manifest_validate_iff: "manifest_validate m = Inr u \<longleftrightarrow> manifest_ok m"
proof -
  have unique: "check_unique [] [] (object_refs m) = Inr v \<longleftrightarrow>
      distinct (map fst (object_refs m)) \<and> distinct (map snd (object_refs m))" for v
    by (simp add: check_unique_iff)
  show ?thesis using object_keys_distinct [of m]
    by (auto simp: manifest_validate_def manifest_ok_def res_simps validate_parent_iff validate_input_ranges_def
      validate_state_objects_def validate_output_objects_def validate_unique_object_refs_def rfold_check
      check_state_object_iff check_output_object_iff check_ranges_iff unique output_object_iff split: if_splits)
qed

end
