(* ===== verification/Capability.thy ===== *)
theory Capability
  imports Velorix_Prelude
begin

text \<open>
  What a deployment knows about its object stores (\<open>velorix-storage/src/capability.rs\<close>): a profile of
  capabilities for each authoritative namespace and the checks that the durable components run at startup.
  The probe that measures a profile against a live store is not modelled.
\<close>

section \<open>Definitions\<close>

record object_store_capability_profile =
  cf_backend_name :: string
  cf_conditional_create :: bool
  cf_conditional_update :: bool
  cf_atomic_visibility :: bool
  cf_list_after_write :: bool
  cf_read_after_write :: bool

datatype authoritative_namespace =
    NsIngest | NsIngestAdmission | NsIngestAdmissionIndex | NsState | NsOutput | NsCheckpoint | NsCheckpointIndex
  | NsCheckpointLifecycle | NsCheckpointRetention | NsCheckpointGcTransition | NsCheckpointRecovery | NsOwnership
  | NsTableCatalog | NsRelationCatalog | NsArtifactCatalog | NsBenchmarkEvidence | NsGcRuns | NsQueries | NsQueryPolicy

datatype required_object_store_capability =
    ConditionalCreate | ConditionalUpdate | AtomicVisibility | ListAfterWrite | ReadAfterWrite

text \<open>The \<open>BTreeMap\<close> of profiles is only looked up.\<close>

type_synonym authoritative_capabilities = "(authoritative_namespace \<times> object_store_capability_profile) list"

record capability_diagnostic =
  cd_namespace :: authoritative_namespace
  cd_backend_name :: "string option"
  cd_missing_capabilities :: "required_object_store_capability list"

record capability_probe_report =
  pr_backend_name :: string
  pr_probe_key :: string
  pr_conditional_create :: bool
  pr_conditional_update :: bool
  pr_atomic_visibility :: bool
  pr_list_after_write :: bool
  pr_read_after_write :: bool

datatype capability_error = CapabilityError (error_backend_name: string) (error_required_capability: required_object_store_capability)

datatype authoritative_capability_error =
    MissingNamespace authoritative_namespace
  | NamespaceProfile authoritative_namespace capability_error

definition all_namespaces :: "authoritative_namespace list" where
  "all_namespaces =
     [NsIngest, NsIngestAdmission, NsIngestAdmissionIndex, NsState, NsOutput, NsCheckpoint, NsCheckpointIndex,
      NsCheckpointLifecycle, NsCheckpointRetention, NsCheckpointGcTransition, NsCheckpointRecovery, NsOwnership,
      NsTableCatalog, NsRelationCatalog, NsArtifactCatalog, NsBenchmarkEvidence, NsGcRuns, NsQueries, NsQueryPolicy]"

definition velorix_durability :: "required_object_store_capability list" where
  "velorix_durability = [ConditionalCreate, AtomicVisibility, ListAfterWrite, ReadAfterWrite]"

definition local_development :: object_store_capability_profile where
  "local_development =
     \<lparr>cf_backend_name = ''local-development'', cf_conditional_create = True, cf_conditional_update = True,
      cf_atomic_visibility = True, cf_list_after_write = True, cf_read_after_write = True\<rparr>"

definition profile_has :: "object_store_capability_profile \<Rightarrow> required_object_store_capability \<Rightarrow> bool" where
  "profile_has self required_capability =
     (case required_capability of
        ConditionalCreate \<Rightarrow> cf_conditional_create self
      | ConditionalUpdate \<Rightarrow> cf_conditional_update self
      | AtomicVisibility \<Rightarrow> cf_atomic_visibility self
      | ListAfterWrite \<Rightarrow> cf_list_after_write self
      | ReadAfterWrite \<Rightarrow> cf_read_after_write self)"

definition validate_for_velorix_durability :: "object_store_capability_profile \<Rightarrow> (capability_error, unit) result" where
  "validate_for_velorix_durability self =
     rfold (\<lambda>required_capability _.
       if \<not> profile_has self required_capability then Inl (CapabilityError (cf_backend_name self) required_capability)
       else Inr ()) velorix_durability ()"

definition validate_for_conditional_update :: "object_store_capability_profile \<Rightarrow> (capability_error, unit) result" where
  "validate_for_conditional_update self =
     (if \<not> cf_conditional_update self then Inl (CapabilityError (cf_backend_name self) ConditionalUpdate) else Inr ())"

definition missing_capabilities :: "object_store_capability_profile \<Rightarrow> required_object_store_capability list" where
  "missing_capabilities self = filter (\<lambda>capability. \<not> profile_has self capability) velorix_durability"

definition production_profile :: "string \<Rightarrow> bool \<Rightarrow> bool \<Rightarrow> bool \<Rightarrow> bool \<Rightarrow> bool \<Rightarrow>
    (capability_error, object_store_capability_profile) result" where
  "production_profile backend_name create update visibility list_write read_write =
     (let profile =
        \<lparr>cf_backend_name = backend_name, cf_conditional_create = create, cf_conditional_update = update,
         cf_atomic_visibility = visibility, cf_list_after_write = list_write, cf_read_after_write = read_write\<rparr>
      in rbind (validate_for_velorix_durability profile) (\<lambda>_. Inr profile))"

definition observed_profile :: "capability_probe_report \<Rightarrow> object_store_capability_profile" where
  "observed_profile self =
     \<lparr>cf_backend_name = pr_backend_name self, cf_conditional_create = pr_conditional_create self,
      cf_conditional_update = pr_conditional_update self, cf_atomic_visibility = pr_atomic_visibility self,
      cf_list_after_write = pr_list_after_write self, cf_read_after_write = pr_read_after_write self\<rparr>"

definition validate_namespace :: "authoritative_capabilities \<Rightarrow> authoritative_namespace \<Rightarrow>
    (authoritative_capability_error, object_store_capability_profile) result" where
  "validate_namespace self ns =
     rbind (ok_or (MissingNamespace ns) (map_of self ns)) (\<lambda>profile.
     rbind (rmap_err (NamespaceProfile ns) (validate_for_velorix_durability profile)) (\<lambda>_. Inr profile))"

definition validate_for_startup :: "authoritative_capabilities \<Rightarrow> (authoritative_capability_error, unit) result" where
  "validate_for_startup self = rfold (\<lambda>ns _. rbind (validate_namespace self ns) (\<lambda>_. Inr ())) all_namespaces ()"

definition diagnostics :: "authoritative_capabilities \<Rightarrow> capability_diagnostic list" where
  "diagnostics self =
     map (\<lambda>ns. case map_of self ns of
         Some profile \<Rightarrow> \<lparr>cd_namespace = ns, cd_backend_name = Some (cf_backend_name profile),
                          cd_missing_capabilities = missing_capabilities profile\<rparr>
       | None \<Rightarrow> \<lparr>cd_namespace = ns, cd_backend_name = None, cd_missing_capabilities = velorix_durability\<rparr>) all_namespaces"

section \<open>Laws\<close>

lemma all_namespaces_complete: "ns \<in> set all_namespaces"
  by (cases ns) (simp_all add: all_namespaces_def)

lemma durability_iff: "validate_for_velorix_durability p = Inr u \<longleftrightarrow> missing_capabilities p = []"
  by (auto simp: validate_for_velorix_durability_def missing_capabilities_def velorix_durability_def res_simps)

lemma validate_namespace_iff:
  "validate_namespace caps ns = Inr p \<longleftrightarrow> map_of caps ns = Some p \<and> missing_capabilities p = []"
  by (auto simp: validate_namespace_def res_simps durability_iff)

lemma validate_namespaces_iff:
  "rfold (\<lambda>ns _. rbind (validate_namespace caps ns) (\<lambda>_. Inr ())) nss () = Inr u \<longleftrightarrow>
     (\<forall>ns \<in> set nss. \<exists>p. map_of caps ns = Some p \<and> missing_capabilities p = [])"
  by (induction nss) (auto simp: res_simps validate_namespace_iff)

text \<open>
  Startup validation succeeds exactly when the diagnostics report no missing capability for any
  authoritative namespace, and then every namespace has a profile with conditional create, atomic
  visibility, list-after-write and read-after-write.
\<close>

theorem startup_matches_diagnostics:
  "(validate_for_startup caps = Inr () \<longleftrightarrow> list_all (\<lambda>d. cd_missing_capabilities d = []) (diagnostics caps))
   \<and> (validate_for_startup caps = Inr () \<longleftrightarrow> (\<forall>ns. case map_of caps ns of
        None \<Rightarrow> False
      | Some p \<Rightarrow> cf_conditional_create p \<and> cf_atomic_visibility p \<and> cf_list_after_write p \<and> cf_read_after_write p))"
proof -
  have missing: "missing_capabilities p = [] \<longleftrightarrow>
      cf_conditional_create p \<and> cf_atomic_visibility p \<and> cf_list_after_write p \<and> cf_read_after_write p" for p
    by (auto simp: missing_capabilities_def velorix_durability_def profile_has_def)
  have "(cd_missing_capabilities (case map_of caps ns of
         Some profile \<Rightarrow> \<lparr>cd_namespace = ns, cd_backend_name = Some (cf_backend_name profile),
                          cd_missing_capabilities = missing_capabilities profile\<rparr>
       | None \<Rightarrow> \<lparr>cd_namespace = ns, cd_backend_name = None, cd_missing_capabilities = velorix_durability\<rparr>) = [])
     \<longleftrightarrow> (\<exists>p. map_of caps ns = Some p \<and> missing_capabilities p = [])" for ns
    by (cases "map_of caps ns") (simp_all add: velorix_durability_def)
  then show ?thesis
    by (auto simp: validate_for_startup_def validate_namespaces_iff diagnostics_def list_all_iff missing all_namespaces_complete
      split: option.splits) (metis all_namespaces_complete option.inject)+
qed

end
