(* ===== verification/Checkpoint_Publisher.thy ===== *)
theory Checkpoint_Publisher
  imports Object_Store Manifest Ownership Capability
begin

text \<open>
  The checkpoint publisher (\<open>velorix-storage/src/state.rs\<close>, with the raw state store of
  \<open>state_store.rs\<close> and the markers of \<open>checkpoint_index.rs\<close>): writing of state and output objects,
  publication of manifests with and without fencing, ownership epoch records, and the reads of the
  published lineage. \<open>serde_json\<close>, SHA-256 and the clock are fields of the publisher. This theory holds the
  definitions.
\<close>

section \<open>Data\<close>

record 'b state_object_write =
  sw_owner :: string
  sw_partition_id :: nat
  sw_checkpoint_version :: nat
  sw_object_id :: string
  sw_bytes :: 'b
  sw_object_key :: object_key
  sw_owner_claim :: "partition_owner_claim option"

record 'b output_object_write =
  ow_write_stream_id :: string
  ow_write_partition_id :: nat
  ow_write_checkpoint_version :: nat
  ow_write_start_offset_inclusive :: nat
  ow_write_end_offset_exclusive :: nat
  ow_write_object_id :: string
  ow_write_bytes :: 'b
  ow_write_object_key :: object_key
  ow_write_owner_claim :: "partition_owner_claim option"

record 'b fenced_output_object_write_request =
  fr_stream_id :: string
  fr_partition_id :: nat
  fr_checkpoint_version :: nat
  fr_start_offset_inclusive :: nat
  fr_end_offset_exclusive :: nat
  fr_object_id :: string
  fr_owner_claim :: partition_owner_claim
  fr_bytes :: 'b

record latest_candidate_marker =
  lm_schema_version :: nat
  lm_checkpoint_version :: nat
  lm_manifest_key :: object_key
  lm_manifest_digest :: string
  lm_validated_parent_checkpoint :: "nat option"
  lm_updated_at :: string

datatype checkpoint_lifecycle_status = Published

record lifecycle_record =
  lr_schema_version :: nat
  lr_checkpoint_version :: nat
  lr_manifest_key :: object_key
  lr_manifest_digest :: string
  lr_status :: checkpoint_lifecycle_status
  lr_status_updated_at :: string

record garbage_collection_policy =
  gp_retain_latest_manifests :: nat

datatype garbage_collection_candidate_kind = RawStateObject | OutputObject

record garbage_collection_candidate =
  gc_object_key :: object_key
  gc_kind :: garbage_collection_candidate_kind

record garbage_collection_plan =
  gl_retained_manifest_versions :: "nat list"
  gl_candidates :: "garbage_collection_candidate list"

record garbage_collection_report =
  gr_deleted :: "garbage_collection_candidate list"
  gr_skipped :: "garbage_collection_candidate list"

text \<open>The error of the publisher. Some of its cases are raised only by operations that are not modelled.\<close>

datatype checkpoint_publish_error =
    GarbageCollectionCoordinationRequired
  | PublishObjectKey object_key_error
  | PublishManifest manifest_error
  | PublishOwnershipEpochRecord ownership_epoch_record_error
  | PublishCapability capability_error
  | PublishCapabilities authoritative_capability_error
  | StateObjectAlreadyExists object_key
  | OutputObjectAlreadyExists object_key
  | ManifestAlreadyExists object_key
  | CheckpointRecoveryTransitionAlreadyExists object_key
  | CheckpointGcTransitionConflict object_key
  | GarbageCollectionRunAlreadyExists object_key
  | GarbageCollectionPlanPolicyMismatch nat "nat list" "nat list" "object_key list" "object_key list"
  | InvalidGarbageCollectionRunEvidence object_key string
  | InvalidGarbageCollectionPolicy
  | MissingGarbageCollectionRetainedManifest nat
  | GarbageCollectionCandidateStillReferenced object_key nat
  | MissingOwnershipEpochRecord object_key
  | OwnershipEpochRecordConflict object_key
  | ManifestKeyMismatch object_key object_key
  | MissingParentManifest nat nat
  | DroppedParentInputProgress nat nat string nat
  | RegressedParentInputBoundary nat nat string nat nat nat nat nat
  | MissingStateObject object_key
  | MissingOutputObject object_key
  | StateOwnerClaimMismatch object_key partition_owner_claim "partition_owner_claim option"
  | OutputOwnerClaimMismatch object_key partition_owner_claim "partition_owner_claim option"
  | StaleOwnerClaim nat partition_owner_claim partition_owner_claim
  | FencedManifestPartitionNotClaimed string nat partition_owner_claim
  | PublishJson string
  | PublishStore store_error

text \<open>
  The publisher: its object store, which is also its state store, with the functions of \<open>serde_json\<close>,
  SHA-256 of a label followed by bytes, in hexadecimal, and the clock that it uses.
\<close>

record ('s, 'b) checkpoint_publisher =
  cp_store :: "('s, 'b) object_store"
  cp_manifest_to_vec :: "checkpoint_manifest \<Rightarrow> (string, 'b) result"
  cp_manifest_from_slice :: "'b \<Rightarrow> (string, checkpoint_manifest) result"
  cp_record_to_vec :: "ownership_epoch_record \<Rightarrow> (string, 'b) result"
  cp_record_from_slice :: "'b \<Rightarrow> (string, ownership_epoch_record) result"
  cp_marker_to_vec :: "latest_candidate_marker \<Rightarrow> (string, 'b) result"
  cp_marker_from_slice :: "'b \<Rightarrow> (string, latest_candidate_marker) result"
  cp_lifecycle_to_vec :: "lifecycle_record \<Rightarrow> (string, 'b) result"
  cp_lifecycle_from_slice :: "'b \<Rightarrow> (string, lifecycle_record) result"
  cp_sha256 :: "string \<Rightarrow> 'b \<Rightarrow> string"
  cp_now :: "'s \<Rightarrow> string"

type_synonym ('s, 'a) publication = "('s, checkpoint_publish_error, 'a) action"

abbreviation (input) of_store :: "('s, store_error, 'a) action \<Rightarrow> ('s, 'a) publication" where
  "of_store m \<equiv> map_err PublishStore m"

abbreviation (input) of_json :: "(string, 'a) result \<Rightarrow> ('s, 'a) publication" where
  "of_json r \<equiv> lift (rmap_err PublishJson r)"

abbreviation (input) of_key :: "(object_key_error, 'a) result \<Rightarrow> ('s, 'a) publication" where
  "of_key r \<equiv> lift (rmap_err PublishObjectKey r)"

abbreviation (input) of_manifest :: "(manifest_error, 'a) result \<Rightarrow> ('s, 'a) publication" where
  "of_manifest r \<equiv> lift (rmap_err PublishManifest r)"

abbreviation (input) of_record :: "(ownership_epoch_record_error, 'a) result \<Rightarrow> ('s, 'a) publication" where
  "of_record r \<equiv> lift (rmap_err PublishOwnershipEpochRecord r)"

abbreviation (input) invalid_external :: "string \<Rightarrow> checkpoint_publish_error" where
  "invalid_external message \<equiv> PublishObjectKey (InvalidExternalKey message)"

text \<open>The checked constructors return the publisher when the store, or every namespace that it writes, is durable.\<close>

definition publisher_new_checked :: "('s, 'b) checkpoint_publisher \<Rightarrow> object_store_capability_profile \<Rightarrow>
    (capability_error, ('s, 'b) checkpoint_publisher) result" where
  "publisher_new_checked publisher profile =
     rbind (validate_for_velorix_durability profile) (\<lambda>_. Inr publisher)"

definition validate_checkpoint_publisher_authoritative_namespaces :: "authoritative_capabilities \<Rightarrow>
    (authoritative_capability_error, unit) result" where
  "validate_checkpoint_publisher_authoritative_namespaces capabilities =
     rfold (\<lambda>ns _. rbind (validate_namespace capabilities ns) (\<lambda>_. Inr ()))
       [NsCheckpoint, NsState, NsCheckpointIndex, NsCheckpointLifecycle, NsCheckpointRetention, NsCheckpointGcTransition,
        NsCheckpointRecovery, NsGcRuns] ()"

definition publisher_new_authoritative :: "('s, 'b) checkpoint_publisher \<Rightarrow> authoritative_capabilities \<Rightarrow>
    (checkpoint_publish_error, ('s, 'b) checkpoint_publisher) result" where
  "publisher_new_authoritative publisher capabilities =
     rbind (rmap_err PublishCapabilities (validate_checkpoint_publisher_authoritative_namespaces capabilities)) (\<lambda>_.
       Inr publisher)"

section \<open>Writes of state and output objects\<close>

definition state_write_new :: "string \<Rightarrow> nat \<Rightarrow> nat \<Rightarrow> string \<Rightarrow> 'b \<Rightarrow> (checkpoint_publish_error, 'b state_object_write) result" where
  "state_write_new owner partition_id checkpoint_version object_id bytes =
     rbind (rmap_err PublishObjectKey (state_object owner partition_id checkpoint_version object_id)) (\<lambda>object_key.
       Inr \<lparr>sw_owner = owner, sw_partition_id = partition_id, sw_checkpoint_version = checkpoint_version,
             sw_object_id = object_id, sw_bytes = bytes, sw_object_key = object_key, sw_owner_claim = None\<rparr>)"

definition state_write_new_fenced :: "string \<Rightarrow> nat \<Rightarrow> nat \<Rightarrow> string \<Rightarrow> partition_owner_claim \<Rightarrow> 'b \<Rightarrow>
    (checkpoint_publish_error, 'b state_object_write) result" where
  "state_write_new_fenced owner partition_id checkpoint_version object_id owner_claim bytes =
     rbind (state_write_new owner partition_id checkpoint_version object_id bytes) (\<lambda>state.
       Inr (state\<lparr>sw_owner_claim := Some owner_claim\<rparr>))"

definition sw_object_ref :: "'b state_object_write \<Rightarrow> state_object_ref" where
  "sw_object_ref self =
     \<lparr>sr_object_id = sw_object_id self, sr_object_key = sw_object_key self, sr_owner = sw_owner self,
      sr_partition_id = sw_partition_id self, sr_checkpoint_version = sw_checkpoint_version self,
      sr_owner_claim = sw_owner_claim self\<rparr>"

definition output_write_new :: "string \<Rightarrow> nat \<Rightarrow> nat \<Rightarrow> nat \<Rightarrow> nat \<Rightarrow> string \<Rightarrow> 'b \<Rightarrow>
    (checkpoint_publish_error, 'b output_object_write) result" where
  "output_write_new stream_id partition_id checkpoint_version start_offset end_offset object_id bytes =
     rbind (rmap_err PublishObjectKey
         (output_object stream_id partition_id checkpoint_version start_offset end_offset object_id)) (\<lambda>object_key.
       Inr \<lparr>ow_write_stream_id = stream_id, ow_write_partition_id = partition_id,
             ow_write_checkpoint_version = checkpoint_version, ow_write_start_offset_inclusive = start_offset,
             ow_write_end_offset_exclusive = end_offset, ow_write_object_id = object_id, ow_write_bytes = bytes,
             ow_write_object_key = object_key, ow_write_owner_claim = None\<rparr>)"

definition output_write_new_fenced :: "'b fenced_output_object_write_request \<Rightarrow>
    (checkpoint_publish_error, 'b output_object_write) result" where
  "output_write_new_fenced request =
     rbind (output_write_new (fr_stream_id request) (fr_partition_id request) (fr_checkpoint_version request)
         (fr_start_offset_inclusive request) (fr_end_offset_exclusive request) (fr_object_id request) (fr_bytes request))
       (\<lambda>out. Inr (out\<lparr>ow_write_owner_claim := Some (fr_owner_claim request)\<rparr>))"

definition ow_object_ref :: "'b output_object_write \<Rightarrow> output_object_ref" where
  "ow_object_ref self =
     \<lparr>or_object_id = ow_write_object_id self, or_object_key = ow_write_object_key self,
      or_stream_id = ow_write_stream_id self, or_partition_id = ow_write_partition_id self,
      or_checkpoint_version = ow_write_checkpoint_version self,
      or_start_offset_inclusive = ow_write_start_offset_inclusive self,
      or_end_offset_exclusive = ow_write_end_offset_exclusive self, or_owner_claim = ow_write_owner_claim self\<rparr>"

text \<open>\<open>RawObjectStateStore\<close>, the state store of \<open>CheckpointPublisher::new\<close>.\<close>

definition write_state_object :: "('s, 'b) checkpoint_publisher \<Rightarrow> 'b state_object_write \<Rightarrow> ('s, state_object_ref) publication" where
  "write_state_object self state =
     on_result (os_create (cp_store self) (as_str (sw_object_key state)) (sw_bytes state)) (\<lambda>result. lift
       (case result of
          Inr _ \<Rightarrow> Inr (sw_object_ref state)
        | Inl err \<Rightarrow> Inl (if err = AlreadyExists then StateObjectAlreadyExists (sw_object_key state) else PublishStore err)))"

definition read_state_object :: "('s, 'b) checkpoint_publisher \<Rightarrow> state_object_ref \<Rightarrow> ('s, 'b) publication" where
  "read_state_object self state_ref = of_store (os_get (cp_store self) (as_str (sr_object_key state_ref)))"

definition state_object_exists :: "('s, 'b) checkpoint_publisher \<Rightarrow> state_object_ref \<Rightarrow> ('s, bool) publication" where
  "state_object_exists self state_ref =
     on_result (os_head (cp_store self) (as_str (sr_object_key state_ref))) (\<lambda>result. lift
       (case result of
          Inr _ \<Rightarrow> Inr True
        | Inl err \<Rightarrow> if err = NotFound then Inr False else Inl (PublishStore err)))"

definition release_state_object :: "('s, 'b) checkpoint_publisher \<Rightarrow> state_object_ref \<Rightarrow> ('s, bool) publication" where
  "release_state_object self state_ref =
     on_result (os_delete (cp_store self) (as_str (sr_object_key state_ref))) (\<lambda>result. lift
       (case result of
          Inr _ \<Rightarrow> Inr True
        | Inl err \<Rightarrow> if err = NotFound then Inr False else Inl (PublishStore err)))"

definition write_output_object :: "('s, 'b) checkpoint_publisher \<Rightarrow> 'b output_object_write \<Rightarrow> ('s, output_object_ref) publication" where
  "write_output_object self out =
     on_result (os_create (cp_store self) (as_str (ow_write_object_key out)) (ow_write_bytes out)) (\<lambda>result. lift
       (case result of
          Inr _ \<Rightarrow> Inr (ow_object_ref out)
        | Inl err \<Rightarrow> Inl (if err = AlreadyExists then OutputObjectAlreadyExists (ow_write_object_key out) else PublishStore err)))"

section \<open>Markers\<close>

definition manifest_digest :: "('s, 'b) checkpoint_publisher \<Rightarrow> 'b \<Rightarrow> string" where
  "manifest_digest self manifest_bytes =
     ''sha256:'' @ cp_sha256 self (''velorix.checkpoint-manifest.v1'' @ [CHR 0x00]) manifest_bytes"

definition marker_for_manifest :: "('s, 'b) checkpoint_publisher \<Rightarrow> checkpoint_manifest \<Rightarrow> 'b \<Rightarrow> string \<Rightarrow> latest_candidate_marker" where
  "marker_for_manifest self manifest manifest_bytes updated_at =
     \<lparr>lm_schema_version = 1, lm_checkpoint_version = cm_checkpoint_version manifest,
      lm_manifest_key = manifest_object_key manifest, lm_manifest_digest = manifest_digest self manifest_bytes,
      lm_validated_parent_checkpoint = cm_parent_checkpoint manifest, lm_updated_at = updated_at\<rparr>"

definition marker_validate_schema :: "latest_candidate_marker \<Rightarrow> bool" where
  "marker_validate_schema self \<longleftrightarrow> lm_schema_version self = 1"

definition lifecycle_published :: "('s, 'b) checkpoint_publisher \<Rightarrow> checkpoint_manifest \<Rightarrow> 'b \<Rightarrow> string \<Rightarrow> lifecycle_record" where
  "lifecycle_published self manifest manifest_bytes status_updated_at =
     \<lparr>lr_schema_version = 1, lr_checkpoint_version = cm_checkpoint_version manifest,
      lr_manifest_key = manifest_object_key manifest, lr_manifest_digest = manifest_digest self manifest_bytes,
      lr_status = Published, lr_status_updated_at = status_updated_at\<rparr>"

definition lifecycle_validate_schema :: "lifecycle_record \<Rightarrow> bool" where
  "lifecycle_validate_schema self \<longleftrightarrow> lr_schema_version self = 1"

definition best_effort_publish_latest_candidate_marker :: "('s, 'b) checkpoint_publisher \<Rightarrow> checkpoint_manifest \<Rightarrow> 'b \<Rightarrow>
    ('s, unit) publication" where
  "best_effort_publish_latest_candidate_marker self manifest manifest_bytes =
     bind (observe (cp_now self)) (\<lambda>now.
     let marker = marker_for_manifest self manifest manifest_bytes now;
         marker_path = as_str checkpoint_latest_candidate_marker
     in on_result (os_get (cp_store self) marker_path) (\<lambda>response.
          if (case rbind (rmap_err (\<lambda>_. []) response) (cp_marker_from_slice self) of
                Inr existing \<Rightarrow> lm_checkpoint_version existing \<ge> lm_checkpoint_version marker
              | Inl _ \<Rightarrow> False)
          then lift (Inr ())
          else case cp_marker_to_vec self marker of
              Inl _ \<Rightarrow> lift (Inr ())
            | Inr bytes \<Rightarrow> on_result (os_put (cp_store self) marker_path bytes) (\<lambda>_. lift (Inr ()))))"

definition best_effort_publish_lifecycle_record :: "('s, 'b) checkpoint_publisher \<Rightarrow> checkpoint_manifest \<Rightarrow> 'b \<Rightarrow>
    ('s, unit) publication" where
  "best_effort_publish_lifecycle_record self manifest manifest_bytes =
     bind (observe (cp_now self)) (\<lambda>now.
       case cp_lifecycle_to_vec self (lifecycle_published self manifest manifest_bytes now) of
         Inl _ \<Rightarrow> lift (Inr ())
       | Inr bytes \<Rightarrow>
           on_result (os_create (cp_store self) (as_str (checkpoint_lifecycle_record (cm_checkpoint_version manifest))) bytes)
             (\<lambda>_. lift (Inr ())))"

definition read_latest_candidate_marker :: "('s, 'b) checkpoint_publisher \<Rightarrow> ('s, latest_candidate_marker option) publication" where
  "read_latest_candidate_marker self =
     on_result (os_get (cp_store self) (as_str checkpoint_latest_candidate_marker)) (\<lambda>response. lift
       (Inr (case rbind (rmap_err (\<lambda>_. []) response) (cp_marker_from_slice self) of
               Inr marker \<Rightarrow> Some marker
             | Inl _ \<Rightarrow> None)))"

section \<open>The lineage of manifests\<close>

text \<open>A \<open>HashMap\<close> collected from pairs: the last pair of a key wins.\<close>

definition hash_map :: "('k \<times> 'v) list \<Rightarrow> 'k \<Rightarrow> 'v option" where
  "hash_map entries = map_of (rev entries)"

definition check_parent_range :: "checkpoint_manifest \<Rightarrow> nat \<Rightarrow> input_range \<Rightarrow> (checkpoint_publish_error, unit) result" where
  "check_parent_range child parent_checkpoint parent_range =
     (case hash_map (map (\<lambda>r. ((ir_stream_id r, ir_partition_id r), r)) (cm_input_ranges child))
         (ir_stream_id parent_range, ir_partition_id parent_range) of
        None \<Rightarrow> Inl (DroppedParentInputProgress (cm_checkpoint_version child) parent_checkpoint
                 (ir_stream_id parent_range) (ir_partition_id parent_range))
      | Some child_range \<Rightarrow>
          if ir_start_offset_inclusive child_range > ir_start_offset_inclusive parent_range
            \<or> ir_end_offset_exclusive child_range < ir_end_offset_exclusive parent_range
          then Inl (RegressedParentInputBoundary (cm_checkpoint_version child) parent_checkpoint
                 (ir_stream_id parent_range) (ir_partition_id parent_range)
                 (ir_start_offset_inclusive parent_range) (ir_end_offset_exclusive parent_range)
                 (ir_start_offset_inclusive child_range) (ir_end_offset_exclusive child_range))
          else Inr ())"

definition validate_child_input_progress :: "checkpoint_manifest \<Rightarrow> checkpoint_manifest \<Rightarrow> (checkpoint_publish_error, unit) result" where
  "validate_child_input_progress child parent =
     rfold (\<lambda>parent_range _. check_parent_range child (cm_checkpoint_version parent) parent_range) (cm_input_ranges parent) ()"

definition validate_manifest_lineage :: "checkpoint_manifest list \<Rightarrow> (checkpoint_publish_error, unit) result" where
  "validate_manifest_lineage manifests =
     rfold (\<lambda>manifest _.
       case cm_parent_checkpoint manifest of
         None \<Rightarrow> Inr ()
       | Some parent_checkpoint \<Rightarrow>
           (case hash_map (map (\<lambda>m. (cm_checkpoint_version m, m)) manifests) parent_checkpoint of
              None \<Rightarrow> Inl (MissingParentManifest (cm_checkpoint_version manifest) parent_checkpoint)
            | Some parent \<Rightarrow> validate_child_input_progress manifest parent)) manifests ()"

text \<open>The manifest in the bytes of an object, validated against the key of the object.\<close>

definition check_manifest_bytes :: "('s, 'b) checkpoint_publisher \<Rightarrow> object_key \<Rightarrow> 'b \<Rightarrow> (checkpoint_publish_error, checkpoint_manifest) result" where
  "check_manifest_bytes self object_key bytes =
     rbind (rmap_err PublishJson (cp_manifest_from_slice self bytes)) (\<lambda>manifest.
     rbind (rmap_err PublishManifest (manifest_validate manifest)) (\<lambda>_.
       if object_key \<noteq> manifest_object_key manifest
       then Inl (ManifestKeyMismatch object_key (manifest_object_key manifest))
       else Inr manifest))"

definition read_parent_manifest :: "('s, 'b) checkpoint_publisher \<Rightarrow> nat \<Rightarrow> nat \<Rightarrow> ('s, checkpoint_manifest) publication" where
  "read_parent_manifest self checkpoint_version parent_checkpoint =
     (let object_key = checkpoint_manifest_key parent_checkpoint in
      on_result (os_get (cp_store self) (as_str object_key)) (\<lambda>response.
        case response of
          Inl err \<Rightarrow> lift (Inl (if err = NotFound then MissingParentManifest checkpoint_version parent_checkpoint
                               else PublishStore err))
        | Inr bytes \<Rightarrow> lift (check_manifest_bytes self object_key bytes)))"

definition validate_parent_manifest_visible :: "('s, 'b) checkpoint_publisher \<Rightarrow> checkpoint_manifest \<Rightarrow> ('s, unit) publication" where
  "validate_parent_manifest_visible self manifest =
     (case cm_parent_checkpoint manifest of
        None \<Rightarrow> lift (Inr ())
      | Some parent_checkpoint \<Rightarrow>
          bind (read_parent_manifest self (cm_checkpoint_version manifest) parent_checkpoint) (\<lambda>parent.
            lift (validate_child_input_progress manifest parent)))"

definition validate_state_objects_exist :: "('s, 'b) checkpoint_publisher \<Rightarrow> checkpoint_manifest \<Rightarrow> ('s, unit) publication" where
  "validate_state_objects_exist self manifest =
     each (\<lambda>state_ref. bind (state_object_exists self state_ref) (\<lambda>exists.
       lift (if \<not> exists then Inl (MissingStateObject (sr_object_key state_ref)) else Inr ()))) (cm_state_objects manifest)"

definition output_object_head :: "('s, 'b) checkpoint_publisher \<Rightarrow> output_object_ref \<Rightarrow> ('s, unit) publication" where
  "output_object_head self out =
     on_result (os_head (cp_store self) (as_str (or_object_key out))) (\<lambda>result. lift
       (case result of
          Inr _ \<Rightarrow> Inr ()
        | Inl err \<Rightarrow> Inl (if err = NotFound then MissingOutputObject (or_object_key out) else PublishStore err)))"

definition validate_output_objects_exist :: "('s, 'b) checkpoint_publisher \<Rightarrow> checkpoint_manifest \<Rightarrow> ('s, unit) publication" where
  "validate_output_objects_exist self manifest =
     bind (join_all (output_object_head self) (cm_output_objects manifest)) (\<lambda>_. lift (Inr ()))"

definition read_manifest_by_version :: "('s, 'b) checkpoint_publisher \<Rightarrow> nat \<Rightarrow> ('s, checkpoint_manifest) publication" where
  "read_manifest_by_version self checkpoint_version =
     bind (of_store (os_get (cp_store self) (as_str (checkpoint_manifest_key checkpoint_version)))) (\<lambda>bytes.
     bind (of_json (cp_manifest_from_slice self bytes)) (\<lambda>manifest.
     bind (of_manifest (manifest_validate manifest)) (\<lambda>_. lift (Inr manifest))))"

text \<open>The manifest of one listed object.\<close>

definition read_listed_manifest :: "('s, 'b) checkpoint_publisher \<Rightarrow> string \<Rightarrow> ('s, checkpoint_manifest) publication" where
  "read_listed_manifest self location =
     bind (of_key (object_key_parse location)) (\<lambda>object_key.
     bind (of_store (os_get (cp_store self) location)) (\<lambda>bytes.
       lift (check_manifest_bytes self object_key bytes)))"

definition list_published_manifests :: "('s, 'b) checkpoint_publisher \<Rightarrow> ('s, checkpoint_manifest list) publication" where
  "list_published_manifests self =
     bind (of_store (os_list (cp_store self) ''v1/checkpoints'')) (\<lambda>locations.
     bind (join_all (read_listed_manifest self) locations) (\<lambda>results.
       let manifests = sort_key cm_checkpoint_version results in
       bind (lift (validate_manifest_lineage manifests)) (\<lambda>_. lift (Inr manifests))))"

section \<open>Publication\<close>

definition preflight_manifest_publication :: "('s, 'b) checkpoint_publisher \<Rightarrow> checkpoint_manifest \<Rightarrow> ('s, unit) publication" where
  "preflight_manifest_publication self manifest =
     bind (of_manifest (manifest_validate manifest)) (\<lambda>_. validate_parent_manifest_visible self manifest)"

definition publish_manifest :: "('s, 'b) checkpoint_publisher \<Rightarrow> checkpoint_manifest \<Rightarrow> ('s, unit) publication" where
  "publish_manifest self manifest =
     bind (preflight_manifest_publication self manifest) (\<lambda>_.
     bind (validate_state_objects_exist self manifest) (\<lambda>_.
     bind (validate_output_objects_exist self manifest) (\<lambda>_.
     let object_key = manifest_object_key manifest in
     bind (of_json (cp_manifest_to_vec self manifest)) (\<lambda>bytes.
     on_result (os_create (cp_store self) (as_str object_key) bytes) (\<lambda>result.
       case result of
         Inr _ \<Rightarrow>
           bind (best_effort_publish_lifecycle_record self manifest bytes) (\<lambda>_.
           bind (best_effort_publish_latest_candidate_marker self manifest bytes) (\<lambda>_. lift (Inr ())))
       | Inl err \<Rightarrow> lift (Inl (if err = AlreadyExists then ManifestAlreadyExists object_key else PublishStore err)))))))"

section \<open>Fencing\<close>

definition is_current_claim_newer_or_conflicting :: "partition_owner_claim \<Rightarrow> partition_owner_claim \<Rightarrow> bool" where
  "is_current_claim_newer_or_conflicting current attempted \<longleftrightarrow>
     oc_owner_epoch current > oc_owner_epoch attempted
     \<or> (oc_owner_epoch current = oc_owner_epoch attempted \<and> oc_owner_id current \<noteq> oc_owner_id attempted)"

text \<open>One claim that a published manifest carries for a partition.\<close>

definition check_current_claim :: "nat list \<Rightarrow> partition_owner_claim \<Rightarrow> nat \<times> partition_owner_claim option \<Rightarrow>
    (checkpoint_publish_error, unit) result" where
  "check_current_claim partitions owner_claim ref =
     (if fst ref \<notin> set partitions then Inr ()
      else case snd ref of
          None \<Rightarrow> Inr ()
        | Some current \<Rightarrow>
            if is_current_claim_newer_or_conflicting current owner_claim
            then Inl (StaleOwnerClaim (fst ref) current owner_claim) else Inr ())"

definition manifest_claims :: "checkpoint_manifest \<Rightarrow> (nat \<times> partition_owner_claim option) list" where
  "manifest_claims manifest =
     map (\<lambda>ref. (sr_partition_id ref, sr_owner_claim ref)) (cm_state_objects manifest)
     @ map (\<lambda>ref. (or_partition_id ref, or_owner_claim ref)) (cm_output_objects manifest)"

definition validate_owner_claim_current :: "('s, 'b) checkpoint_publisher \<Rightarrow> nat list \<Rightarrow> partition_owner_claim \<Rightarrow> ('s, unit) publication" where
  "validate_owner_claim_current self partitions owner_claim =
     bind (list_published_manifests self) (\<lambda>manifests.
       lift (rfold (\<lambda>ref _. check_current_claim partitions owner_claim ref) (concat (map manifest_claims manifests)) ()))"

definition validate_fenced_manifest_progress_claimed :: "checkpoint_manifest \<Rightarrow> partition_owner_claim \<Rightarrow>
    (checkpoint_publish_error, unit) result" where
  "validate_fenced_manifest_progress_claimed manifest owner_claim =
     (let claimed_partitions = map sr_partition_id
            (filter (\<lambda>state_ref. sr_owner_claim state_ref = Some owner_claim) (cm_state_objects manifest)) in
      rbind (rfold (\<lambda>input_range _.
          if ir_partition_id input_range \<notin> set claimed_partitions
          then Inl (FencedManifestPartitionNotClaimed ''input'' (ir_partition_id input_range) owner_claim)
          else Inr ()) (cm_input_ranges manifest) ()) (\<lambda>_.
      rfold (\<lambda>out _.
          if or_partition_id out \<notin> set claimed_partitions
          then Inl (FencedManifestPartitionNotClaimed ''output'' (or_partition_id out) owner_claim)
          else Inr ()) (cm_output_objects manifest) ()))"

definition validate_state_write_owner_claim :: "'b state_object_write \<Rightarrow> partition_owner_claim \<Rightarrow> (checkpoint_publish_error, unit) result" where
  "validate_state_write_owner_claim state owner_claim =
     (if sw_owner_claim state = Some owner_claim then Inr ()
      else Inl (StateOwnerClaimMismatch (sw_object_key state) owner_claim (sw_owner_claim state)))"

definition validate_output_write_owner_claim :: "'b output_object_write \<Rightarrow> partition_owner_claim \<Rightarrow> (checkpoint_publish_error, unit) result" where
  "validate_output_write_owner_claim out owner_claim =
     (if ow_write_owner_claim out = Some owner_claim then Inr ()
      else Inl (OutputOwnerClaimMismatch (ow_write_object_key out) owner_claim (ow_write_owner_claim out)))"

definition write_state_object_fenced :: "('s, 'b) checkpoint_publisher \<Rightarrow> 'b state_object_write \<Rightarrow> partition_owner_claim \<Rightarrow>
    ('s, state_object_ref) publication" where
  "write_state_object_fenced self state owner_claim =
     bind (lift (validate_state_write_owner_claim state owner_claim)) (\<lambda>_.
     bind (validate_owner_claim_current self [sw_partition_id state] owner_claim) (\<lambda>_.
       write_state_object self state))"

definition write_output_object_fenced :: "('s, 'b) checkpoint_publisher \<Rightarrow> 'b output_object_write \<Rightarrow> partition_owner_claim \<Rightarrow>
    ('s, output_object_ref) publication" where
  "write_output_object_fenced self out owner_claim =
     bind (lift (validate_output_write_owner_claim out owner_claim)) (\<lambda>_.
     bind (validate_owner_claim_current self [ow_write_partition_id out] owner_claim) (\<lambda>_.
       write_output_object self out))"

definition publish_manifest_fenced :: "('s, 'b) checkpoint_publisher \<Rightarrow> checkpoint_manifest \<Rightarrow> partition_owner_claim \<Rightarrow> ('s, unit) publication" where
  "publish_manifest_fenced self manifest owner_claim =
     bind (of_manifest (manifest_validate manifest)) (\<lambda>_.
     bind (of_manifest (manifest_validate_owner_claim manifest owner_claim)) (\<lambda>_.
     bind (lift (validate_fenced_manifest_progress_claimed manifest owner_claim)) (\<lambda>_.
     bind (validate_owner_claim_current self (map sr_partition_id (cm_state_objects manifest)) owner_claim) (\<lambda>_.
       publish_manifest self manifest))))"

section \<open>Ownership epoch records\<close>

definition read_ownership_epoch_record_object :: "('s, 'b) checkpoint_publisher \<Rightarrow> object_key \<Rightarrow> ('s, ownership_epoch_record) publication" where
  "read_ownership_epoch_record_object self object_key =
     bind (of_store (os_get (cp_store self) (as_str object_key))) (\<lambda>bytes.
     bind (of_json (cp_record_from_slice self bytes)) (\<lambda>record.
     bind (of_record (validate_object_key record object_key)) (\<lambda>_. lift (Inr record))))"

definition create_ownership_epoch_record :: "('s, 'b) checkpoint_publisher \<Rightarrow> ownership_epoch_record \<Rightarrow> ('s, object_key) publication" where
  "create_ownership_epoch_record self record =
     bind (of_record (record_validate record)) (\<lambda>_.
     bind (of_key (record_object_key record)) (\<lambda>object_key.
     bind (of_json (cp_record_to_vec self record)) (\<lambda>bytes.
     on_result (os_create (cp_store self) (as_str object_key) bytes) (\<lambda>result.
       case result of
         Inr _ \<Rightarrow> lift (Inr object_key)
       | Inl err \<Rightarrow>
           if err = AlreadyExists then
             bind (read_ownership_epoch_record_object self object_key) (\<lambda>existing.
               lift (if existing = record then Inr object_key else Inl (OwnershipEpochRecordConflict object_key)))
           else lift (Inl (PublishStore err))))))"

definition read_ownership_epoch_record :: "('s, 'b) checkpoint_publisher \<Rightarrow> string \<Rightarrow> nat \<Rightarrow> nat \<Rightarrow> ('s, ownership_epoch_record) publication" where
  "read_ownership_epoch_record self stream_id partition_id owner_epoch =
     bind (of_key (ownership_epoch_record_key stream_id partition_id owner_epoch)) (\<lambda>object_key.
       read_ownership_epoch_record_object self object_key)"

text \<open>The record of one listed object, if it belongs to the partition.\<close>

definition read_listed_record :: "('s, 'b) checkpoint_publisher \<Rightarrow> string \<Rightarrow> nat \<Rightarrow> string \<Rightarrow> ('s, ownership_epoch_record option) publication" where
  "read_listed_record self stream_id partition_id location =
     bind (of_key (object_key_parse location)) (\<lambda>object_key.
     bind (of_key (parse_ownership_epoch_record (as_str object_key))) (\<lambda>(_, key_parts).
       if ow_stream_id key_parts \<noteq> stream_id \<or> ow_partition_id key_parts \<noteq> partition_id then lift (Inr None)
       else bind (read_ownership_epoch_record_object self object_key) (\<lambda>record. lift (Inr (Some record)))))"

definition list_ownership_epoch_records :: "('s, 'b) checkpoint_publisher \<Rightarrow> string \<Rightarrow> nat \<Rightarrow> ('s, ownership_epoch_record list) publication" where
  "list_ownership_epoch_records self stream_id partition_id =
     bind (of_key (ownership_epoch_record_key stream_id partition_id 0)) (\<lambda>prefix_key.
     bind (of_key (ok_or (InvalidExternalKey (as_str prefix_key))
         (strip_suffix ''epoch=00000000000000000000.claim'' (as_str prefix_key)))) (\<lambda>prefix.
     bind (of_store (os_list (cp_store self) prefix)) (\<lambda>locations.
     bind (collect (read_listed_record self stream_id partition_id) locations) (\<lambda>records.
       lift (Inr (List.map_filter (\<lambda>r. r) records))))))"

definition has_newer_ownership_epoch_record :: "('s, 'b) checkpoint_publisher \<Rightarrow> string \<Rightarrow> nat \<Rightarrow> nat \<Rightarrow> ('s, bool) publication" where
  "has_newer_ownership_epoch_record self stream_id partition_id owner_epoch =
     bind (list_ownership_epoch_records self stream_id partition_id) (\<lambda>records.
       lift (Inr (list_ex (\<lambda>record. er_owner_epoch record > owner_epoch) records)))"

definition validate_matching_ownership_epoch_record_visible :: "('s, 'b) checkpoint_publisher \<Rightarrow> string \<Rightarrow> nat \<Rightarrow>
    partition_owner_claim \<Rightarrow> ('s, unit) publication" where
  "validate_matching_ownership_epoch_record_visible self stream_id partition_id owner_claim =
     bind (of_key (ownership_epoch_record_key stream_id partition_id (oc_owner_epoch owner_claim))) (\<lambda>object_key.
     on_result (read_ownership_epoch_record_object self object_key) (\<lambda>result.
       case result of
         Inr record \<Rightarrow>
           of_record (record_validate_owner_claim record object_key (oc_owner_id owner_claim) (oc_owner_epoch owner_claim))
       | Inl err \<Rightarrow> lift (Inl (if err = PublishStore NotFound then MissingOwnershipEpochRecord object_key else err))))"

definition validate_no_newer_visible_ownership_epoch_record :: "('s, 'b) checkpoint_publisher \<Rightarrow> string \<Rightarrow> nat \<Rightarrow>
    partition_owner_claim \<Rightarrow> ('s, unit) publication" where
  "validate_no_newer_visible_ownership_epoch_record self stream_id partition_id owner_claim =
     bind (list_ownership_epoch_records self stream_id partition_id) (\<lambda>records.
       lift (rfold (\<lambda>record _.
         let current = \<lparr>oc_owner_id = er_owner_id record, oc_owner_epoch = er_owner_epoch record\<rparr> in
         if is_current_claim_newer_or_conflicting current owner_claim
         then Inl (StaleOwnerClaim partition_id current owner_claim) else Inr ()) records ()))"

definition validate_production_owner_claim_current :: "('s, 'b) checkpoint_publisher \<Rightarrow> string \<Rightarrow> nat \<Rightarrow>
    partition_owner_claim \<Rightarrow> ('s, unit) publication" where
  "validate_production_owner_claim_current self stream_id partition_id owner_claim =
     bind (validate_matching_ownership_epoch_record_visible self stream_id partition_id owner_claim) (\<lambda>_.
     bind (validate_owner_claim_current self [partition_id] owner_claim) (\<lambda>_.
       validate_no_newer_visible_ownership_epoch_record self stream_id partition_id owner_claim))"

text \<open>The loops over the input ranges and the outputs of a manifest, each partition of a stream once.\<close>

definition validate_progress_owner :: "('s, 'b) checkpoint_publisher \<Rightarrow> partition_owner_claim \<Rightarrow> string \<times> nat \<Rightarrow> ('s, unit) publication" where
  "validate_progress_owner self owner_claim key =
     bind (validate_matching_ownership_epoch_record_visible self (fst key) (snd key) owner_claim) (\<lambda>_.
       validate_no_newer_visible_ownership_epoch_record self (fst key) (snd key) owner_claim)"

definition progress_keys :: "checkpoint_manifest \<Rightarrow> (string \<times> nat) list" where
  "progress_keys manifest =
     map (\<lambda>r. (ir_stream_id r, ir_partition_id r)) (cm_input_ranges manifest)
     @ map (\<lambda>r. (or_stream_id r, or_partition_id r)) (cm_output_objects manifest)"

text \<open>The first occurrences, as \<open>checked.insert\<close> selects them.\<close>

fun first_seen :: "'k list \<Rightarrow> 'k list \<Rightarrow> 'k list" where
  "first_seen checked [] = []"
| "first_seen checked (k # ks) = (if k \<in> set checked then first_seen checked ks else k # first_seen (k # checked) ks)"

definition validate_manifest_production_owner_claims_current :: "('s, 'b) checkpoint_publisher \<Rightarrow> checkpoint_manifest \<Rightarrow>
    partition_owner_claim \<Rightarrow> ('s, unit) publication" where
  "validate_manifest_production_owner_claims_current self manifest owner_claim =
     bind (each (validate_progress_owner self owner_claim) (first_seen [] (progress_keys manifest))) (\<lambda>_.
       validate_owner_claim_current self (map snd (first_seen [] (progress_keys manifest))) owner_claim)"

definition write_state_object_fenced_production :: "('s, 'b) checkpoint_publisher \<Rightarrow> 'b state_object_write \<Rightarrow> string \<Rightarrow>
    partition_owner_claim \<Rightarrow> ('s, state_object_ref) publication" where
  "write_state_object_fenced_production self state stream_id owner_claim =
     bind (lift (validate_state_write_owner_claim state owner_claim)) (\<lambda>_.
     bind (validate_production_owner_claim_current self stream_id (sw_partition_id state) owner_claim) (\<lambda>_.
       write_state_object self state))"

definition write_output_object_fenced_production :: "('s, 'b) checkpoint_publisher \<Rightarrow> 'b output_object_write \<Rightarrow>
    partition_owner_claim \<Rightarrow> ('s, output_object_ref) publication" where
  "write_output_object_fenced_production self out owner_claim =
     bind (lift (validate_output_write_owner_claim out owner_claim)) (\<lambda>_.
     bind (validate_production_owner_claim_current self (ow_write_stream_id out) (ow_write_partition_id out) owner_claim) (\<lambda>_.
       write_output_object self out))"

definition publish_manifest_fenced_production :: "('s, 'b) checkpoint_publisher \<Rightarrow> checkpoint_manifest \<Rightarrow>
    partition_owner_claim \<Rightarrow> ('s, unit) publication" where
  "publish_manifest_fenced_production self manifest owner_claim =
     bind (of_manifest (manifest_validate manifest)) (\<lambda>_.
     bind (of_manifest (manifest_validate_owner_claim manifest owner_claim)) (\<lambda>_.
     bind (lift (validate_fenced_manifest_progress_claimed manifest owner_claim)) (\<lambda>_.
     bind (validate_manifest_production_owner_claims_current self manifest owner_claim) (\<lambda>_.
       publish_manifest self manifest))))"

section \<open>The latest manifest\<close>

definition future_checkpoint_manifest_exists :: "('s, 'b) checkpoint_publisher \<Rightarrow> object_key \<Rightarrow> ('s, bool) publication" where
  "future_checkpoint_manifest_exists self manifest_key =
     bind (of_store (os_list_with_offset (cp_store self) ''v1/checkpoints'' (as_str manifest_key))) (\<lambda>future_objects.
       lift (Inr (future_objects \<noteq> [])))"

definition try_latest_manifest_from_candidate_marker :: "('s, 'b) checkpoint_publisher \<Rightarrow> ('s, checkpoint_manifest option) publication" where
  "try_latest_manifest_from_candidate_marker self =
     on_result (os_get (cp_store self) (as_str checkpoint_latest_candidate_marker)) (\<lambda>response.
       case response of
         Inl err \<Rightarrow> lift (if err = NotFound then Inr None else Inl (PublishStore err))
       | Inr marker_bytes \<Rightarrow>
           bind (of_json (cp_marker_from_slice self marker_bytes)) (\<lambda>marker.
           if \<not> marker_validate_schema marker then lift (Inr None)
           else if lm_manifest_key marker \<noteq> checkpoint_manifest_key (lm_checkpoint_version marker) then lift (Inr None)
           else
             bind (of_store (os_get (cp_store self) (as_str (lm_manifest_key marker)))) (\<lambda>manifest_bytes.
             if lm_manifest_digest marker \<noteq> manifest_digest self manifest_bytes then lift (Inr None)
             else
               bind (of_json (cp_manifest_from_slice self manifest_bytes)) (\<lambda>manifest.
               bind (of_manifest (manifest_validate manifest)) (\<lambda>_.
               if lm_manifest_key marker \<noteq> manifest_object_key manifest then lift (Inr None)
               else if lm_validated_parent_checkpoint marker \<noteq> cm_parent_checkpoint manifest then lift (Inr None)
               else
                 bind (validate_parent_manifest_visible self manifest) (\<lambda>_.
                 bind (validate_state_objects_exist self manifest) (\<lambda>_.
                 bind (validate_output_objects_exist self manifest) (\<lambda>_.
                 bind (future_checkpoint_manifest_exists self (lm_manifest_key marker)) (\<lambda>newer.
                   lift (Inr (if newer then None else Some manifest)))))))))))"

definition latest_manifest_from_candidate_marker :: "('s, 'b) checkpoint_publisher \<Rightarrow> ('s, checkpoint_manifest option) publication" where
  "latest_manifest_from_candidate_marker self =
     on_result (try_latest_manifest_from_candidate_marker self) (\<lambda>result. lift
       (case result of
          Inr manifest \<Rightarrow> Inr manifest
        | Inl (PublishStore err) \<Rightarrow> Inl (PublishStore err)
        | Inl (MissingStateObject err) \<Rightarrow> Inl (MissingStateObject err)
        | Inl (MissingOutputObject err) \<Rightarrow> Inl (MissingOutputObject err)
        | Inl _ \<Rightarrow> Inr None))"

text \<open>\<open>max_by_key\<close>: the last of the greatest elements.\<close>

primrec max_by_key :: "('x \<Rightarrow> 'k :: linorder) \<Rightarrow> 'x list \<Rightarrow> 'x option" where
  "max_by_key f [] = None"
| "max_by_key f (x # xs) =
     (case max_by_key f xs of None \<Rightarrow> Some x | Some y \<Rightarrow> Some (if f x > f y then x else y))"

definition latest_manifest :: "('s, 'b) checkpoint_publisher \<Rightarrow> ('s, checkpoint_manifest option) publication" where
  "latest_manifest self =
     bind (latest_manifest_from_candidate_marker self) (\<lambda>found.
       case found of
         Some manifest \<Rightarrow> lift (Inr (Some manifest))
       | None \<Rightarrow>
           bind (list_published_manifests self) (\<lambda>manifests.
             case max_by_key cm_checkpoint_version manifests of
               None \<Rightarrow> lift (Inr None)
             | Some manifest \<Rightarrow>
                 bind (validate_state_objects_exist self manifest) (\<lambda>_.
                 bind (validate_output_objects_exist self manifest) (\<lambda>_. lift (Inr (Some manifest))))))"

definition validate_lifecycle_record :: "object_key \<Rightarrow> lifecycle_record \<Rightarrow> (checkpoint_publish_error, unit) result" where
  "validate_lifecycle_record object_key record =
     (if \<not> lifecycle_validate_schema record
      then Inl (invalid_external (''unsupported checkpoint lifecycle schema version '' @ dec (lr_schema_version record)))
      else if object_key \<noteq> checkpoint_lifecycle_record (lr_checkpoint_version record)
      then Inl (invalid_external (''checkpoint lifecycle key `'' @ as_str object_key
             @ ''` does not match body checkpoint '' @ dec (lr_checkpoint_version record)))
      else if lr_manifest_key record \<noteq> checkpoint_manifest_key (lr_checkpoint_version record)
      then Inl (invalid_external (''checkpoint lifecycle manifest key `'' @ as_str (lr_manifest_key record)
             @ ''` does not match checkpoint '' @ dec (lr_checkpoint_version record)))
      else Inr ())"

definition read_checkpoint_lifecycle_record :: "('s, 'b) checkpoint_publisher \<Rightarrow> nat \<Rightarrow> ('s, lifecycle_record) publication" where
  "read_checkpoint_lifecycle_record self checkpoint_version =
     (let object_key = checkpoint_lifecycle_record checkpoint_version in
      bind (of_store (os_get (cp_store self) (as_str object_key))) (\<lambda>bytes.
      bind (of_json (cp_lifecycle_from_slice self bytes)) (\<lambda>record.
      bind (lift (validate_lifecycle_record object_key record)) (\<lambda>_. lift (Inr record)))))"

definition read_published_checkpoint_manifest :: "('s, 'b) checkpoint_publisher \<Rightarrow> nat \<Rightarrow> ('s, checkpoint_manifest) publication" where
  "read_published_checkpoint_manifest self checkpoint_version =
     (let manifest_key = checkpoint_manifest_key checkpoint_version in
      bind (of_store (os_get (cp_store self) (as_str manifest_key))) (\<lambda>manifest_bytes.
      bind (lift (check_manifest_bytes self manifest_key manifest_bytes)) (\<lambda>manifest.
      if cm_checkpoint_version manifest \<noteq> checkpoint_version
      then lift (Inl (invalid_external (''checkpoint manifest key version '' @ dec checkpoint_version
             @ '' does not match body version '' @ dec (cm_checkpoint_version manifest))))
      else
        bind (validate_parent_manifest_visible self manifest) (\<lambda>_.
        bind (validate_state_objects_exist self manifest) (\<lambda>_.
        bind (validate_output_objects_exist self manifest) (\<lambda>_.
        bind (read_checkpoint_lifecycle_record self checkpoint_version) (\<lambda>lifecycle.
        let expected_digest = manifest_digest self manifest_bytes in
        lift
          (if lr_status lifecycle \<noteq> Published
           then Inl (invalid_external (''checkpoint '' @ dec checkpoint_version @ '' is not published''))
           else if lr_manifest_digest lifecycle \<noteq> expected_digest
           then Inl (invalid_external (''checkpoint lifecycle manifest digest mismatch for checkpoint ''
                  @ dec checkpoint_version @ '': expected '' @ expected_digest @ '', actual '' @ lr_manifest_digest lifecycle))
           else Inr manifest))))))))"

section \<open>Garbage collection\<close>

definition matches_key :: "garbage_collection_candidate_kind \<Rightarrow> object_key \<Rightarrow> bool" where
  "matches_key self object_key =
     (case self of
        RawStateObject \<Rightarrow> strip_prefix ''v1/state/'' (as_str object_key) \<noteq> None
      | OutputObject \<Rightarrow> strip_prefix ''v1/outputs/'' (as_str object_key) \<noteq> None)"

definition add_unreferenced_candidates :: "('s, 'b) checkpoint_publisher \<Rightarrow> string \<Rightarrow> garbage_collection_candidate_kind \<Rightarrow>
    object_key list \<Rightarrow> garbage_collection_candidate list \<Rightarrow> ('s, garbage_collection_candidate list) publication" where
  "add_unreferenced_candidates self prefix kind referenced candidates =
     bind (of_store (os_list (cp_store self) prefix)) (\<lambda>objects.
       lift (Inr (candidates @ List.map_filter (\<lambda>location.
         case object_key_parse location of
           Inl _ \<Rightarrow> None
         | Inr object_key \<Rightarrow>
             if matches_key kind object_key \<and> object_key \<notin> set referenced
             then Some \<lparr>gc_object_key = object_key, gc_kind = kind\<rparr> else None) objects)))"

text \<open>The derived order of candidates: by key, then by kind.\<close>

definition candidate_order :: "garbage_collection_candidate \<Rightarrow> object_key \<times> nat" where
  "candidate_order c = (gc_object_key c, case gc_kind c of RawStateObject \<Rightarrow> 0 | OutputObject \<Rightarrow> 1)"

definition plan_garbage_collection :: "('s, 'b) checkpoint_publisher \<Rightarrow> garbage_collection_policy \<Rightarrow>
    ('s, garbage_collection_plan) publication" where
  "plan_garbage_collection self policy =
     (if gp_retain_latest_manifests policy = 0 then lift (Inl InvalidGarbageCollectionPolicy)
      else
        bind (list_published_manifests self) (\<lambda>manifests.
        let retained_from = length manifests - gp_retain_latest_manifests policy;
            retained_manifests = drop retained_from manifests;
            referenced = concat (map (\<lambda>m. map snd (object_refs m)) retained_manifests)
        in
        bind (add_unreferenced_candidates self ''v1/state'' RawStateObject referenced []) (\<lambda>candidates.
        bind (add_unreferenced_candidates self ''v1/outputs'' OutputObject referenced candidates) (\<lambda>candidates.
          lift (Inr \<lparr>gl_retained_manifest_versions = map cm_checkpoint_version retained_manifests,
                     gl_candidates = sort_key candidate_order candidates\<rparr>)))))"

definition execute_garbage_collection_plan :: "garbage_collection_plan \<Rightarrow> ('s, garbage_collection_report) publication" where
  "execute_garbage_collection_plan plan = lift (Inl GarbageCollectionCoordinationRequired)"

end
