(* ===== verification/Checkpoint_Lineage.thy ===== *)
theory Checkpoint_Lineage
  imports Checkpoint_Publisher
begin

text \<open>
  The protocol that the publisher follows, as an abstract step relation on the objects of the store: state,
  output and ownership objects are only created, and a manifest is created when its objects and its parent
  are there. The steps keep the lineage of manifests. Every operation of the publisher refines them, under
  interleaving with other publishers that follow the same steps.
\<close>

section \<open>Kept input progress\<close>

definition progress_kept :: "checkpoint_manifest \<Rightarrow> checkpoint_manifest \<Rightarrow> bool" where
  "progress_kept child parent \<longleftrightarrow> (\<forall>p \<in> set (cm_input_ranges parent). \<exists>c \<in> set (cm_input_ranges child).
     range_id c = range_id p \<and> ir_start_offset_inclusive c \<le> ir_start_offset_inclusive p
     \<and> ir_end_offset_exclusive p \<le> ir_end_offset_exclusive c)"

lemma progress_kept_trans: "progress_kept a b \<Longrightarrow> progress_kept b c \<Longrightarrow> progress_kept a c"
  unfolding progress_kept_def by (intro ballI) (drule (1) bspec, elim bexE conjE, drule (1) bspec, auto intro: order.trans)

lemma hash_map_distinct: "distinct (map fst es) \<Longrightarrow> hash_map es k = Some v \<longleftrightarrow> (k, v) \<in> set es"
  by (simp add: hash_map_def rev_map [symmetric])

lemma hash_map_None: "hash_map es k = None \<longleftrightarrow> k \<notin> fst ` set es"
  by (simp add: hash_map_def map_of_eq_None_iff)

lemma manifest_ranges_distinct: "manifest_ok m \<Longrightarrow> distinct (map range_id (cm_input_ranges m))"
  unfolding manifest_ok_def strict_sorted_iff by blast

lemma check_parent_range_iff:
  assumes "manifest_ok child"
  shows "check_parent_range child v p = Inr u \<longleftrightarrow> (\<exists>c \<in> set (cm_input_ranges child).
     range_id c = range_id p \<and> ir_start_offset_inclusive c \<le> ir_start_offset_inclusive p
     \<and> ir_end_offset_exclusive p \<le> ir_end_offset_exclusive c)"
proof -
  let ?es = "map (\<lambda>r. (range_id r, r)) (cm_input_ranges child)"
  have d: "distinct (map fst ?es)" using manifest_ranges_distinct [OF assms] by (simp add: comp_def)
  have es: "map (\<lambda>r. ((ir_stream_id r, ir_partition_id r), r)) (cm_input_ranges child) = ?es" by (simp add: range_id_def)
  have p: "(ir_stream_id p, ir_partition_id p) = range_id p" by (simp add: range_id_def)
  show ?thesis
  proof (cases "hash_map ?es (range_id p)")
    case None
    then have "range_id c \<noteq> range_id p" if "c \<in> set (cm_input_ranges child)" for c
      using that by (auto simp: hash_map_None image_iff)
    then show ?thesis unfolding check_parent_range_def es p None by auto
  next
    case (Some c)
    then have "c \<in> set (cm_input_ranges child) \<and> range_id c = range_id p" unfolding hash_map_distinct [OF d] by auto
    moreover have "c' = c" if "c' \<in> set (cm_input_ranges child)" "range_id c' = range_id p" for c'
      using Some that hash_map_distinct [OF d, of "range_id p" c'] by (auto simp: image_iff)
    ultimately have "(\<exists>c \<in> set (cm_input_ranges child). range_id c = range_id p
        \<and> ir_start_offset_inclusive c \<le> ir_start_offset_inclusive p \<and> ir_end_offset_exclusive p \<le> ir_end_offset_exclusive c)
      \<longleftrightarrow> ir_start_offset_inclusive c \<le> ir_start_offset_inclusive p \<and> ir_end_offset_exclusive p \<le> ir_end_offset_exclusive c"
      by blast
    then show ?thesis unfolding check_parent_range_def es p Some by (simp add: not_less)
  qed
qed

lemma validate_child_iff:
  "manifest_ok child \<Longrightarrow> validate_child_input_progress child parent = Inr u \<longleftrightarrow> progress_kept child parent"
  by (simp add: validate_child_input_progress_def rfold_check check_parent_range_iff progress_kept_def)

section \<open>Namespaces\<close>

text \<open>The objects that are never replaced.\<close>

definition durable :: "string \<Rightarrow> bool" where
  "durable k \<longleftrightarrow> under ''v1/checkpoints'' k \<or> under ''v1/state'' k \<or> under ''v1/outputs'' k \<or> under ''v1/ownership'' k"

lemma under_state: "state_object s p c i = Inr k \<Longrightarrow> under ''v1/state'' (as_str k)"
  unfolding state_object_iff by (elim conjE) (hypsubst, simp add: under_def dir_of_def)

lemma under_output: "output_object s p c a b i = Inr k \<Longrightarrow> under ''v1/outputs'' (as_str k)"
  unfolding output_object_iff by (elim conjE) (hypsubst, simp add: under_def dir_of_def)

lemma under_ownership: "ownership_epoch_record_key s p e = Inr k \<Longrightarrow> under ''v1/ownership'' (as_str k)"
  unfolding ownership_key_iff by (elim conjE) (hypsubst, simp add: under_def dir_of_def)

lemma under_manifest: "under ''v1/checkpoints'' (as_str (checkpoint_manifest_key v))"
  by (simp add: checkpoint_manifest_key_def under_def dir_of_def)

lemma not_durable:
  "\<not> durable (as_str checkpoint_latest_candidate_marker)" "\<not> durable (as_str (checkpoint_lifecycle_record v))"
  by (simp_all add: checkpoint_latest_candidate_marker_def checkpoint_lifecycle_record_def durable_def under_def dir_of_def)

lemma under_take:
  assumes "under p k" "n \<le> length p"
  shows "take n k = take n p"
proof -
  have "n \<le> length (dir_of p)" using assms(2) by (simp add: dir_of_def)
  then have "take n k = take n (take (length (dir_of p)) k)" by (simp add: min_absorb1)
  also have "\<dots> = take n p" using assms by (simp add: under_def dir_of_def)
  finally show ?thesis .
qed

lemma under_exclusive:
  "under ''v1/checkpoints'' k \<Longrightarrow> \<not> under ''v1/state'' k \<and> \<not> under ''v1/outputs'' k \<and> \<not> under ''v1/ownership'' k"
  using under_take [of "''v1/checkpoints''" k 4] under_take [of "''v1/state''" k 4] under_take [of "''v1/outputs''" k 4]
    under_take [of "''v1/ownership''" k 4] by auto

lemma manifest_key_inject: "checkpoint_manifest_key v = checkpoint_manifest_key w \<longleftrightarrow> v = w"
proof -
  have "pad n v = pad n w \<Longrightarrow> v = w" for n by (metis of_nat_eq_iff pad_val)
  then show ?thesis by (auto simp: checkpoint_manifest_key_def)
qed

section \<open>The protocol\<close>

definition grows :: "'b objects \<Rightarrow> 'b objects \<Rightarrow> bool" where
  "grows c d \<longleftrightarrow> (\<forall>k b. durable k \<longrightarrow> c k = Some b \<longrightarrow> d k = Some b)"

definition published :: "('s, 'b) checkpoint_publisher \<Rightarrow> 'b objects \<Rightarrow> checkpoint_manifest \<Rightarrow> bool" where
  "published pb c m \<longleftrightarrow> manifest_ok m
     \<and> (\<exists>b. c (as_str (manifest_object_key m)) = Some b \<and> cp_manifest_from_slice pb b = Inr m)"

definition parent_published :: "('s, 'b) checkpoint_publisher \<Rightarrow> 'b objects \<Rightarrow> checkpoint_manifest \<Rightarrow> bool" where
  "parent_published pb c m \<longleftrightarrow> (\<forall>v. cm_parent_checkpoint m = Some v \<longrightarrow>
     (\<exists>p. published pb c p \<and> cm_checkpoint_version p = v \<and> progress_kept m p))"

definition refs_stored :: "'b objects \<Rightarrow> checkpoint_manifest \<Rightarrow> bool" where
  "refs_stored c m \<longleftrightarrow> (\<forall>k \<in> snd ` set (object_refs m). c (as_str k) \<noteq> None)"

inductive commit_step :: "('s, 'b) checkpoint_publisher \<Rightarrow> 'b objects \<Rightarrow> 'b objects \<Rightarrow> bool" for pb where
  write_payload: "under ''v1/state'' k \<or> under ''v1/outputs'' k \<or> under ''v1/ownership'' k \<Longrightarrow> c k = None \<Longrightarrow>
     commit_step pb c (c(k \<mapsto> b))"
| write_index: "\<not> durable k \<Longrightarrow> commit_step pb c (c(k \<mapsto> b))"
| commit_manifest: "manifest_ok m \<Longrightarrow> parent_published pb c m \<Longrightarrow> refs_stored c m \<Longrightarrow>
     c (as_str (manifest_object_key m)) = None \<Longrightarrow> cp_manifest_from_slice pb b = Inr m \<Longrightarrow>
     commit_step pb c (c(as_str (manifest_object_key m) \<mapsto> b))"

abbreviation commit_steps :: "('s, 'b) checkpoint_publisher \<Rightarrow> 'b objects \<Rightarrow> 'b objects \<Rightarrow> bool" where
  "commit_steps pb \<equiv> (commit_step pb)\<^sup>*\<^sup>*"

text \<open>The lineage: every object in the namespace of checkpoints is a manifest with its parent and its objects.\<close>

definition lineage :: "('s, 'b) checkpoint_publisher \<Rightarrow> 'b objects \<Rightarrow> bool" where
  "lineage pb c \<longleftrightarrow> (\<forall>k. under ''v1/checkpoints'' k \<longrightarrow> c k \<noteq> None \<longrightarrow>
     (\<exists>m. k = as_str (manifest_object_key m) \<and> published pb c m \<and> parent_published pb c m \<and> refs_stored c m))"

lemma grows_refl: "grows c c"
  by (simp add: grows_def)

lemma grows_trans: "grows c d \<Longrightarrow> grows d e \<Longrightarrow> grows c e"
  by (simp add: grows_def)

lemma manifest_key_durable [simp]: "durable (as_str (manifest_object_key m))" "durable (as_str (checkpoint_manifest_key v))"
  using under_manifest by (auto simp: durable_def manifest_object_key_def)

lemma published_mono: "published pb c m \<Longrightarrow> grows c d \<Longrightarrow> published pb d m"
  by (auto simp: published_def grows_def)

lemma parent_published_mono: "parent_published pb c m \<Longrightarrow> grows c d \<Longrightarrow> parent_published pb d m"
  unfolding parent_published_def by (meson published_mono)

lemma refs_durable: "manifest_ok m \<Longrightarrow> k \<in> snd ` set (object_refs m) \<Longrightarrow> durable (as_str k)"
proof -
  assume ok: "manifest_ok m" and k: "k \<in> snd ` set (object_refs m)"
  have "under ''v1/state'' (as_str (sr_object_key ref))" if "ref \<in> set (cm_state_objects m)" for ref
    using ok that unfolding manifest_ok_def by (blast intro: under_state)
  moreover have "under ''v1/outputs'' (as_str (or_object_key ref))" if "ref \<in> set (cm_output_objects m)" for ref
    using ok that unfolding manifest_ok_def by (blast intro: under_output)
  ultimately show ?thesis using k by (auto simp: object_refs_def durable_def)
qed

lemma refs_stored_mono: "manifest_ok m \<Longrightarrow> refs_stored c m \<Longrightarrow> grows c d \<Longrightarrow> refs_stored d m"
  unfolding refs_stored_def grows_def by (blast intro: refs_durable)

lemma create_grows: "c k = None \<Longrightarrow> grows c (c(k \<mapsto> b))"
  by (auto simp: grows_def)

lemma commit_step_grows: "commit_step pb c d \<Longrightarrow> grows c d"
  by (induction rule: commit_step.induct) (auto simp: grows_def)

lemma commit_steps_grows: "commit_steps pb c d \<Longrightarrow> grows c d"
  by (induction rule: rtranclp_induct) (auto intro: grows_refl grows_trans commit_step_grows)

lemma lineage_step:
  assumes "commit_step pb c d" and "lineage pb c"
  shows "lineage pb d"
proof -
  have g: "grows c d" using assms(1) by (rule commit_step_grows)
  have keep: "\<exists>m. k = as_str (manifest_object_key m) \<and> published pb d m \<and> parent_published pb d m \<and> refs_stored d m"
    if k: "under ''v1/checkpoints'' k" "c k \<noteq> None" for k
  proof -
    obtain m where m: "k = as_str (manifest_object_key m)" "published pb c m" "parent_published pb c m" "refs_stored c m"
      using assms(2) k unfolding lineage_def by blast
    moreover have "manifest_ok m" using m(2) by (simp add: published_def)
    ultimately show ?thesis using g by (blast intro: published_mono parent_published_mono refs_stored_mono)
  qed
  from assms(1) show ?thesis
  proof cases
    case (write_payload k b)
    then have "\<not> under ''v1/checkpoints'' k" using under_exclusive by blast
    then show ?thesis using keep unfolding lineage_def write_payload(1) by (metis fun_upd_other)
  next
    case (write_index k b)
    then have "\<not> under ''v1/checkpoints'' k" by (simp add: durable_def)
    then show ?thesis using keep unfolding lineage_def write_index(1) by (metis fun_upd_other)
  next
    case (commit_manifest m b)
    have "published pb d m" using commit_manifest by (simp add: published_def)
    moreover have "parent_published pb d m" using commit_manifest(3) g by (rule parent_published_mono)
    moreover have "refs_stored d m" using commit_manifest(2,4) g by (rule refs_stored_mono)
    ultimately show ?thesis using keep unfolding lineage_def commit_manifest(1) by (metis fun_upd_other)
  qed
qed

lemma lineage_steps: "commit_steps pb c d \<Longrightarrow> lineage pb c \<Longrightarrow> lineage pb d"
  by (induction rule: rtranclp_induct) (auto intro: lineage_step)

text \<open>From a published manifest the lineage reaches every earlier version, with less input progress.\<close>

lemma published_key: "published pb c m \<Longrightarrow> published pb c n \<Longrightarrow> cm_checkpoint_version m = cm_checkpoint_version n \<Longrightarrow> m = n"
  by (auto simp: published_def manifest_object_key_def)

lemma lineage_published:
  assumes "lineage pb c" "published pb c m"
  shows "parent_published pb c m \<and> refs_stored c m"
proof -
  have "c (as_str (manifest_object_key m)) \<noteq> None" using assms(2) by (auto simp: published_def)
  then obtain n where n: "as_str (manifest_object_key m) = as_str (manifest_object_key n)" "published pb c n"
      "parent_published pb c n" "refs_stored c n"
    using assms(1) under_manifest unfolding lineage_def by (metis manifest_object_key_def)
  then have "cm_checkpoint_version m = cm_checkpoint_version n"
    by (metis manifest_key_inject manifest_object_key_def object_key.expand)
  with n assms(2) have "m = n" by (blast intro: published_key)
  with n show ?thesis by simp
qed

lemma lineage_ancestor:
  assumes "lineage pb c" "published pb c m" "v \<le> cm_checkpoint_version m"
  shows "\<exists>p. published pb c p \<and> cm_checkpoint_version p = v \<and> progress_kept m p"
  using assms(2,3)
proof (induction "cm_checkpoint_version m - v" arbitrary: m)
  case 0
  then show ?case by (auto simp: progress_kept_def)
next
  case (Suc n)
  then have "cm_parent_checkpoint m = Some (cm_checkpoint_version m - 1)" by (auto simp: published_def manifest_ok_def)
  then obtain q where q: "published pb c q" "cm_checkpoint_version q = cm_checkpoint_version m - 1" "progress_kept m q"
    using lineage_published [OF assms(1) Suc.prems(1)] by (auto simp: parent_published_def)
  have le: "n = cm_checkpoint_version q - v" "v \<le> cm_checkpoint_version q" using Suc.hyps(2) q(2) by linarith+
  obtain p where p: "published pb c p" "cm_checkpoint_version p = v" "progress_kept q p"
    using Suc.hyps(1) [OF _ q(1)] le by auto
  then show ?case using progress_kept_trans [OF q(3) p(3)] by blast
qed

end
