(* ===== verification/Checkpoint_Laws.thy ===== *)
theory Checkpoint_Laws
  imports Checkpoint_Lineage
begin

text \<open>
  What the operations of the publisher do to a shared store. Reads return objects that were there at some
  moment of the call; where the other clients keep durable objects, what has been read is still there at
  the end. From these facts follow the refinement of the publication by the steps of the protocol and what
  the listing and the latest manifest return.
\<close>

section \<open>Reads\<close>

text \<open>A store whose other clients keep the durable objects.\<close>

definition shared_store :: "('s, 'b) checkpoint_publisher \<Rightarrow> ('s \<Rightarrow> 'b objects) \<Rightarrow> ('b objects \<Rightarrow> 'b objects \<Rightarrow> bool) \<Rightarrow> bool" where
  "shared_store pb objects others \<longleftrightarrow> store_laws (cp_store pb) objects others \<and> (\<forall>c d. others c d \<longrightarrow> grows c d)"

lemma shared_laws: "shared_store pb objects others \<Longrightarrow> store_laws (cp_store pb) objects others"
  by (simp add: shared_store_def)

lemma shared_grows: "shared_store pb objects others \<Longrightarrow> others c d \<Longrightarrow> grows c d"
  by (simp add: shared_store_def)

lemmas shared_moves = stored_refl [OF shared_laws] stored_trans [OF shared_laws] read_only_moves [OF shared_laws]

lemmas shared_facts = shared_laws stored_refl [OF shared_laws] stored_trans [OF shared_laws]

lemma get_stored:
  assumes "shared_store pb objects others" "os_get (cp_store pb) k s = (Inr b, t)" "durable k"
  shows "objects t k = Some b"
proof -
  obtain e where "moment others (objects s) (objects t) e" "e k = Some b"
    using store_get [OF shared_laws [OF assms(1)] assms(2)] by blast
  then show ?thesis using shared_grows [OF assms(1)] assms(3) unfolding moment_def grows_def by blast
qed

lemma get_kept:
  assumes "shared_store pb objects others" "os_get (cp_store pb) k s = (Inr b, t)" "durable k" "objects s k = Some b'"
  shows "b = b'"
proof -
  obtain e where "moment others (objects s) (objects t) e" "e k = Some b"
    using store_get [OF shared_laws [OF assms(1)] assms(2)] by blast
  then have "e k = Some b'" using shared_grows [OF assms(1)] assms(3,4) unfolding moment_def grows_def by blast
  with \<open>e k = Some b\<close> show ?thesis by simp
qed

lemma head_stored:
  assumes "shared_store pb objects others" "os_head (cp_store pb) k s = (Inr (), t)" "durable k"
  shows "objects t k \<noteq> None"
proof -
  obtain e where "moment others (objects s) (objects t) e" "e k \<noteq> None"
    using store_head [OF shared_laws [OF assms(1)] assms(2)] by blast
  then show ?thesis using shared_grows [OF assms(1)] assms(3) unfolding moment_def grows_def by blast
qed

lemma listing_kept:
  assumes "\<And>c d. others c d \<Longrightarrow> grows c d" "listing others P c d ks" "P k" "durable k" "c k \<noteq> None"
  shows "k \<in> set ks"
  using assms unfolding listing_def moment_def grows_def by (metis not_None_eq)

lemma check_manifest_bytes_iff:
  "check_manifest_bytes pb k b = Inr m \<longleftrightarrow> cp_manifest_from_slice pb b = Inr m \<and> manifest_ok m \<and> manifest_object_key m = k"
  by (auto simp: check_manifest_bytes_def res_simps manifest_validate_iff split: if_splits)

lemma parse_as_str: "object_key_parse v = Inr k \<Longrightarrow> k = ObjectKey v"
  by (auto simp: object_key_parse_def res_simps split: if_splits)

subsection \<open>Reads only move with the other clients\<close>

lemma read_moves [moves_intros]:
  assumes "shared_store pb objects others"
  shows "moves (stored objects others) (state_object_exists pb ref)" "moves (stored objects others) (output_object_head pb out)"
    "moves (stored objects others) (read_parent_manifest pb v w)" "moves (stored objects others) (read_listed_manifest pb k)"
    "moves (stored objects others) (read_ownership_epoch_record_object pb key)"
    "moves (stored objects others) (future_checkpoint_manifest_exists pb key)"
    "moves (stored objects others) (read_checkpoint_lifecycle_record pb v)"
  using assms shared_facts [OF assms]
  by (auto simp: state_object_exists_def output_object_head_def read_parent_manifest_def read_listed_manifest_def Let_def
    read_ownership_epoch_record_object_def future_checkpoint_manifest_exists_def read_checkpoint_lifecycle_record_def
    intro!: moves_intros split: sum.splits)

lemma check_moves [moves_intros]:
  assumes "shared_store pb objects others"
  shows "moves (stored objects others) (validate_parent_manifest_visible pb m)"
    "moves (stored objects others) (validate_state_objects_exist pb m)"
    "moves (stored objects others) (validate_output_objects_exist pb m)"
    "moves (stored objects others) (read_listed_record pb stream p k)"
  using assms shared_facts [OF assms]
  by (auto simp: validate_parent_manifest_visible_def validate_state_objects_exist_def validate_output_objects_exist_def
    read_listed_record_def intro!: moves_intros split: option.splits)

lemma list_moves [moves_intros]:
  assumes "shared_store pb objects others"
  shows "moves (stored objects others) (preflight_manifest_publication pb m)"
    "moves (stored objects others) (list_published_manifests pb)"
    "moves (stored objects others) (list_ownership_epoch_records pb stream p)"
    "moves (stored objects others) (try_latest_manifest_from_candidate_marker pb)"
  using assms shared_facts [OF assms]
  by (auto simp: preflight_manifest_publication_def list_published_manifests_def list_ownership_epoch_records_def
    try_latest_manifest_from_candidate_marker_def Let_def intro!: moves_intros split: sum.splits)

lemma fence_moves [moves_intros]:
  assumes "shared_store pb objects others"
  shows "moves (stored objects others) (validate_owner_claim_current pb ps claim)"
    "moves (stored objects others) (validate_matching_ownership_epoch_record_visible pb stream p claim)"
    "moves (stored objects others) (validate_no_newer_visible_ownership_epoch_record pb stream p claim)"
    "moves (stored objects others) (latest_manifest_from_candidate_marker pb)"
  using assms shared_facts [OF assms]
  by (auto simp: validate_owner_claim_current_def validate_matching_ownership_epoch_record_visible_def
    validate_no_newer_visible_ownership_epoch_record_def latest_manifest_from_candidate_marker_def
    intro!: moves_intros split: sum.splits)

lemma production_moves [moves_intros]:
  assumes "shared_store pb objects others"
  shows "moves (stored objects others) (validate_production_owner_claim_current pb stream p claim)"
    "moves (stored objects others) (validate_manifest_production_owner_claims_current pb m claim)"
    "moves (stored objects others) (latest_manifest pb)"
  using assms shared_facts [OF assms]
  by (auto simp: validate_production_owner_claim_current_def validate_manifest_production_owner_claims_current_def
    validate_progress_owner_def latest_manifest_def intro!: moves_intros split: option.splits)

subsection \<open>What a successful check shows\<close>

lemma parent_visible:
  assumes sh: "shared_store pb objects others" and ok: "manifest_ok m"
    and run: "validate_parent_manifest_visible pb m s = (Inr u, t)"
  shows "parent_published pb (objects t) m"
proof (cases "cm_parent_checkpoint m")
  case (Some v)
  with run obtain p w where p: "read_parent_manifest pb (cm_checkpoint_version m) v s = (Inr p, t)"
      "validate_child_input_progress m p = Inr u"
    by (auto simp: validate_parent_manifest_visible_def action_simps)
  then obtain b where b: "os_get (cp_store pb) (as_str (checkpoint_manifest_key v)) s = (Inr b, t)"
      "check_manifest_bytes pb (checkpoint_manifest_key v) b = Inr p"
    by (auto simp: read_parent_manifest_def Let_def action_simps split: if_splits)
  have "objects t (as_str (checkpoint_manifest_key v)) = Some b" using get_stored [OF sh b(1)] by simp
  with b(2) have "published pb (objects t) p \<and> cm_checkpoint_version p = v"
    by (auto simp: check_manifest_bytes_iff published_def manifest_object_key_def manifest_key_inject)
  moreover have "progress_kept m p" using p(2) by (simp add: validate_child_iff [OF ok])
  ultimately show ?thesis using Some by (auto simp: parent_published_def)
qed (simp add: parent_published_def)

lemma state_objects_stored:
  assumes sh: "shared_store pb objects others" and ok: "manifest_ok m"
    and run: "validate_state_objects_exist pb m s = (Inr u, t)" and ref: "ref \<in> set (cm_state_objects m)"
  shows "objects t (as_str (sr_object_key ref)) \<noteq> None"
proof -
  note m = shared_moves [OF sh] read_moves [OF sh]
  let ?f = "\<lambda>ref. bind (state_object_exists pb ref) (\<lambda>exists.
       lift (if \<not> exists then Inl (MissingStateObject (sr_object_key ref)) else Inr ()))"
  have "moves (stored objects others) (?f ref)" for ref using sh shared_facts [OF sh] by (auto intro!: moves_intros)
  then obtain s' t' where "?f ref s' = (Inr (), t')" and t: "others (objects t') (objects t)"
    using each_member [OF m(1,2) _ run [unfolded validate_state_objects_exist_def] ref] by blast
  then have "os_head (cp_store pb) (as_str (sr_object_key ref)) s' = (Inr (), t')"
    by (auto simp: state_object_exists_def action_simps split: if_splits)
  moreover have d: "durable (as_str (sr_object_key ref))"
    by (rule refs_durable [OF ok]) (use ref in \<open>force simp: object_refs_def\<close>)
  ultimately have "objects t' (as_str (sr_object_key ref)) \<noteq> None" by (rule head_stored [OF sh])
  with t d show ?thesis using shared_grows [OF sh] unfolding grows_def by blast
qed

lemma output_objects_stored:
  assumes sh: "shared_store pb objects others" and ok: "manifest_ok m"
    and run: "validate_output_objects_exist pb m s = (Inr u, t)" and ref: "ref \<in> set (cm_output_objects m)"
  shows "objects t (as_str (or_object_key ref)) \<noteq> None"
proof -
  note m = shared_moves [OF sh] read_moves [OF sh]
  from run obtain us where us: "join_all (output_object_head pb) (cm_output_objects m) s = (Inr us, t)"
    unfolding validate_output_objects_exist_def bind_iff lift_iff by blast
  have "list_all2 (\<lambda>x y. \<exists>s' t'. others (objects s) (objects s') \<and> output_object_head pb x s' = (Inr y, t')
      \<and> others (objects t') (objects t)) (cm_output_objects m) us"
    by (rule join_all_members [OF m(1,2) _ us]) (use m in blast)
  then obtain s' t' y where "output_object_head pb ref s' = (Inr y, t')" and t: "others (objects t') (objects t)"
    using ref by (auto simp: list_all2_conv_all_nth in_set_conv_nth)
  then have "os_head (cp_store pb) (as_str (or_object_key ref)) s' = (Inr (), t')"
    by (auto simp: output_object_head_def action_simps split: if_splits)
  moreover have d: "durable (as_str (or_object_key ref))"
    by (rule refs_durable [OF ok]) (use ref in \<open>force simp: object_refs_def\<close>)
  ultimately have "objects t' (as_str (or_object_key ref)) \<noteq> None" by (rule head_stored [OF sh])
  with t d show ?thesis using shared_grows [OF sh] unfolding grows_def by blast
qed

lemma objects_exist:
  assumes sh: "shared_store pb objects others" and ok: "manifest_ok m"
    and states: "validate_state_objects_exist pb m s = (Inr u, w)"
    and outputs: "validate_output_objects_exist pb m w = (Inr u', t)"
  shows "refs_stored (objects t) m"
proof -
  have "others (objects w) (objects t)" using movesD [OF check_moves(3) [OF sh] outputs] .
  then have "grows (objects w) (objects t)" by (rule shared_grows [OF sh])
  then have "objects t (as_str (sr_object_key ref)) \<noteq> None" if "ref \<in> set (cm_state_objects m)" for ref
    using state_objects_stored [OF sh ok states that] refs_durable [OF ok, of "sr_object_key ref"] that
    by (force simp: grows_def object_refs_def)
  then show ?thesis using output_objects_stored [OF sh ok outputs] by (force simp: refs_stored_def object_refs_def)
qed

end
