(* ===== verification/Checkpoint_Refinement.thy ===== *)
theory Checkpoint_Refinement
  imports Checkpoint_Laws
begin

text \<open>
  Every write of the publisher is a sequence of steps of the protocol, whatever its result, and a
  publication that returns \<open>Ok\<close> has published its manifest on the lineage.
\<close>

section \<open>A store that publishers share\<close>

text \<open>The fields of a manifest hold values of their Rust types.\<close>

definition claim_fits :: "partition_owner_claim option \<Rightarrow> bool" where
  "claim_fits c = (case c of None \<Rightarrow> True | Some claim \<Rightarrow> oc_owner_epoch claim \<le> u64_max_value)"

definition manifest_fits :: "checkpoint_manifest \<Rightarrow> bool" where
  "manifest_fits m \<longleftrightarrow> cm_checkpoint_version m \<le> u64_max_value
     \<and> list_all (\<lambda>r. ir_partition_id r \<le> u32_max_value \<and> ir_end_offset_exclusive r \<le> u64_max_value) (cm_input_ranges m)
     \<and> list_all (\<lambda>r. sr_partition_id r \<le> u32_max_value \<and> claim_fits (sr_owner_claim r)) (cm_state_objects m)
     \<and> list_all (\<lambda>r. or_partition_id r \<le> u32_max_value \<and> or_end_offset_exclusive r \<le> u64_max_value
          \<and> claim_fits (or_owner_claim r)) (cm_output_objects m)"

text \<open>\<open>serde_json\<close> reads back the valid manifests that it has written.\<close>

definition manifest_codec :: "('s, 'b) checkpoint_publisher \<Rightarrow> bool" where
  "manifest_codec pb \<longleftrightarrow> (\<forall>m b. manifest_ok m \<longrightarrow> manifest_fits m \<longrightarrow> cp_manifest_to_vec pb m = Inr b \<longrightarrow>
     cp_manifest_from_slice pb b = Inr m)"

text \<open>The other clients of the store follow the protocol.\<close>

definition protocol_store :: "('s, 'b) checkpoint_publisher \<Rightarrow> ('s \<Rightarrow> 'b objects) \<Rightarrow> bool" where
  "protocol_store pb objects \<longleftrightarrow> store_laws (cp_store pb) objects (commit_steps pb)"

lemma protocol_shared: "protocol_store pb objects \<Longrightarrow> shared_store pb objects (commit_steps pb)"
  by (auto simp: protocol_store_def shared_store_def dest: commit_steps_grows)

lemmas protocol_laws = shared_laws [OF protocol_shared]

lemmas protocol_facts = protocol_shared shared_facts [OF protocol_shared]

section \<open>Writes\<close>

lemma create_payload_moves:
  assumes "protocol_store pb objects" "under ''v1/state'' k \<or> under ''v1/outputs'' k \<or> under ''v1/ownership'' k"
  shows "moves (stored objects (commit_steps pb)) (os_create (cp_store pb) k b)"
  by (rule movesI, rule store_create_moves [OF protocol_laws [OF assms(1)]])
    (use assms(2) in \<open>auto intro: commit_step.write_payload\<close>)

lemma create_index_moves:
  assumes "protocol_store pb objects" "\<not> durable k"
  shows "moves (stored objects (commit_steps pb)) (os_create (cp_store pb) k b)"
    and "moves (stored objects (commit_steps pb)) (os_put (cp_store pb) k b)"
proof -
  have step: "commit_steps pb e (e(k \<mapsto> b))" for e
    by (rule r_into_rtranclp) (rule commit_step.write_index [OF assms(2)])
  show "moves (stored objects (commit_steps pb)) (os_create (cp_store pb) k b)"
    by (rule movesI, erule store_create_moves [OF protocol_laws [OF assms(1)]]) (rule step)
  show "moves (stored objects (commit_steps pb)) (os_put (cp_store pb) k b)"
    by (rule movesI, erule store_put_moves [OF protocol_laws [OF assms(1)]]) (rule step)
qed

lemma index_moves:
  assumes "protocol_store pb objects"
  shows "moves (stored objects (commit_steps pb)) (best_effort_publish_lifecycle_record pb m b)"
    and "moves (stored objects (commit_steps pb)) (best_effort_publish_latest_candidate_marker pb m b)"
  using protocol_facts [OF assms] create_index_moves [OF assms not_durable(1)] create_index_moves [OF assms not_durable(2)]
  by (auto simp: best_effort_publish_lifecycle_record_def best_effort_publish_latest_candidate_marker_def Let_def
    intro!: moves_intros split: sum.splits)

lemma write_moves:
  assumes "protocol_store pb objects"
  shows "state_object owner p c i = Inr (sw_object_key w) \<Longrightarrow> moves (stored objects (commit_steps pb)) (write_state_object pb w)"
    and "output_object stream p' c' a b j = Inr (ow_write_object_key out) \<Longrightarrow>
      moves (stored objects (commit_steps pb)) (write_output_object pb out)"
    and "moves (stored objects (commit_steps pb)) (create_ownership_epoch_record pb record)"
proof -
  note facts = protocol_facts [OF assms]
  note create = create_payload_moves [OF assms]
  show "moves (stored objects (commit_steps pb)) (write_state_object pb w)" if "state_object owner p c i = Inr (sw_object_key w)"
    using facts create under_state [OF that] by (auto simp: write_state_object_def intro!: moves_intros)
  show "moves (stored objects (commit_steps pb)) (write_output_object pb out)"
    if "output_object stream p' c' a b j = Inr (ow_write_object_key out)"
    using facts create under_output [OF that] by (auto simp: write_output_object_def intro!: moves_intros)
  show "moves (stored objects (commit_steps pb)) (create_ownership_epoch_record pb record)"
  proof (cases "record_object_key record")
    case (Inl e)
    then show ?thesis using facts
      by (auto simp: create_ownership_epoch_record_def bind_def lift_def moves_def reflp_def split: sum.splits)
  next
    case (Inr key)
    then have "under ''v1/ownership'' (as_str key)" by (auto simp: record_object_key_def intro: under_ownership)
    then have "moves (stored objects (commit_steps pb)) (os_create (cp_store pb) (as_str key) b)" for b using create by blast
    then have "moves (stored objects (commit_steps pb)) (bind (lift (rmap_err PublishObjectKey (record_object_key record))) (\<lambda>object_key.
       bind (of_json (cp_record_to_vec pb record)) (\<lambda>bytes.
       on_result (os_create (cp_store pb) (as_str object_key) bytes) (\<lambda>result.
         case result of
           Inr _ \<Rightarrow> lift (Inr object_key)
         | Inl err \<Rightarrow>
             if err = AlreadyExists then
               bind (read_ownership_epoch_record_object pb object_key) (\<lambda>existing.
                 lift (if existing = record then Inr object_key else Inl (OwnershipEpochRecordConflict object_key)))
             else lift (Inl (PublishStore err))))))"
      using facts unfolding Inr rmap_err_simps bind_lift by (auto intro!: moves_intros split: sum.splits)
    then show ?thesis using facts unfolding create_ownership_epoch_record_def by (auto intro!: moves_intros)
  qed
qed

section \<open>Publication\<close>

text \<open>What the other clients keep, an action keeps.\<close>

lemma moves_triple: "moves R m \<Longrightarrow> (\<And>s t. R s t \<Longrightarrow> P s \<Longrightarrow> P t) \<Longrightarrow> triple R P m (when_ok (\<lambda>_. P))"
  by (auto intro!: tripleI dest: movesD)

lemma preflight_triple:
  assumes "shared_store pb objects others"
  shows "triple (stored objects others) (\<lambda>_. True) (preflight_manifest_publication pb m)
    (when_ok (\<lambda>_ t. manifest_ok m \<and> parent_published pb (objects t) m))"
  by (rule tripleI, rule conjI [OF movesD [OF list_moves(1) [OF assms]]], assumption)
    (auto simp: preflight_manifest_publication_def action_simps res_simps manifest_validate_iff intro: parent_visible [OF assms])

text \<open>The conditional create of a manifest whose parent and objects are there is a step of the protocol.\<close>

lemma create_manifest_triple:
  assumes pr: "protocol_store pb objects" and b: "cp_manifest_from_slice pb b = Inr m"
  shows "triple (stored objects (commit_steps pb))
    (\<lambda>s. manifest_ok m \<and> parent_published pb (objects s) m \<and> refs_stored (objects s) m)
    (os_create (cp_store pb) (as_str (manifest_object_key m)) b)
    (when_ok (\<lambda>_ t. published pb (objects t) m \<and> parent_published pb (objects t) m \<and> refs_stored (objects t) m))"
proof (rule tripleI)
  fix s r t
  assume P: "manifest_ok m \<and> parent_published pb (objects s) m \<and> refs_stored (objects s) m"
    and run: "os_create (cp_store pb) (as_str (manifest_object_key m)) b s = (r, t)"
  have "commit_steps pb e (e(as_str (manifest_object_key m) \<mapsto> b))"
    if "commit_steps pb (objects s) e" "e (as_str (manifest_object_key m)) = None" for e
    using P b that commit_steps_grows [OF that(1)]
    by (blast intro: r_into_rtranclp commit_manifest parent_published_mono refs_stored_mono)
  then have steps: "commit_steps pb (objects s) (objects t)"
    by (rule store_create_moves [OF protocol_laws [OF pr] run])
  moreover have "published pb (objects t) m" if ok: "r = Inr ()"
  proof -
    obtain e where "commit_steps pb (e(as_str (manifest_object_key m) \<mapsto> b)) (objects t)"
      using store_create_ok [OF protocol_laws [OF pr] run [unfolded ok]] by blast
    moreover have "published pb (e(as_str (manifest_object_key m) \<mapsto> b)) m" using P b by (simp add: published_def)
    ultimately show ?thesis by (blast intro: published_mono commit_steps_grows)
  qed
  ultimately show "commit_steps pb (objects s) (objects t) \<and> (\<forall>x. r = Inr x \<longrightarrow>
      published pb (objects t) m \<and> parent_published pb (objects t) m \<and> refs_stored (objects t) m)"
    using P commit_steps_grows [OF steps] by (auto intro: parent_published_mono refs_stored_mono)
qed

lemma objects_exist_triple:
  assumes "shared_store pb objects others" "manifest_ok m"
  shows "triple (stored objects others) (\<lambda>_. True)
    (bind (validate_state_objects_exist pb m) (\<lambda>_. validate_output_objects_exist pb m)) (when_ok (\<lambda>_ t. refs_stored (objects t) m))"
proof -
  have "moves (stored objects others) (bind (validate_state_objects_exist pb m) (\<lambda>_. validate_output_objects_exist pb m))"
    using shared_facts [OF assms(1)] check_moves [OF assms(1)] by (intro moves_bind)
  then show ?thesis using objects_exist [OF assms] by (auto simp: bind_iff intro!: tripleI dest: movesD)
qed

lemma bind_assoc: "bind m (\<lambda>x. bind (f x) g) = bind (bind m f) g"
  by (auto simp: fun_eq_iff bind_def split: prod.splits sum.splits)

lemma publish_triple:
  assumes pr: "protocol_store pb objects" and codec: "manifest_codec pb" and fits: "manifest_fits m"
  shows "triple (stored objects (commit_steps pb)) (\<lambda>_. True) (publish_manifest pb m)
    (when_ok (\<lambda>_ t. published pb (objects t) m \<and> parent_published pb (objects t) m \<and> refs_stored (objects t) m))"
proof -
  let ?R = "stored objects (commit_steps pb)"
  note sh = protocol_shared [OF pr]
  note refl = stored_refl [OF shared_laws [OF sh]] and trans = stored_trans [OF shared_laws [OF sh]]
  let ?P = "\<lambda>t. manifest_ok m \<and> parent_published pb (objects t) m"
  let ?Q = "\<lambda>t. published pb (objects t) m \<and> parent_published pb (objects t) m \<and> refs_stored (objects t) m"
  have mono: "?Q t" if "?R s t" "?Q s" for s t
  proof -
    have "manifest_ok m" using that(2) by (simp add: published_def)
    then show ?thesis using that(2) commit_steps_grows [OF that(1)]
      by (blast intro: published_mono parent_published_mono refs_stored_mono)
  qed
  have objects: "triple ?R ?P (bind (validate_state_objects_exist pb m) (\<lambda>_. validate_output_objects_exist pb m))
      (when_ok (\<lambda>_ t. ?P t \<and> refs_stored (objects t) m))"
  proof (cases "manifest_ok m")
    case True
    show ?thesis by (rule triple_weaken [OF triple_frame [OF objects_exist_triple [OF sh True], of ?P]])
      (auto intro: parent_published_mono dest: commit_steps_grows)
  qed (simp add: triple_def)
  have markers: "triple ?R ?Q (bind (best_effort_publish_lifecycle_record pb m b) (\<lambda>_.
      bind (best_effort_publish_latest_candidate_marker pb m b) (\<lambda>_. lift (Inr ())))) (when_ok (\<lambda>_. ?Q))" for b
  proof (rule moves_triple [OF _ mono])
    show "moves ?R (bind (best_effort_publish_lifecycle_record pb m b) (\<lambda>_.
      bind (best_effort_publish_latest_candidate_marker pb m b) (\<lambda>_. lift (Inr ()))))"
      using refl trans index_moves [OF pr] by (intro moves_bind moves_lift)
  qed
  have commit: "triple ?R (\<lambda>s. ?P s \<and> refs_stored (objects s) m)
      (bind (of_json (cp_manifest_to_vec pb m)) (\<lambda>bytes.
       on_result (os_create (cp_store pb) (as_str (manifest_object_key m)) bytes) (\<lambda>result.
       case result of
         Inr _ \<Rightarrow>
           bind (best_effort_publish_lifecycle_record pb m bytes) (\<lambda>_.
           bind (best_effort_publish_latest_candidate_marker pb m bytes) (\<lambda>_. lift (Inr ())))
       | Inl err \<Rightarrow> lift (Inl (if err = AlreadyExists then ManifestAlreadyExists (manifest_object_key m) else PublishStore err)))))
      (when_ok (\<lambda>_. ?Q))"
  proof (cases "manifest_ok m")
    case ok: True
    show ?thesis
    proof (cases "cp_manifest_to_vec pb m")
      case (Inl e)
      then show ?thesis by (simp add: bind_lift triple_lift [OF refl])
    next
      case (Inr b)
      then have b: "cp_manifest_from_slice pb b = Inr m" using codec fits ok by (simp add: manifest_codec_def)
      have create: "triple ?R (\<lambda>s. ?P s \<and> refs_stored (objects s) m)
          (os_create (cp_store pb) (as_str (manifest_object_key m)) b) (when_ok (\<lambda>_. ?Q))"
        by (rule triple_weaken [OF create_manifest_triple [OF pr b]]) auto
      show ?thesis unfolding Inr rmap_err_simps bind_lift
      proof (rule triple_on_result [OF trans create])
        fix r :: "(store_error, unit) result"
        show "triple ?R (\<lambda>t. \<forall>x. r = Inr x \<longrightarrow> ?Q t) (case r of
            Inr _ \<Rightarrow>
              bind (best_effort_publish_lifecycle_record pb m b) (\<lambda>_.
              bind (best_effort_publish_latest_candidate_marker pb m b) (\<lambda>_. lift (Inr ())))
          | Inl err \<Rightarrow> lift (Inl (if err = AlreadyExists then ManifestAlreadyExists (manifest_object_key m) else PublishStore err)))
          (when_ok (\<lambda>_. ?Q))"
          using markers [of b] by (cases r) (simp_all add: triple_lift [OF refl])
      qed
    qed
  qed (simp add: triple_def)
  show ?thesis unfolding publish_manifest_def Let_def
    by (rule triple_bind [OF trans preflight_triple [OF sh]], subst bind_assoc,
      rule triple_bind [OF trans objects]) (rule commit)
qed

end
