(* ===== verification/Checkpoint_Listing.thy ===== *)
theory Checkpoint_Listing
  imports Checkpoint_Laws
begin

text \<open>
  What the listing of published manifests, the checks of owner claims and the latest manifest return on a
  store that other clients change at the same time.
\<close>

section \<open>The listing\<close>

lemma sorted_initial_segment:
  assumes "sorted (map f ms)" "distinct (map f ms)" "\<And>m. m \<in> set ms \<Longrightarrow> f m = 0 \<or> f m - 1 \<in> f ` set ms"
  shows "map f ms = [0..<length ms]"
proof -
  have down: "v \<in> f ` set ms" if "w \<in> f ` set ms" "v \<le> w" for v w :: nat
    using that
  proof (induction w)
    case (Suc w)
    then obtain m where m: "m \<in> set ms" "f m = Suc w" by auto
    then have "w \<in> f ` set ms" using assms(3) [OF m(1)] by simp
    with Suc m show ?case by (cases "v = Suc w") auto
  qed auto
  have "f ` set ms = {0..<card (f ` set ms)}"
  proof (cases "ms = []")
    case False
    define top where "top = Max (f ` set ms)"
    have "top \<in> f ` set ms" "\<forall>v \<in> f ` set ms. v \<le> top" using False by (simp_all add: top_def)
    then have "v \<in> f ` set ms \<longleftrightarrow> v < Suc top" for v using down [of top v] by (auto simp: less_Suc_eq_le)
    then have "f ` set ms = {0..<Suc top}" unfolding set_eq_iff atLeastLessThan_iff by simp
    then show ?thesis by simp
  qed simp
  moreover have "card (f ` set ms) = length ms" using assms(2) distinct_card [of "map f ms"] by simp
  ultimately have "set (map f ms) = set [0..<length ms]" by simp
  then show ?thesis using assms(1,2) by (simp add: sorted_distinct_set_unique)
qed

lemma read_listed_manifest_iff:
  "read_listed_manifest pb k s = (Inr m, t) \<longleftrightarrow> (\<exists>b. object_key_parse k = Inr (ObjectKey k) \<and> os_get (cp_store pb) k s = (Inr b, t)
     \<and> cp_manifest_from_slice pb b = Inr m \<and> manifest_ok m \<and> manifest_object_key m = ObjectKey k)"
  by (auto simp: read_listed_manifest_def action_simps res_simps check_manifest_bytes_iff dest: parse_as_str)

lemma lineage_check_iff:
  assumes "\<And>m. m \<in> set ms \<Longrightarrow> manifest_ok m" "distinct (map cm_checkpoint_version ms)"
  shows "validate_manifest_lineage ms = Inr u \<longleftrightarrow> (\<forall>m \<in> set ms. \<forall>v. cm_parent_checkpoint m = Some v \<longrightarrow>
    (\<exists>p \<in> set ms. cm_checkpoint_version p = v \<and> progress_kept m p))"
proof -
  let ?es = "map (\<lambda>m. (cm_checkpoint_version m, m)) ms"
  have d: "distinct (map fst ?es)" using assms(2) by (simp add: comp_def)
  have "(case cm_parent_checkpoint m of None \<Rightarrow> Inr () | Some v \<Rightarrow>
      (case hash_map ?es v of None \<Rightarrow> Inl (MissingParentManifest (cm_checkpoint_version m) v)
       | Some p \<Rightarrow> validate_child_input_progress m p)) = Inr () \<longleftrightarrow>
      (\<forall>v. cm_parent_checkpoint m = Some v \<longrightarrow> (\<exists>p \<in> set ms. cm_checkpoint_version p = v \<and> progress_kept m p))"
    if m: "m \<in> set ms" for m
  proof (cases "cm_parent_checkpoint m")
    case (Some v)
    show ?thesis
    proof (cases "hash_map ?es v")
      case None
      then have "cm_checkpoint_version p \<noteq> v" if "p \<in> set ms" for p using that by (auto simp: hash_map_None image_iff)
      then show ?thesis using Some None by auto
    next
      case p: (Some p)
      then have "p \<in> set ms \<and> cm_checkpoint_version p = v" unfolding hash_map_distinct [OF d] by auto
      moreover have "q = p" if "q \<in> set ms" "cm_checkpoint_version q = v" for q
        using p that hash_map_distinct [OF d, of v q] by (auto simp: image_iff)
      ultimately show ?thesis using Some p validate_child_iff [OF assms(1) [OF m]] by auto
    qed
  qed simp
  then show ?thesis by (simp add: validate_manifest_lineage_def rfold_check)
qed

text \<open>The manifests that a successful listing has read.\<close>

lemma listed_manifests:
  assumes sh: "shared_store pb objects others" and run: "list_published_manifests pb s = (Inr ms, t)"
  shows "\<forall>m \<in> set ms. published pb (objects t) m" "\<forall>m. published pb (objects s) m \<longrightarrow> m \<in> set ms"
    "map cm_checkpoint_version ms = [0..<length ms]" "validate_manifest_lineage ms = Inr ()"
proof -
  from run obtain ks rs u where ks: "os_list (cp_store pb) ''v1/checkpoints'' s = (Inr ks, u)"
      and rs: "join_all (read_listed_manifest pb) ks u = (Inr rs, t)"
      and ms: "ms = sort_key cm_checkpoint_version rs" "validate_manifest_lineage ms = Inr ()"
    by (auto simp: list_published_manifests_def action_simps Let_def)
  show "validate_manifest_lineage ms = Inr ()" by (rule ms(2))
  note R = stored_refl [OF shared_laws [OF sh]] stored_trans [OF shared_laws [OF sh]]
  have ls: "listing others (under ''v1/checkpoints'') (objects s) (objects u) ks" and su: "others (objects s) (objects u)"
    using store_list [OF shared_laws [OF sh] ks] by auto
  have reads: "list_all2 (\<lambda>k m. \<exists>s' t'. others (objects u) (objects s') \<and> read_listed_manifest pb k s' = (Inr m, t')
      \<and> others (objects t') (objects t)) ks rs"
    by (rule join_all_members [OF R _ rs]) (rule read_moves(4) [OF sh])
  have el: "manifest_object_key m = ObjectKey k \<and> published pb (objects t) m
      \<and> (\<forall>n. published pb (objects s) n \<longrightarrow> as_str (manifest_object_key n) = k \<longrightarrow> n = m)" if km: "(k, m) \<in> set (zip ks rs)" for k m
  proof -
    obtain s' t' where us: "others (objects u) (objects s')" and rd: "read_listed_manifest pb k s' = (Inr m, t')"
        and tt: "others (objects t') (objects t)"
      using reads km by (auto simp: list_all2_iff)
    then obtain b where b: "os_get (cp_store pb) k s' = (Inr b, t')" "cp_manifest_from_slice pb b = Inr m" "manifest_ok m"
        "manifest_object_key m = ObjectKey k"
      by (auto simp: read_listed_manifest_iff)
    have k: "durable k" using b(4) manifest_key_durable(1) [of m] by simp
    have "objects t k = Some b" using get_stored [OF sh b(1) k] shared_grows [OF sh tt] k unfolding grows_def by blast
    then have "published pb (objects t) m" using b by (auto simp: published_def)
    moreover have "n = m" if n: "published pb (objects s) n" "as_str (manifest_object_key n) = k" for n
    proof -
      obtain b' where b': "objects s k = Some b'" "cp_manifest_from_slice pb b' = Inr n" using n by (auto simp: published_def)
      then have "objects s' k = Some b'" using shared_grows [OF sh su] shared_grows [OF sh us] k unfolding grows_def by blast
      then have "b = b'" by (rule get_kept [OF sh b(1) k])
      then show ?thesis using b(2) b'(2) by simp
    qed
    ultimately show ?thesis using b(4) by blast
  qed
  have len: "length ks = length rs" using reads by (rule list_all2_lengthD)
  have set_ms: "set ms = set rs" by (simp add: ms(1))
  show pub: "\<forall>m \<in> set ms. published pb (objects t) m"
    unfolding set_ms using el len by (metis in_set_impl_in_set_zip2)
  show "\<forall>m. published pb (objects s) m \<longrightarrow> m \<in> set ms"
  proof (intro allI impI)
    fix n
    assume n: "published pb (objects s) n"
    have "as_str (manifest_object_key n) \<in> set ks"
      by (rule listing_kept [OF shared_grows [OF sh] ls]) (use n under_manifest in \<open>auto simp: published_def manifest_object_key_def\<close>)
    then obtain m where "(as_str (manifest_object_key n), m) \<in> set (zip ks rs)" using len by (metis in_set_impl_in_set_zip1)
    then show "n \<in> set ms" unfolding set_ms using el n by (metis in_set_zipE)
  qed
  have "map (\<lambda>v. as_str (checkpoint_manifest_key v)) (map cm_checkpoint_version rs) = ks"
    using el len by (intro nth_equalityI) (force simp: manifest_object_key_def set_zip)+
  then have "distinct (map cm_checkpoint_version rs)" using ls unfolding listing_def by (metis distinct_map)
  then have d: "distinct (map cm_checkpoint_version ms)" by (simp add: ms(1) distinct_map)
  have ok: "manifest_ok m" if "m \<in> set ms" for m using pub that by (simp add: published_def)
  show "map cm_checkpoint_version ms = [0..<length ms]"
  proof (rule sorted_initial_segment [OF _ d])
    show "sorted (map cm_checkpoint_version ms)" by (simp add: ms(1))
    fix m
    assume m: "m \<in> set ms"
    then have "cm_parent_checkpoint m = Some (cm_checkpoint_version m - 1)" if "cm_checkpoint_version m \<noteq> 0"
      using ok [OF m] that by (simp add: manifest_ok_def)
    then show "cm_checkpoint_version m = 0 \<or> cm_checkpoint_version m - 1 \<in> cm_checkpoint_version ` set ms"
      using lineage_check_iff [OF ok d] ms(2) m by (metis image_eqI)
  qed
qed

section \<open>Owner claims\<close>

text \<open>No claim that is visible for one of the partitions is newer than the attempted one or conflicts with it.\<close>

definition claim_current :: "('s, 'b) checkpoint_publisher \<Rightarrow> 'b objects \<Rightarrow> nat set \<Rightarrow> partition_owner_claim \<Rightarrow> bool" where
  "claim_current pb c partitions claim \<longleftrightarrow> (\<forall>m p current. published pb c m \<longrightarrow> (p, Some current) \<in> set (manifest_claims m) \<longrightarrow>
     p \<in> partitions \<longrightarrow> oc_owner_epoch current \<le> oc_owner_epoch claim
       \<and> (oc_owner_epoch current = oc_owner_epoch claim \<longrightarrow> oc_owner_id current = oc_owner_id claim))"

lemma check_current_claim_iff:
  "check_current_claim ps claim (p, c) = Inr u \<longleftrightarrow> (\<forall>current. c = Some current \<longrightarrow> p \<in> set ps \<longrightarrow>
     oc_owner_epoch current \<le> oc_owner_epoch claim
       \<and> (oc_owner_epoch current = oc_owner_epoch claim \<longrightarrow> oc_owner_id current = oc_owner_id claim))"
  by (auto simp: check_current_claim_def is_current_claim_newer_or_conflicting_def not_less split: option.splits)

lemma claim_checked:
  assumes sh: "shared_store pb objects others" and run: "validate_owner_claim_current pb ps claim s = (Inr u, t)"
  shows "claim_current pb (objects s) (set ps) claim"
proof -
  obtain ms w where ms: "list_published_manifests pb s = (Inr ms, w)"
      "\<forall>ref \<in> set (concat (map manifest_claims ms)). check_current_claim ps claim ref = Inr ()"
    using run by (auto simp: validate_owner_claim_current_def action_simps rfold_check)
  have "check_current_claim ps claim (p, Some current) = Inr ()"
    if "published pb (objects s) m" "(p, Some current) \<in> set (manifest_claims m)" for m p current
    using listed_manifests(2) [OF sh ms(1)] ms(2) that by auto
  then show ?thesis unfolding claim_current_def check_current_claim_iff by blast
qed

text \<open>The claim holds an ownership record, and no visible record of the partition is newer.\<close>

definition record_visible :: "('s, 'b) checkpoint_publisher \<Rightarrow> 'b objects \<Rightarrow> ownership_epoch_record \<Rightarrow> bool" where
  "record_visible pb c r \<longleftrightarrow> record_ok r \<and> (\<exists>k b. record_object_key r = Inr k \<and> c (as_str k) = Some b \<and> cp_record_from_slice pb b = Inr r)"

definition owner_recorded :: "('s, 'b) checkpoint_publisher \<Rightarrow> 'b objects \<Rightarrow> string \<Rightarrow> nat \<Rightarrow> partition_owner_claim \<Rightarrow> bool" where
  "owner_recorded pb c stream_id partition_id claim \<longleftrightarrow> (\<exists>r. record_visible pb c r \<and> er_owner_id r = oc_owner_id claim
     \<and> er_owner_epoch r = oc_owner_epoch claim \<and> record_object_key r = ownership_epoch_record_key stream_id partition_id (oc_owner_epoch claim))"

lemma read_record_iff:
  "read_ownership_epoch_record_object pb k s = (Inr r, t) \<longleftrightarrow> (\<exists>b. os_get (cp_store pb) (as_str k) s = (Inr b, t)
     \<and> cp_record_from_slice pb b = Inr r \<and> record_ok r \<and> record_object_key r = Inr k)"
  by (auto simp: read_ownership_epoch_record_object_def action_simps res_simps validate_object_key_iff)

lemma record_key_durable: "record_object_key r = Inr k \<Longrightarrow> durable (as_str k)"
  by (auto simp: record_object_key_def durable_def dest: under_ownership)

lemma matching_record:
  assumes sh: "shared_store pb objects others"
    and run: "validate_matching_ownership_epoch_record_visible pb stream p claim s = (Inr u, t)"
  shows "owner_recorded pb (objects t) stream p claim"
proof -
  obtain k r where k: "ownership_epoch_record_key stream p (oc_owner_epoch claim) = Inr k"
      and r: "read_ownership_epoch_record_object pb k s = (Inr r, t)"
      and c: "record_validate_owner_claim r k (oc_owner_id claim) (oc_owner_epoch claim) = Inr u"
    using run by (auto simp: validate_matching_ownership_epoch_record_visible_def action_simps res_simps split: if_splits)
  from r obtain b where b: "os_get (cp_store pb) (as_str k) s = (Inr b, t)" "cp_record_from_slice pb b = Inr r"
      "record_ok r" "record_object_key r = Inr k" by (auto simp: read_record_iff)
  have "objects t (as_str k) = Some b" by (rule get_stored [OF sh b(1) record_key_durable [OF b(4)]])
  then have "record_visible pb (objects t) r" using b by (auto simp: record_visible_def)
  moreover have "record_object_key r = ownership_epoch_record_key stream p (oc_owner_epoch claim)" using b(4) k by simp
  ultimately show ?thesis using c unfolding owner_recorded_def record_owner_claim_iff by blast
qed

lemma ownership_prefix:
  assumes "ownership_epoch_record_key stream p 0 = Inr k" "strip_suffix ''epoch=00000000000000000000.claim'' (as_str k) = Some prefix"
    and "ownership_epoch_record_key stream p e = Inr k'"
  shows "under prefix (as_str k')"
proof -
  define dir where "dir = ''v1/ownership/'' @ stream @ ''/'' @ partition_text p @ ''/''"
  define zero where "zero = ''epoch=00000000000000000000.claim''"
  have "epoch_text 0 @ ''.claim'' = zero" unfolding epoch_text_def checkpoint_width_def zero_def by code_simp
  moreover have str: "as_str key = dir @ epoch_text e @ ''.claim''" if "ownership_epoch_record_key stream p e = Inr key" for e key
    using that unfolding ownership_key_iff by (auto simp: dir_def)
  ultimately have "as_str k = dir @ zero" using assms(1) by metis
  moreover have "as_str k = prefix @ zero" using assms(2) unfolding zero_def [symmetric] strip_suffix_iff .
  ultimately have "dir = prefix" by simp
  moreover have "dir_of dir = dir" by (simp add: dir_of_def dir_def)
  ultimately show ?thesis using str [OF assms(3)] by (simp add: under_def)
qed

lemma listed_records:
  assumes sh: "shared_store pb objects others" and run: "list_ownership_epoch_records pb stream p s = (Inr rs, t)"
    and r: "record_visible pb (objects s) r" "er_stream_id r = stream" "er_partition_id r = p"
    and fits: "p \<le> u32_max_value" "er_owner_epoch r \<le> u64_max_value"
  shows "r \<in> set rs"
proof -
  obtain k0 prefix ks us w where k0: "ownership_epoch_record_key stream p 0 = Inr k0"
      and prefix: "strip_suffix ''epoch=00000000000000000000.claim'' (as_str k0) = Some prefix"
      and ks: "os_list (cp_store pb) prefix s = (Inr ks, w)"
      and us: "collect (read_listed_record pb stream p) ks w = (Inr us, t)" and rs: "rs = List.map_filter (\<lambda>r. r) us"
    using run unfolding list_ownership_epoch_records_def bind_iff lift_iff map_err_iff res_simps by blast
  obtain k b where k: "record_object_key r = Inr k" "objects s (as_str k) = Some b" "cp_record_from_slice pb b = Inr r"
    using r(1) by (auto simp: record_visible_def)
  have key: "ownership_epoch_record_key stream p (er_owner_epoch r) = Inr k" using k(1) r by (simp add: record_object_key_def)
  have d: "durable (as_str k)" by (rule record_key_durable [OF k(1)])
  have ls: "listing others (under prefix) (objects s) (objects w) ks" and sw: "others (objects s) (objects w)"
    using store_list [OF shared_laws [OF sh] ks] by auto
  have "as_str k \<in> set ks"
    by (rule listing_kept [OF shared_grows [OF sh] ls ownership_prefix [OF k0 prefix key] d]) (use k(2) in simp_all)
  moreover have "list_all2 (\<lambda>x y. \<exists>s' t'. others (objects w) (objects s') \<and> read_listed_record pb stream p x s' = (Inr y, t')
      \<and> others (objects t') (objects t)) ks us"
    by (rule collect_members [OF stored_refl [OF shared_laws [OF sh]] stored_trans [OF shared_laws [OF sh]] check_moves(4) [OF sh] us])
  ultimately obtain y s' t' where y: "y \<in> set us" and ws: "others (objects w) (objects s')"
      and rd: "read_listed_record pb stream p (as_str k) s' = (Inr y, t')"
    by (auto simp: list_all2_conv_all_nth in_set_conv_nth) (metis nth_mem)
  let ?parts = "\<lparr>ow_stream_id = stream, ow_partition_id = p, ow_owner_epoch = er_owner_epoch r\<rparr>"
  have "parse_ownership_epoch_record (as_str k) = Inr (k, ?parts)"
    by (rule ownership_epoch_record.roundtrip) (use key fits in
      \<open>auto simp: ownership_epoch_record_fits_def build_ownership_epoch_record_def ownership_key_iff\<close>)
  moreover obtain k' where "object_key_parse (as_str k) = Inr k'" using rd unfolding read_listed_record_def bind_iff lift_iff res_simps by blast
  moreover from this have "k' = k" by (auto dest: parse_as_str)
  ultimately obtain r' where r': "y = Some r'" "read_ownership_epoch_record_object pb k s' = (Inr r', t')"
    using rd by (auto simp: read_listed_record_def action_simps res_simps)
  then obtain b' where b': "os_get (cp_store pb) (as_str k) s' = (Inr b', t')" "cp_record_from_slice pb b' = Inr r'"
    by (auto simp: read_record_iff)
  have "objects s' (as_str k) = Some b"
    using shared_grows [OF sh sw] shared_grows [OF sh ws] k(2) d unfolding grows_def by blast
  then have "b' = b" by (rule get_kept [OF sh b'(1) d])
  then have "r' = r" using b'(2) k(3) by simp
  then show ?thesis using y r'(1) by (force simp: rs List.map_filter_def)
qed

text \<open>No visible record of the partition is newer than the claim or conflicts with it.\<close>

definition records_current :: "('s, 'b) checkpoint_publisher \<Rightarrow> 'b objects \<Rightarrow> string \<Rightarrow> nat \<Rightarrow> partition_owner_claim \<Rightarrow> bool" where
  "records_current pb c stream_id partition_id claim \<longleftrightarrow> (\<forall>r. record_visible pb c r \<longrightarrow> er_stream_id r = stream_id \<longrightarrow>
     er_partition_id r = partition_id \<longrightarrow> er_owner_epoch r \<le> u64_max_value \<longrightarrow>
     er_owner_epoch r \<le> oc_owner_epoch claim \<and> (er_owner_epoch r = oc_owner_epoch claim \<longrightarrow> er_owner_id r = oc_owner_id claim))"

lemma no_newer_record:
  assumes sh: "shared_store pb objects others"
    and run: "validate_no_newer_visible_ownership_epoch_record pb stream p claim s = (Inr u, t)" and p: "p \<le> u32_max_value"
  shows "records_current pb (objects s) stream p claim"
proof -
  let ?check = "\<lambda>record. let current = \<lparr>oc_owner_id = er_owner_id record, oc_owner_epoch = er_owner_epoch record\<rparr> in
         if is_current_claim_newer_or_conflicting current claim
         then Inl (StaleOwnerClaim p current claim) else Inr ()"
  obtain rs w where rs: "list_ownership_epoch_records pb stream p s = (Inr rs, w)" "\<forall>r \<in> set rs. ?check r = Inr ()"
    using run unfolding validate_no_newer_visible_ownership_epoch_record_def bind_iff lift_iff rfold_check by blast
  have "?check r = Inr ()" if "record_visible pb (objects s) r" "er_stream_id r = stream" "er_partition_id r = p"
      "er_owner_epoch r \<le> u64_max_value" for r
    using listed_records [OF sh rs(1) that(1-3) p that(4)] rs(2) by blast
  then have "\<not> is_current_claim_newer_or_conflicting \<lparr>oc_owner_id = er_owner_id r, oc_owner_epoch = er_owner_epoch r\<rparr> claim"
    if "record_visible pb (objects s) r" "er_stream_id r = stream" "er_partition_id r = p" "er_owner_epoch r \<le> u64_max_value" for r
    using that by (metis Inl_Inr_False)
  then show ?thesis unfolding records_current_def by (simp add: is_current_claim_newer_or_conflicting_def not_less)
qed

section \<open>The latest manifest\<close>

lemma max_by_key_None: "max_by_key f xs = None \<longleftrightarrow> xs = []"
  by (cases xs) (auto split: option.splits)

lemma max_by_key_Some: "max_by_key f xs = Some x \<Longrightarrow> x \<in> set xs \<and> (\<forall>y \<in> set xs. f y \<le> f x)"
proof (induction xs arbitrary: x)
  case (Cons y ys)
  show ?case
  proof (cases "max_by_key f ys")
    case None
    with Cons.prems show ?thesis by (auto simp: max_by_key_None)
  next
    case (Some z)
    with Cons.IH [OF Some] Cons.prems show ?thesis by (auto split: if_splits intro: order.trans less_imp_le)
  qed
qed simp

lemma manifest_key_less:
  assumes "v \<le> u64_max_value" "w \<le> u64_max_value"
  shows "as_str (checkpoint_manifest_key v) < as_str (checkpoint_manifest_key w) \<longleftrightarrow> v < w"
proof -
  have "v < 10 ^ checkpoint_width" "w < 10 ^ checkpoint_width" "0 < checkpoint_width"
    using assms by (simp_all add: u64_max_value_def checkpoint_width_def)
  then show ?thesis unfolding checkpoint_manifest_key_def object_key.sel
    by (simp only: less_append_same) (simp add: less_append_length length_pad pad_less)
qed

text \<open>A manifest that is read has fields of the Rust types.\<close>

definition manifest_types :: "('s, 'b) checkpoint_publisher \<Rightarrow> bool" where
  "manifest_types pb \<longleftrightarrow> (\<forall>b m. cp_manifest_from_slice pb b = Inr m \<longrightarrow> cm_checkpoint_version m \<le> u64_max_value)"

definition newest :: "('s, 'b) checkpoint_publisher \<Rightarrow> 'b objects \<Rightarrow> checkpoint_manifest \<Rightarrow> bool" where
  "newest pb c m \<longleftrightarrow> (\<forall>n. published pb c n \<longrightarrow> cm_checkpoint_version n \<le> cm_checkpoint_version m)"

lemma future_check:
  assumes sh: "shared_store pb objects others" and types: "manifest_types pb"
    and run: "future_checkpoint_manifest_exists pb (manifest_object_key m) s = (Inr False, t)"
    and m: "cm_checkpoint_version m \<le> u64_max_value"
  shows "newest pb (objects s) m"
proof -
  have ls: "os_list_with_offset (cp_store pb) ''v1/checkpoints'' (as_str (manifest_object_key m)) s = (Inr [], t)"
    using run by (auto simp: future_checkpoint_manifest_exists_def action_simps)
  have "cm_checkpoint_version n \<le> cm_checkpoint_version m" if n: "published pb (objects s) n" for n
  proof (rule ccontr)
    assume less: "\<not> ?thesis"
    have "as_str (manifest_object_key m) < as_str (manifest_object_key n)"
      using less n types m manifest_key_less [of "cm_checkpoint_version m" "cm_checkpoint_version n"]
      by (auto simp: manifest_object_key_def published_def manifest_types_def)
    then have "as_str (manifest_object_key n) \<in> set []"
      using listing_kept [OF shared_grows [OF sh] store_list_with_offset(2) [OF shared_laws [OF sh] ls refl],
          of "as_str (manifest_object_key n)"] n under_manifest [of "cm_checkpoint_version n"]
      by (auto simp: published_def manifest_object_key_def)
    then show False by simp
  qed
  then show ?thesis by (simp add: newest_def)
qed

lemma marker_run:
  assumes "try_latest_manifest_from_candidate_marker pb s = (Inr (Some m), t)"
  obtains s1 s2 s3 s4 s5 mb b where "os_get (cp_store pb) (as_str checkpoint_latest_candidate_marker) s = (Inr mb, s1)"
    "os_get (cp_store pb) (as_str (manifest_object_key m)) s1 = (Inr b, s2)" "cp_manifest_from_slice pb b = Inr m" "manifest_ok m"
    "validate_parent_manifest_visible pb m s2 = (Inr (), s3)" "validate_state_objects_exist pb m s3 = (Inr (), s4)"
    "validate_output_objects_exist pb m s4 = (Inr (), s5)"
    "future_checkpoint_manifest_exists pb (manifest_object_key m) s5 = (Inr False, t)"
  using assms by (auto simp: try_latest_manifest_from_candidate_marker_def action_simps res_simps manifest_validate_iff split: if_splits)

lemma newest_earlier: "newest pb d m \<Longrightarrow> grows c d \<Longrightarrow> newest pb c m"
  unfolding newest_def by (blast intro: published_mono)

lemma marker_latest:
  assumes sh: "shared_store pb objects others" and types: "manifest_types pb"
    and run: "try_latest_manifest_from_candidate_marker pb s = (Inr (Some m), t)"
  shows "published pb (objects t) m \<and> refs_stored (objects t) m \<and> newest pb (objects s) m"
proof -
  obtain s1 s2 s3 s4 s5 mb b where r1: "os_get (cp_store pb) (as_str checkpoint_latest_candidate_marker) s = (Inr mb, s1)"
    and r2: "os_get (cp_store pb) (as_str (manifest_object_key m)) s1 = (Inr b, s2)" "cp_manifest_from_slice pb b = Inr m"
    and ok: "manifest_ok m"
    and r3: "validate_parent_manifest_visible pb m s2 = (Inr (), s3)" and r4: "validate_state_objects_exist pb m s3 = (Inr (), s4)"
    and r5: "validate_output_objects_exist pb m s4 = (Inr (), s5)"
    and r6: "future_checkpoint_manifest_exists pb (manifest_object_key m) s5 = (Inr False, t)"
    using marker_run [OF run] .
  note moved = movesD [OF read_only_moves(1) [OF shared_laws [OF sh]] r1] movesD [OF read_only_moves(1) [OF shared_laws [OF sh]] r2(1)]
    movesD [OF check_moves(1) [OF sh] r3] movesD [OF check_moves(2) [OF sh] r4] movesD [OF check_moves(3) [OF sh] r5]
    movesD [OF read_moves(6) [OF sh] r6]
  have g: "grows (objects s) (objects s5)" "grows (objects s2) (objects t)" "grows (objects s5) (objects t)"
    using moved [THEN shared_grows [OF sh]] by (meson grows_trans)+
  have "published pb (objects s2) m" using get_stored [OF sh r2(1)] r2(2) ok by (auto simp: published_def)
  then have "published pb (objects t) m" using g(2) by (rule published_mono)
  moreover have "refs_stored (objects t) m" using refs_stored_mono [OF ok objects_exist [OF sh ok r4 r5] g(3)] .
  moreover have "newest pb (objects s5) m"
    by (rule future_check [OF sh types r6]) (use types r2(2) in \<open>auto simp: manifest_types_def\<close>)
  then have "newest pb (objects s) m" using g(1) by (rule newest_earlier)
  ultimately show ?thesis by blast
qed

lemma marker_found:
  "latest_manifest_from_candidate_marker pb s = (Inr (Some m), t) \<longleftrightarrow>
     try_latest_manifest_from_candidate_marker pb s = (Inr (Some m), t)"
proof -
  have "(case e of PublishStore err \<Rightarrow> Inl (PublishStore err) | MissingStateObject err \<Rightarrow> Inl (MissingStateObject err)
      | MissingOutputObject err \<Rightarrow> Inl (MissingOutputObject err) | _ \<Rightarrow> Inr None) \<noteq> Inr (Some m)" for e
    by (cases e) simp_all
  then show ?thesis by (auto simp: latest_manifest_from_candidate_marker_def on_result_iff lift_iff)
qed

lemma latest_found:
  assumes sh: "shared_store pb objects others" and types: "manifest_types pb" and run: "latest_manifest pb s = (Inr found, t)"
  shows "case found of
      None \<Rightarrow> \<forall>n. \<not> published pb (objects s) n
    | Some m \<Rightarrow> published pb (objects t) m \<and> refs_stored (objects t) m \<and> newest pb (objects s) m"
proof -
  from run obtain first u where first: "latest_manifest_from_candidate_marker pb s = (Inr first, u)"
    by (auto simp: latest_manifest_def action_simps)
  have su: "grows (objects s) (objects u)" using movesD [OF fence_moves(4) [OF sh] first] by (rule shared_grows [OF sh])
  show ?thesis
  proof (cases first)
    case (Some m)
    then have "try_latest_manifest_from_candidate_marker pb s = (Inr (Some m), u)" using first by (simp add: marker_found)
    moreover have "found = Some m" "u = t" using run first Some by (auto simp: latest_manifest_def action_simps)
    ultimately show ?thesis using marker_latest [OF sh types] by simp
  next
    case None
    then obtain ms w where ms: "list_published_manifests pb u = (Inr ms, w)"
        and rest: "(case max_by_key cm_checkpoint_version ms of None \<Rightarrow> lift (Inr None)
          | Some manifest \<Rightarrow> bind (validate_state_objects_exist pb manifest) (\<lambda>_.
              bind (validate_output_objects_exist pb manifest) (\<lambda>_. lift (Inr (Some manifest))))) w = (Inr found, t)"
      using run first by (auto simp: latest_manifest_def action_simps)
    have all: "n \<in> set ms" if "published pb (objects s) n" for n
      using listed_manifests(2) [OF sh ms] published_mono [OF that su] by blast
    show ?thesis
    proof (cases "max_by_key cm_checkpoint_version ms")
      case None
      then show ?thesis using rest all by (auto simp: max_by_key_None action_simps)
    next
      case (Some m)
      then obtain x where m: "found = Some m" "validate_state_objects_exist pb m w = (Inr (), x)"
          "validate_output_objects_exist pb m x = (Inr (), t)"
        using rest by (auto simp: action_simps)
      have pub: "published pb (objects w) m" using listed_manifests(1) [OF sh ms] max_by_key_Some [OF Some] by blast
      then have ok: "manifest_ok m" by (simp add: published_def)
      have "grows (objects w) (objects t)"
        using movesD [OF check_moves(2) [OF sh] m(2)] movesD [OF check_moves(3) [OF sh] m(3)] by (meson grows_trans shared_grows [OF sh])
      then have "published pb (objects t) m" by (rule published_mono [OF pub])
      moreover have "newest pb (objects s) m" using all max_by_key_Some [OF Some] by (auto simp: newest_def)
      ultimately show ?thesis using m objects_exist [OF sh ok m(2,3)] by simp
    qed
  qed
qed

section \<open>Garbage collection\<close>

lemma set_map_filter: "y \<in> set (List.map_filter f xs) \<longleftrightarrow> (\<exists>x \<in> set xs. f x = Some y)"
  by (force simp: List.map_filter_def)

lemma gc_candidates:
  assumes "add_unreferenced_candidates pb prefix kind referenced cs s = (Inr ds, t)" "d \<in> set ds" "d \<notin> set cs"
  shows "gc_kind d = kind \<and> matches_key kind (gc_object_key d) \<and> gc_object_key d \<notin> set referenced"
proof -
  obtain location where "(case object_key_parse location of Inl _ \<Rightarrow> None
      | Inr object_key \<Rightarrow> if matches_key kind object_key \<and> object_key \<notin> set referenced
          then Some \<lparr>gc_object_key = object_key, gc_kind = kind\<rparr> else None) = Some d"
    using assms by (auto simp: add_unreferenced_candidates_def action_simps set_map_filter)
  then show ?thesis by (cases "object_key_parse location") (auto split: if_splits)
qed

end
