(* ===== verification/Leased_Checkpoint.thy ===== *)
theory Leased_Checkpoint
  imports Checkpoint_Refinement Checkpoint_Listing
begin

text \<open>
  Publication of a checkpoint under a lease (\<open>velorix-control/src/leased_checkpoint.rs\<close>): the grant, the
  writes and the manifest are checked against each other, then the objects are written and the manifest is
  published, each step fenced by the claim of the grant.
\<close>

section \<open>Definitions\<close>

record ('s, 'b) leased_checkpoint_publisher =
  lp_publisher :: "('s, 'b) checkpoint_publisher"
  lp_production_authority_validated :: bool

datatype leased_checkpoint_error =
    ExpiredGrant nat nat
  | LeasedManifest manifest_error
  | MultiPartitionManifest "nat list"
  | PartitionMismatch string string nat nat
  | InputStreamMismatch string string
  | LeasedStateOwnerClaimMismatch object_key partition_owner_claim "partition_owner_claim option"
  | LeasedOutputOwnerClaimMismatch object_key partition_owner_claim "partition_owner_claim option"
  | StateRefsMismatch "state_object_ref list" "state_object_ref list"
  | OutputRefsMismatch "output_object_ref list" "output_object_ref list"
  | MissingProductionAuthorityEvidence
  | LeasedPublish checkpoint_publish_error

definition leased_new :: "('s, 'b) checkpoint_publisher \<Rightarrow> ('s, 'b) leased_checkpoint_publisher" where
  "leased_new publisher = \<lparr>lp_publisher = publisher, lp_production_authority_validated = False\<rparr>"

definition leased_new_authoritative :: "('s, 'b) checkpoint_publisher \<Rightarrow> authoritative_capabilities \<Rightarrow>
    (leased_checkpoint_error, ('s, 'b) leased_checkpoint_publisher) result" where
  "leased_new_authoritative publisher capabilities =
     rmap_err LeasedPublish
       (rbind (rmap_err PublishCapabilities (validate_namespace capabilities NsOutput)) (\<lambda>_.
        rbind (rmap_err PublishCapabilities (validate_namespace capabilities NsOwnership)) (\<lambda>_.
        rbind (publisher_new_authoritative publisher capabilities) (\<lambda>publisher.
          Inr \<lparr>lp_publisher = publisher, lp_production_authority_validated = True\<rparr>))))"

definition validate_grant_unexpired :: "partition_lease_grant \<Rightarrow> nat \<Rightarrow> (leased_checkpoint_error, unit) result" where
  "validate_grant_unexpired grant now_unix_ms =
     (if lg_expires_at_unix_ms grant \<le> now_unix_ms then Inl (ExpiredGrant (lg_expires_at_unix_ms grant) now_unix_ms)
      else Inr ())"

text \<open>\<open>sort_unstable\<close> and \<open>dedup\<close> of the partitions.\<close>

definition validate_single_grant_partition :: "partition_lease_grant \<Rightarrow> checkpoint_manifest \<Rightarrow> (leased_checkpoint_error, unit) result" where
  "validate_single_grant_partition grant manifest =
     (let partitions = remdups_adj (sort
          (map ir_partition_id (cm_input_ranges manifest) @ map sr_partition_id (cm_state_objects manifest)
           @ map or_partition_id (cm_output_objects manifest))) in
      if length partitions > 1 then Inl (MultiPartitionManifest partitions)
      else case partitions of
          [] \<Rightarrow> Inr ()
        | actual # _ \<Rightarrow>
            if actual \<noteq> lk_partition_id (lg_key grant)
            then Inl (PartitionMismatch ''manifest'' (dec (cm_checkpoint_version manifest)) (lk_partition_id (lg_key grant)) actual)
            else Inr ())"

definition validate_input_stream :: "partition_lease_grant \<Rightarrow> checkpoint_manifest \<Rightarrow> (leased_checkpoint_error, unit) result" where
  "validate_input_stream grant manifest =
     rfold (\<lambda>input_range _.
       if ir_stream_id input_range \<noteq> lk_stream_id (lg_key grant)
       then Inl (InputStreamMismatch (lk_stream_id (lg_key grant)) (ir_stream_id input_range)) else Inr ())
       (cm_input_ranges manifest) ()"

definition validate_state_writes :: "partition_lease_grant \<Rightarrow> partition_owner_claim \<Rightarrow> 'b state_object_write list \<Rightarrow>
    (leased_checkpoint_error, unit) result" where
  "validate_state_writes grant owner_claim state_objects =
     rfold (\<lambda>state _.
       if sw_partition_id state \<noteq> lk_partition_id (lg_key grant)
       then Inl (PartitionMismatch ''state'' (sw_object_id state) (lk_partition_id (lg_key grant)) (sw_partition_id state))
       else if sw_owner_claim state \<noteq> Some owner_claim
       then Inl (LeasedStateOwnerClaimMismatch (sw_object_key state) owner_claim (sw_owner_claim state))
       else Inr ()) state_objects ()"

definition validate_output_writes :: "partition_lease_grant \<Rightarrow> partition_owner_claim \<Rightarrow> 'b output_object_write list \<Rightarrow>
    (leased_checkpoint_error, unit) result" where
  "validate_output_writes grant owner_claim output_objects =
     rfold (\<lambda>out _.
       if ow_write_partition_id out \<noteq> lk_partition_id (lg_key grant)
       then Inl (PartitionMismatch ''output'' (ow_write_object_id out) (lk_partition_id (lg_key grant)) (ow_write_partition_id out))
       else if ow_write_owner_claim out \<noteq> Some owner_claim
       then Inl (LeasedOutputOwnerClaimMismatch (ow_write_object_key out) owner_claim (ow_write_owner_claim out))
       else Inr ()) output_objects ()"

definition validate_manifest_refs_match_writes :: "checkpoint_manifest \<Rightarrow> 'b state_object_write list \<Rightarrow> 'b output_object_write list \<Rightarrow>
    (leased_checkpoint_error, unit) result" where
  "validate_manifest_refs_match_writes manifest state_objects output_objects =
     (let expected_state_refs = map sw_object_ref state_objects;
          expected_output_refs = map ow_object_ref output_objects in
      if cm_state_objects manifest \<noteq> expected_state_refs
      then Inl (StateRefsMismatch expected_state_refs (cm_state_objects manifest))
      else if cm_output_objects manifest \<noteq> expected_output_refs
      then Inl (OutputRefsMismatch expected_output_refs (cm_output_objects manifest))
      else Inr ())"

type_synonym ('s, 'a) leased_action = "('s, leased_checkpoint_error, 'a) action"

abbreviation (input) of_publish :: "('s, 'a) publication \<Rightarrow> ('s, 'a) leased_action" where
  "of_publish m \<equiv> map_err LeasedPublish m"

text \<open>The checks that both kinds of publication run before the first write.\<close>

definition leased_checks :: "partition_lease_grant \<Rightarrow> nat \<Rightarrow> 'b state_object_write list \<Rightarrow> 'b output_object_write list \<Rightarrow>
    checkpoint_manifest \<Rightarrow> (leased_checkpoint_error, unit) result" where
  "leased_checks grant now_unix_ms state_objects output_objects manifest =
     rbind (validate_grant_unexpired grant now_unix_ms) (\<lambda>_.
     rbind (rmap_err LeasedManifest (manifest_validate manifest)) (\<lambda>_.
     rbind (validate_single_grant_partition grant manifest) (\<lambda>_.
     rbind (validate_input_stream grant manifest) (\<lambda>_.
     rbind (validate_state_writes grant (claim_from_grant grant) state_objects) (\<lambda>_.
     rbind (validate_output_writes grant (claim_from_grant grant) output_objects) (\<lambda>_.
       validate_manifest_refs_match_writes manifest state_objects output_objects))))))"

definition leased_publish :: "('s, 'b) leased_checkpoint_publisher \<Rightarrow> partition_lease_grant \<Rightarrow> nat \<Rightarrow> 'b state_object_write list \<Rightarrow>
    'b output_object_write list \<Rightarrow> checkpoint_manifest \<Rightarrow> ('s, unit) leased_action" where
  "leased_publish self grant now_unix_ms state_objects output_objects manifest =
     (let owner_claim = claim_from_grant grant in
      bind (lift (leased_checks grant now_unix_ms state_objects output_objects manifest)) (\<lambda>_.
      bind (of_publish (preflight_manifest_publication (lp_publisher self) manifest)) (\<lambda>_.
      bind (each (\<lambda>state. bind (of_publish (write_state_object_fenced (lp_publisher self) state owner_claim)) (\<lambda>_. lift (Inr ())))
          state_objects) (\<lambda>_.
      bind (each (\<lambda>out. bind (of_publish (write_output_object_fenced (lp_publisher self) out owner_claim)) (\<lambda>_. lift (Inr ())))
          output_objects) (\<lambda>_.
        of_publish (publish_manifest_fenced (lp_publisher self) manifest owner_claim))))))"

definition leased_publish_production :: "('s, 'b) leased_checkpoint_publisher \<Rightarrow> partition_lease_grant \<Rightarrow> nat \<Rightarrow>
    'b state_object_write list \<Rightarrow> 'b output_object_write list \<Rightarrow> checkpoint_manifest \<Rightarrow> ('s, unit) leased_action" where
  "leased_publish_production self grant now_unix_ms state_objects output_objects manifest =
     (if \<not> lp_production_authority_validated self then lift (Inl MissingProductionAuthorityEvidence)
      else
        let owner_claim = claim_from_grant grant in
        bind (lift (leased_checks grant now_unix_ms state_objects output_objects manifest)) (\<lambda>_.
        bind (of_publish (preflight_manifest_publication (lp_publisher self) manifest)) (\<lambda>_.
        bind (collect (\<lambda>state. of_publish (write_state_object_fenced_production (lp_publisher self) state
            (lk_stream_id (lg_key grant)) owner_claim)) state_objects) (\<lambda>produced_state_refs.
        bind (each (\<lambda>out. bind (of_publish (write_output_object_fenced_production (lp_publisher self) out owner_claim)) (\<lambda>_. lift (Inr ())))
            output_objects) (\<lambda>_.
        let published_manifest = manifest\<lparr>cm_state_objects := produced_state_refs\<rparr> in
          of_publish (publish_manifest_fenced_production (lp_publisher self) published_manifest owner_claim))))))"

section \<open>Fenced publication\<close>

lemma claim_current_earlier: "claim_current pb d ps claim \<Longrightarrow> grows c d \<Longrightarrow> claim_current pb c ps claim"
  unfolding claim_current_def by (blast intro: published_mono)

lemma record_visible_mono: "record_visible pb c r \<Longrightarrow> grows c d \<Longrightarrow> record_visible pb d r"
  unfolding record_visible_def grows_def by (blast intro: record_key_durable)

lemma records_current_earlier: "records_current pb d stream p claim \<Longrightarrow> grows c d \<Longrightarrow> records_current pb c stream p claim"
  unfolding records_current_def by (blast intro: record_visible_mono)

lemma owner_recorded_mono: "owner_recorded pb c stream p claim \<Longrightarrow> grows c d \<Longrightarrow> owner_recorded pb d stream p claim"
  unfolding owner_recorded_def by (blast intro: record_visible_mono)

lemma owner_claims_iff:
  "manifest_validate_owner_claim m claim = Inr u \<longleftrightarrow> (\<forall>ref \<in> set (cm_state_objects m). sr_owner_claim ref = Some claim)
     \<and> (\<forall>ref \<in> set (cm_output_objects m). or_owner_claim ref = Some claim)"
proof -
  have "check_claim f g claim c = Inr () \<longleftrightarrow> c = Some claim" for f g c
    by (auto simp: check_claim_def split: option.splits)
  then show ?thesis by (simp add: manifest_validate_owner_claim_def res_simps rfold_check)
qed

lemma fenced_checks:
  "publish_manifest_fenced pb m claim s = (Inr u, t) \<longleftrightarrow> manifest_ok m \<and> manifest_validate_owner_claim m claim = Inr ()
     \<and> validate_fenced_manifest_progress_claimed m claim = Inr ()
     \<and> (\<exists>w. validate_owner_claim_current pb (map sr_partition_id (cm_state_objects m)) claim s = (Inr (), w)
          \<and> publish_manifest pb m w = (Inr u, t))"
  by (auto simp: publish_manifest_fenced_def action_simps res_simps manifest_validate_iff)

lemma production_checks:
  "publish_manifest_fenced_production pb m claim s = (Inr u, t) \<longleftrightarrow> manifest_ok m \<and> manifest_validate_owner_claim m claim = Inr ()
     \<and> validate_fenced_manifest_progress_claimed m claim = Inr ()
     \<and> (\<exists>w. validate_manifest_production_owner_claims_current pb m claim s = (Inr (), w)
          \<and> publish_manifest pb m w = (Inr u, t))"
  by (auto simp: publish_manifest_fenced_production_def action_simps res_simps manifest_validate_iff)

lemma publish_moves:
  assumes "protocol_store pb objects" "manifest_codec pb" "manifest_fits m"
  shows "moves (stored objects (commit_steps pb)) (publish_manifest pb m)"
    "moves (stored objects (commit_steps pb)) (publish_manifest_fenced pb m claim)"
    "moves (stored objects (commit_steps pb)) (publish_manifest_fenced_production pb m claim)"
proof -
  note p = triple_moves [OF publish_triple [OF assms]] and f = protocol_facts [OF assms(1)]
  note c = fence_moves [OF f(1)] production_moves [OF f(1)]
  show "moves (stored objects (commit_steps pb)) (publish_manifest pb m)" by (rule p)
  show "moves (stored objects (commit_steps pb)) (publish_manifest_fenced pb m claim)"
    unfolding publish_manifest_fenced_def using p f c by (intro moves_bind moves_lift)
  show "moves (stored objects (commit_steps pb)) (publish_manifest_fenced_production pb m claim)"
    unfolding publish_manifest_fenced_production_def using p f c by (intro moves_bind moves_lift)
qed

lemma set_first_seen: "set (first_seen seen ks) = set ks - set seen"
  by (induction seen ks rule: first_seen.induct) auto

lemma production_owner_checked:
  assumes sh: "shared_store pb objects others"
    and run: "validate_manifest_production_owner_claims_current pb m claim s = (Inr u, t)"
    and fits: "\<And>key. key \<in> set (progress_keys m) \<Longrightarrow> snd key \<le> u32_max_value"
  shows "claim_current pb (objects s) (snd ` set (progress_keys m)) claim"
    and "key \<in> set (progress_keys m) \<Longrightarrow> owner_recorded pb (objects t) (fst key) (snd key) claim
      \<and> records_current pb (objects s) (fst key) (snd key) claim"
proof -
  note R = stored_refl [OF shared_laws [OF sh]] stored_trans [OF shared_laws [OF sh]]
  obtain w where w: "each (validate_progress_owner pb claim) (first_seen [] (progress_keys m)) s = (Inr (), w)"
      "validate_owner_claim_current pb (map snd (first_seen [] (progress_keys m))) claim w = (Inr u, t)"
    using run by (auto simp: validate_manifest_production_owner_claims_current_def action_simps)
  have owner_moves: "moves (stored objects others) (validate_progress_owner pb claim k)" for k
    unfolding validate_progress_owner_def using R fence_moves [OF sh] by (intro moves_bind)
  have sw: "grows (objects s) (objects w)"
    using movesD [OF moves_each [OF R owner_moves] w(1)] by (rule shared_grows [OF sh])
  have wt: "grows (objects w) (objects t)" using movesD [OF fence_moves(1) [OF sh] w(2)] by (rule shared_grows [OF sh])
  show "claim_current pb (objects s) (snd ` set (progress_keys m)) claim"
    using claim_current_earlier [OF claim_checked [OF sh w(2)] sw] by (simp add: set_first_seen)
  show "owner_recorded pb (objects t) (fst key) (snd key) claim \<and> records_current pb (objects s) (fst key) (snd key) claim"
    if key: "key \<in> set (progress_keys m)"
  proof -
    have "key \<in> set (first_seen [] (progress_keys m))" using key by (simp add: set_first_seen)
    then obtain s' t' where st: "others (objects s) (objects s')" "validate_progress_owner pb claim key s' = (Inr (), t')"
        "others (objects t') (objects w)"
      using each_member [OF R owner_moves w(1)] by blast
    then obtain x where x: "validate_matching_ownership_epoch_record_visible pb (fst key) (snd key) claim s' = (Inr (), x)"
        "validate_no_newer_visible_ownership_epoch_record pb (fst key) (snd key) claim x = (Inr (), t')"
      by (auto simp: validate_progress_owner_def action_simps)
    have "grows (objects s') (objects x)" "grows (objects x) (objects t')"
      using movesD [OF fence_moves(2) [OF sh] x(1)] movesD [OF fence_moves(3) [OF sh] x(2)] by (auto intro: shared_grows [OF sh])
    moreover have "grows (objects s) (objects s')" "grows (objects t') (objects w)" using st by (auto intro: shared_grows [OF sh])
    ultimately have g: "grows (objects s) (objects x)" "grows (objects x) (objects t)" using wt by (meson grows_trans)+
    show ?thesis using owner_recorded_mono [OF matching_record [OF sh x(1)] g(2)]
      records_current_earlier [OF no_newer_record [OF sh x(2) fits [OF key]] g(1)] by blast
  qed
qed

section \<open>Leased publication\<close>

text \<open>The key of a write is the one that its constructor computes.\<close>

definition state_write_ok :: "'b state_object_write \<Rightarrow> bool" where
  "state_write_ok w \<longleftrightarrow> state_object (sw_owner w) (sw_partition_id w) (sw_checkpoint_version w) (sw_object_id w) = Inr (sw_object_key w)"

definition output_write_ok :: "'b output_object_write \<Rightarrow> bool" where
  "output_write_ok w \<longleftrightarrow> output_object (ow_write_stream_id w) (ow_write_partition_id w) (ow_write_checkpoint_version w)
     (ow_write_start_offset_inclusive w) (ow_write_end_offset_exclusive w) (ow_write_object_id w) = Inr (ow_write_object_key w)"

lemma new_writes_ok:
  "state_write_new_fenced owner p c i claim b = Inr w \<Longrightarrow> state_write_ok w"
  "output_write_new_fenced request = Inr x \<Longrightarrow> output_write_ok x"
  by (auto simp: state_write_new_fenced_def state_write_new_def state_write_ok_def output_write_new_fenced_def
    output_write_new_def output_write_ok_def res_simps)

lemma created_object:
  assumes "protocol_store pb objects" "os_create (cp_store pb) k b s = (Inr (), t)" "durable k"
  shows "objects t k = Some b"
proof -
  obtain e where "commit_steps pb (e(k \<mapsto> b)) (objects t)" using store_create_ok [OF protocol_laws [OF assms(1)] assms(2)] by blast
  then have "grows (e(k \<mapsto> b)) (objects t)" by (rule commit_steps_grows)
  then show ?thesis using assms(3) by (simp add: grows_def)
qed

lemma state_written:
  assumes pr: "protocol_store pb objects" and w: "state_write_ok w" and run: "write_state_object pb w s = (Inr r, t)"
  shows "objects t (as_str (sw_object_key w)) = Some (sw_bytes w) \<and> r = sw_object_ref w"
proof -
  have "os_create (cp_store pb) (as_str (sw_object_key w)) (sw_bytes w) s = (Inr (), t)" "r = sw_object_ref w"
    using run by (auto simp: write_state_object_def action_simps)
  moreover have "durable (as_str (sw_object_key w))" using w by (auto simp: state_write_ok_def durable_def dest: under_state)
  ultimately show ?thesis using created_object [OF pr] by blast
qed

lemma output_written:
  assumes pr: "protocol_store pb objects" and w: "output_write_ok w" and run: "write_output_object pb w s = (Inr r, t)"
  shows "objects t (as_str (ow_write_object_key w)) = Some (ow_write_bytes w) \<and> r = ow_object_ref w"
proof -
  have "os_create (cp_store pb) (as_str (ow_write_object_key w)) (ow_write_bytes w) s = (Inr (), t)" "r = ow_object_ref w"
    using run by (auto simp: write_output_object_def action_simps)
  moreover have "durable (as_str (ow_write_object_key w))" using w by (auto simp: output_write_ok_def durable_def dest: under_output)
  ultimately show ?thesis using created_object [OF pr] by blast
qed

lemma fenced_write_moves:
  assumes "protocol_store pb objects"
  shows "state_write_ok w \<Longrightarrow> moves (stored objects (commit_steps pb)) (write_state_object_fenced pb w claim)"
    "state_write_ok w \<Longrightarrow> moves (stored objects (commit_steps pb)) (write_state_object_fenced_production pb w stream claim)"
    "output_write_ok x \<Longrightarrow> moves (stored objects (commit_steps pb)) (write_output_object_fenced pb x claim)"
    "output_write_ok x \<Longrightarrow> moves (stored objects (commit_steps pb)) (write_output_object_fenced_production pb x claim)"
proof -
  note f = protocol_facts [OF assms] fence_moves [OF protocol_shared [OF assms]] production_moves [OF protocol_shared [OF assms]]
  note w = write_moves(1) [OF assms] write_moves(2) [OF assms]
  show "moves (stored objects (commit_steps pb)) (write_state_object_fenced pb w claim)" if "state_write_ok w"
    unfolding write_state_object_fenced_def using f w(1) [OF that [unfolded state_write_ok_def]] by (intro moves_bind moves_lift)
  show "moves (stored objects (commit_steps pb)) (write_state_object_fenced_production pb w stream claim)" if "state_write_ok w"
    unfolding write_state_object_fenced_production_def using f w(1) [OF that [unfolded state_write_ok_def]] by (intro moves_bind moves_lift)
  show "moves (stored objects (commit_steps pb)) (write_output_object_fenced pb x claim)" if "output_write_ok x"
    unfolding write_output_object_fenced_def using f w(2) [OF that [unfolded output_write_ok_def]] by (intro moves_bind moves_lift)
  show "moves (stored objects (commit_steps pb)) (write_output_object_fenced_production pb x claim)" if "output_write_ok x"
    unfolding write_output_object_fenced_production_def using f w(2) [OF that [unfolded output_write_ok_def]] by (intro moves_bind moves_lift)
qed

lemma single_partition:
  assumes "validate_single_grant_partition grant m = Inr u"
    and "p \<in> ir_partition_id ` set (cm_input_ranges m) \<union> sr_partition_id ` set (cm_state_objects m)
      \<union> or_partition_id ` set (cm_output_objects m)"
  shows "p = lk_partition_id (lg_key grant)"
proof -
  define ps where "ps = remdups_adj (sort (map ir_partition_id (cm_input_ranges m) @ map sr_partition_id (cm_state_objects m)
      @ map or_partition_id (cm_output_objects m)))"
  have "p \<in> set ps" using assms(2) unfolding ps_def by (simp add: Un_assoc)
  moreover have "length ps \<le> 1 \<and> (\<forall>q qs. ps = q # qs \<longrightarrow> q = lk_partition_id (lg_key grant))"
    using assms(1) unfolding validate_single_grant_partition_def ps_def [symmetric] Let_def by (auto split: if_splits list.splits)
  ultimately show ?thesis by (cases ps) auto
qed

text \<open>What the checks before the first write establish.\<close>

definition lease_covers :: "partition_lease_grant \<Rightarrow> nat \<Rightarrow> checkpoint_manifest \<Rightarrow> bool" where
  "lease_covers grant now m \<longleftrightarrow> now < lg_expires_at_unix_ms grant
     \<and> list_all (\<lambda>r. range_id r = (lk_stream_id (lg_key grant), lk_partition_id (lg_key grant))) (cm_input_ranges m)
     \<and> list_all (\<lambda>r. sr_partition_id r = lk_partition_id (lg_key grant) \<and> sr_owner_claim r = Some (claim_from_grant grant)) (cm_state_objects m)
     \<and> list_all (\<lambda>r. or_partition_id r = lk_partition_id (lg_key grant) \<and> or_owner_claim r = Some (claim_from_grant grant)) (cm_output_objects m)"

lemma leased_checked:
  assumes "leased_checks grant now ws os m = Inr u"
  shows "lease_covers grant now m" "manifest_ok m" "cm_state_objects m = map sw_object_ref ws" "cm_output_objects m = map ow_object_ref os"
proof -
  have parts: "validate_grant_unexpired grant now = Inr ()" "validate_single_grant_partition grant m = Inr ()"
      "validate_input_stream grant m = Inr ()" "validate_state_writes grant (claim_from_grant grant) ws = Inr ()"
      "validate_output_writes grant (claim_from_grant grant) os = Inr ()" "validate_manifest_refs_match_writes m ws os = Inr ()"
    and ok: "manifest_ok m"
    using assms by (auto simp: leased_checks_def res_simps manifest_validate_iff)
  show "manifest_ok m" by (rule ok)
  show refs: "cm_state_objects m = map sw_object_ref ws" "cm_output_objects m = map ow_object_ref os"
    using parts(6) by (auto simp: validate_manifest_refs_match_writes_def Let_def split: if_splits)
  have "ir_stream_id r = lk_stream_id (lg_key grant)" if "r \<in> set (cm_input_ranges m)" for r
    using parts(3) that by (auto simp: validate_input_stream_def rfold_check split: if_splits)
  moreover have "sw_owner_claim w = Some (claim_from_grant grant)" if "w \<in> set ws" for w
    using parts(4) that by (auto simp: validate_state_writes_def rfold_check split: if_splits)
  moreover have "ow_write_owner_claim w = Some (claim_from_grant grant)" if "w \<in> set os" for w
    using parts(5) that by (auto simp: validate_output_writes_def rfold_check split: if_splits)
  ultimately show "lease_covers grant now m" using parts(1) single_partition [OF parts(2)]
    by (auto simp: lease_covers_def list_all_iff range_id_def validate_grant_unexpired_def refs sw_object_ref_def ow_object_ref_def
      split: if_splits)
qed

text \<open>A manifest on the lineage, with the bytes of the writes it was published with.\<close>

definition committed :: "('s, 'b) checkpoint_publisher \<Rightarrow> 'b objects \<Rightarrow> 'b state_object_write list \<Rightarrow> 'b output_object_write list \<Rightarrow>
    checkpoint_manifest \<Rightarrow> bool" where
  "committed pb c ws os m \<longleftrightarrow> published pb c m \<and> parent_published pb c m
     \<and> list_all (\<lambda>w. c (as_str (sw_object_key w)) = Some (sw_bytes w)) ws
     \<and> list_all (\<lambda>w. c (as_str (ow_write_object_key w)) = Some (ow_write_bytes w)) os"

lemma durable_writes: "state_write_ok w \<Longrightarrow> durable (as_str (sw_object_key w))" "output_write_ok x \<Longrightarrow> durable (as_str (ow_write_object_key x))"
  by (auto simp: state_write_ok_def output_write_ok_def durable_def dest: under_state under_output)

lemma each_written:
  assumes pr: "protocol_store pb objects" and key: "\<And>x. x \<in> set xs \<Longrightarrow> durable (key x)"
    and mv: "\<And>x. x \<in> set xs \<Longrightarrow> moves (stored objects (commit_steps pb)) (f x)"
    and wr: "\<And>x s t. x \<in> set xs \<Longrightarrow> f x s = (Inr (), t) \<Longrightarrow> objects t (key x) = Some (val x)"
    and run: "each f xs s = (Inr u, t)" and later: "commit_steps pb (objects t) (objects t')"
  shows "list_all (\<lambda>x. objects t' (key x) = Some (val x)) xs"
  unfolding list_all_iff
proof
  fix x
  assume x: "x \<in> set xs"
  obtain a b where b: "f x a = (Inr (), b)" "commit_steps pb (objects b) (objects t)"
    using each_member [OF protocol_facts(3,4) [OF pr] mv run x] by blast
  have "grows (objects b) (objects t')" using b(2) later by (meson commit_steps_grows rtranclp_trans)
  then show "objects t' (key x) = Some (val x)" using wr [OF x b(1)] key [OF x] by (simp add: grows_def)
qed

lemma leased_publish_run:
  fixes lp :: "('s, 'b) leased_checkpoint_publisher"
  defines "pb \<equiv> lp_publisher lp"
  assumes pr: "protocol_store pb objects" and codec: "manifest_codec pb" and fits: "manifest_fits m"
    and ws: "list_all state_write_ok ws" and os: "list_all output_write_ok os"
  shows "moves (stored objects (commit_steps pb)) (leased_publish lp grant now ws os m)"
    and "leased_publish lp grant now ws os m s = (Inr (), t) \<Longrightarrow> lease_covers grant now m
      \<and> claim_current pb (objects s) {lk_partition_id (lg_key grant)} (claim_from_grant grant) \<and> committed pb (objects t) ws os m"
proof -
  let ?R = "stored objects (commit_steps pb)" and ?claim = "claim_from_grant grant"
  note f = protocol_facts [OF pr]
  let ?sw = "\<lambda>w. bind (map_err LeasedPublish (write_state_object_fenced pb w ?claim)) (\<lambda>_. lift (Inr ()))"
  let ?ow = "\<lambda>w. bind (map_err LeasedPublish (write_output_object_fenced pb w ?claim)) (\<lambda>_. lift (Inr ()))"
  have sw: "moves ?R (?sw w)" if "w \<in> set ws" for w
    using f fenced_write_moves(1) [OF pr] ws that by (auto simp: list_all_iff intro!: moves_bind moves_lift moves_map_err)
  have ow: "moves ?R (?ow w)" if "w \<in> set os" for w
    using f fenced_write_moves(3) [OF pr] os that by (auto simp: list_all_iff intro!: moves_bind moves_lift moves_map_err)
  have each: "moves ?R (each ?sw ws)" "moves ?R (each ?ow os)" by (rule moves_each [OF f(3,4) sw], assumption) (rule moves_each [OF f(3,4) ow])
  show "moves ?R (leased_publish lp grant now ws os m)"
    unfolding leased_publish_def Let_def pb_def [symmetric]
    using f each list_moves(1) [OF f(1)] publish_moves(2) [OF pr codec fits] by (intro moves_bind moves_lift moves_map_err)
  assume "leased_publish lp grant now ws os m s = (Inr (), t)"
  then obtain s1 s2 s3 where checks: "leased_checks grant now ws os m = Inr ()"
      and r1: "preflight_manifest_publication pb m s = (Inr (), s1)" and r2: "each ?sw ws s1 = (Inr (), s2)"
      and r3: "each ?ow os s2 = (Inr (), s3)" and r4: "publish_manifest_fenced pb m ?claim s3 = (Inr (), t)"
    unfolding leased_publish_def Let_def pb_def [symmetric] bind_iff lift_iff map_err_iff by auto
  note checked = leased_checked [OF checks]
  have s3: "grows (objects s) (objects s3)"
    using movesD [OF list_moves(1) [OF f(1)] r1] movesD [OF each(1) r2] movesD [OF each(2) r3] by (meson commit_steps_grows rtranclp_trans)
  have t3: "commit_steps pb (objects s3) (objects t)" using movesD [OF publish_moves(2) [OF pr codec fits] r4] .
  then have t2: "commit_steps pb (objects s2) (objects t)" using movesD [OF each(2) r3] by (rule rtranclp_trans [rotated])
  obtain w where w: "validate_owner_claim_current pb (map sr_partition_id (cm_state_objects m)) ?claim s3 = (Inr (), w)"
      "publish_manifest pb m w = (Inr (), t)"
    using r4 by (auto simp: fenced_checks)
  have "sr_partition_id ` set (cm_state_objects m) = {lk_partition_id (lg_key grant)}"
    using checked(1,2) by (auto simp: lease_covers_def list_all_iff manifest_ok_def image_iff) (metis list.set_intros(1) neq_Nil_conv)
  then have "claim_current pb (objects s) {lk_partition_id (lg_key grant)} ?claim"
    using claim_current_earlier [OF claim_checked [OF f(1) w(1)] s3] by simp
  moreover have "published pb (objects t) m \<and> parent_published pb (objects t) m"
    using tripleD [OF publish_triple [OF pr codec fits] w(2)] by simp
  moreover have "list_all (\<lambda>w. objects t (as_str (sw_object_key w)) = Some (sw_bytes w)) ws"
    by (rule each_written [OF pr _ sw _ r2 t2]) (use ws durable_writes state_written [OF pr] in
      \<open>auto simp: list_all_iff write_state_object_fenced_def action_simps\<close>)
  moreover have "list_all (\<lambda>w. objects t (as_str (ow_write_object_key w)) = Some (ow_write_bytes w)) os"
    by (rule each_written [OF pr _ ow _ r3 t3]) (use os durable_writes output_written [OF pr] in
      \<open>auto simp: list_all_iff write_output_object_fenced_def action_simps\<close>)
  ultimately show "lease_covers grant now m
      \<and> claim_current pb (objects s) {lk_partition_id (lg_key grant)} ?claim \<and> committed pb (objects t) ws os m"
    using checked(1) by (simp add: committed_def)
qed

lemma production_state_writes:
  assumes pr: "protocol_store pb objects" and ws: "list_all state_write_ok ws"
    and run: "collect (\<lambda>w. map_err LeasedPublish (write_state_object_fenced_production pb w stream claim)) ws s = (Inr refs, t)"
    and later: "commit_steps pb (objects t) (objects t')"
  shows "refs = map sw_object_ref ws \<and> list_all (\<lambda>w. objects t' (as_str (sw_object_key w)) = Some (sw_bytes w)) ws"
proof -
  let ?f = "\<lambda>w. map_err LeasedPublish (write_state_object_fenced_production pb w stream claim)"
  note f = protocol_facts [OF pr]
  have mv: "moves (stored objects (commit_steps pb)) (?f w)" if "w \<in> set ws" for w
    using fenced_write_moves(2) [OF pr] ws that by (auto simp: list_all_iff intro!: moves_map_err)
  have "list_all2 (\<lambda>w r. \<exists>s' b. commit_steps pb (objects s) (objects s') \<and> ?f w s' = (Inr r, b)
      \<and> commit_steps pb (objects b) (objects t)) ws refs"
    by (rule collect_members [OF f(3,4) mv run])
  then have "list_all2 (\<lambda>w r. r = sw_object_ref w \<and> objects t' (as_str (sw_object_key w)) = Some (sw_bytes w)) ws refs"
  proof (rule list.rel_mono_strong)
    fix w r
    assume w: "w \<in> set ws" and "\<exists>s' b. commit_steps pb (objects s) (objects s') \<and> ?f w s' = (Inr r, b) \<and> commit_steps pb (objects b) (objects t)"
    then obtain s' b where "?f w s' = (Inr r, b)" and b: "commit_steps pb (objects b) (objects t)" by blast
    then obtain x where "write_state_object pb w x = (Inr r, b)"
      by (auto simp: write_state_object_fenced_production_def action_simps)
    then have "objects b (as_str (sw_object_key w)) = Some (sw_bytes w) \<and> r = sw_object_ref w"
      using state_written [OF pr] ws w by (auto simp: list_all_iff)
    moreover have "grows (objects b) (objects t')" using b later by (meson commit_steps_grows rtranclp_trans)
    moreover have "durable (as_str (sw_object_key w))" using durable_writes(1) ws w by (auto simp: list_all_iff)
    ultimately show "r = sw_object_ref w \<and> objects t' (as_str (sw_object_key w)) = Some (sw_bytes w)" by (simp add: grows_def)
  qed
  then show ?thesis by (auto simp: list_all2_conv_all_nth list_all_length intro: nth_equalityI)
qed

lemma progress_fits: "manifest_fits m \<Longrightarrow> key \<in> set (progress_keys m) \<Longrightarrow> snd key \<le> u32_max_value"
  by (auto simp: manifest_fits_def progress_keys_def list_all_iff)

lemma leased_production_run:
  fixes lp :: "('s, 'b) leased_checkpoint_publisher"
  defines "pb \<equiv> lp_publisher lp"
  assumes pr: "protocol_store pb objects" and codec: "manifest_codec pb" and fits: "manifest_fits m"
    and ws: "list_all state_write_ok ws" and os: "list_all output_write_ok os"
    and run: "leased_publish_production lp grant now ws os m s = (Inr (), t)"
  shows "lp_production_authority_validated lp \<and> lease_covers grant now m
      \<and> owner_recorded pb (objects t) (lk_stream_id (lg_key grant)) (lk_partition_id (lg_key grant)) (claim_from_grant grant)
      \<and> records_current pb (objects s) (lk_stream_id (lg_key grant)) (lk_partition_id (lg_key grant)) (claim_from_grant grant)
      \<and> claim_current pb (objects s) {lk_partition_id (lg_key grant)} (claim_from_grant grant) \<and> committed pb (objects t) ws os m"
proof -
  let ?R = "stored objects (commit_steps pb)" and ?claim = "claim_from_grant grant"
  let ?key = "(lk_stream_id (lg_key grant), lk_partition_id (lg_key grant))"
  note f = protocol_facts [OF pr]
  let ?sw = "\<lambda>w. map_err LeasedPublish (write_state_object_fenced_production pb w (fst ?key) ?claim)"
  let ?ow = "\<lambda>w. bind (map_err LeasedPublish (write_output_object_fenced_production pb w ?claim)) (\<lambda>_. lift (Inr ()))"
  have sw: "moves ?R (?sw w)" if "w \<in> set ws" for w
    using fenced_write_moves(2) [OF pr] ws that by (auto simp: list_all_iff intro!: moves_map_err)
  have ow: "moves ?R (?ow w)" if "w \<in> set os" for w
    using f fenced_write_moves(4) [OF pr] os that by (auto simp: list_all_iff intro!: moves_bind moves_lift moves_map_err)
  have auth: "lp_production_authority_validated lp" using run by (simp add: leased_publish_production_def lift_iff split: if_splits)
  with run obtain s1 s2 s3 refs where checks: "leased_checks grant now ws os m = Inr ()"
      and r1: "preflight_manifest_publication pb m s = (Inr (), s1)" and r2: "collect ?sw ws s1 = (Inr refs, s2)"
      and r3: "each ?ow os s2 = (Inr (), s3)"
      and r4: "publish_manifest_fenced_production pb (m\<lparr>cm_state_objects := refs\<rparr>) ?claim s3 = (Inr (), t)"
    unfolding leased_publish_production_def Let_def pb_def [symmetric] by (auto simp: action_simps)
  note checked = leased_checked [OF checks]
  have refs: "refs = map sw_object_ref ws" using production_state_writes [OF pr ws r2 [unfolded fst_conv] rtranclp.rtrancl_refl] by blast
  have m: "publish_manifest_fenced_production pb m ?claim s3 = (Inr (), t)" using r4 unfolding refs checked(3) [symmetric] by simp
  have c3: "commit_steps pb (objects s2) (objects s3)" using movesD [OF moves_each [OF f(3,4) ow] r3] .
  have s3: "grows (objects s) (objects s3)"
    using movesD [OF list_moves(1) [OF f(1)] r1] movesD [OF moves_collect [OF f(3,4) sw] r2] c3 by (meson commit_steps_grows rtranclp_trans)
  have t3: "commit_steps pb (objects s3) (objects t)" using movesD [OF publish_moves(3) [OF pr codec fits] m] .
  obtain w where w: "validate_manifest_production_owner_claims_current pb m ?claim s3 = (Inr (), w)"
      "publish_manifest pb m w = (Inr (), t)" using m by (auto simp: production_checks)
  have key: "?key \<in> set (progress_keys m)"
    using checked(1,2) by (cases "cm_input_ranges m") (auto simp: lease_covers_def manifest_ok_def progress_keys_def range_id_def)
  note owner = production_owner_checked [OF f(1) w(1) progress_fits [OF fits]]
  have wt: "grows (objects w) (objects t)" using movesD [OF publish_moves(1) [OF pr codec fits] w(2)] by (rule commit_steps_grows)
  have "claim_current pb (objects s3) {snd ?key} ?claim" using owner(1) key unfolding claim_current_def by force
  then have "claim_current pb (objects s) {snd ?key} ?claim" using s3 by (rule claim_current_earlier)
  moreover have "owner_recorded pb (objects t) (fst ?key) (snd ?key) ?claim" using owner_recorded_mono [OF _ wt] owner(2) key by blast
  moreover have "records_current pb (objects s) (fst ?key) (snd ?key) ?claim" using records_current_earlier [OF _ s3] owner(2) key by blast
  moreover have "published pb (objects t) m \<and> parent_published pb (objects t) m"
    using tripleD [OF publish_triple [OF pr codec fits] w(2)] by simp
  moreover have "list_all (\<lambda>w. objects t (as_str (sw_object_key w)) = Some (sw_bytes w)) ws"
    using production_state_writes [OF pr ws r2 [unfolded fst_conv] rtranclp_trans [OF c3 t3]] by blast
  moreover have "list_all (\<lambda>w. objects t (as_str (ow_write_object_key w)) = Some (ow_write_bytes w)) os"
    by (rule each_written [OF pr _ ow _ r3 t3]) (use os durable_writes output_written [OF pr] in
      \<open>auto simp: list_all_iff write_output_object_fenced_production_def action_simps\<close>)
  ultimately show ?thesis using checked(1) auth by (simp add: committed_def)
qed

end
