(* ===== verification/Checkpoint_Props.thy ===== *)
theory Checkpoint_Props
  imports Leased_Checkpoint "HOL-Library.Code_Target_Nat"
begin

text \<open>
  The properties of checkpoint publication, and a store in memory on which they are evaluated. In every
  property the store, \<open>serde_json\<close> and the other clients are those of any deployment that keeps the laws
  stated in the hypotheses.
\<close>

section \<open>A store in memory\<close>

text \<open>The objects are parsed documents, so that writing and reading a document is immediate.\<close>

datatype document =
    ManifestDocument checkpoint_manifest
  | RecordDocument ownership_epoch_record
  | MarkerDocument latest_candidate_marker
  | LifecycleDocument lifecycle_record
  | Payload string

type_synonym memory = "(string \<times> document) list"

definition memory_store :: "(memory, document) object_store" where
  "memory_store =
     \<lparr>os_get = (\<lambda>k s. (case map_of s k of None \<Rightarrow> Inl NotFound | Some b \<Rightarrow> Inr b, s)),
      os_head = (\<lambda>k s. (if map_of s k = None then Inl NotFound else Inr (), s)),
      os_list = (\<lambda>p s. (Inr (filter (under p) (remdups (map fst s))), s)),
      os_list_with_offset = (\<lambda>p k s. (Inr (filter (\<lambda>k'. under p k' \<and> k < k') (remdups (map fst s))), s)),
      os_create = (\<lambda>k b s. if map_of s k = None then (Inr (), (k, b) # s) else (Inl AlreadyExists, s)),
      os_put = (\<lambda>k b s. (Inr (), (k, b) # s)),
      os_delete = (\<lambda>k s. if map_of s k = None then (Inl NotFound, s) else (Inr (), filter (\<lambda>e. fst e \<noteq> k) s))\<rparr>"

definition memory_publisher :: "(memory, document) checkpoint_publisher" where
  "memory_publisher =
     \<lparr>cp_store = memory_store,
      cp_manifest_to_vec = (\<lambda>m. Inr (ManifestDocument m)),
      cp_manifest_from_slice = (\<lambda>d. case d of
          ManifestDocument m \<Rightarrow> if cm_checkpoint_version m \<le> u64_max_value then Inr m else Inl ''out of range''
        | _ \<Rightarrow> Inl ''not a manifest''),
      cp_record_to_vec = (\<lambda>r. Inr (RecordDocument r)),
      cp_record_from_slice = (\<lambda>d. case d of RecordDocument r \<Rightarrow> Inr r | _ \<Rightarrow> Inl ''not a record''),
      cp_marker_to_vec = (\<lambda>m. Inr (MarkerDocument m)),
      cp_marker_from_slice = (\<lambda>d. case d of MarkerDocument m \<Rightarrow> Inr m | _ \<Rightarrow> Inl ''not a marker''),
      cp_lifecycle_to_vec = (\<lambda>r. Inr (LifecycleDocument r)),
      cp_lifecycle_from_slice = (\<lambda>d. case d of LifecycleDocument r \<Rightarrow> Inr r | _ \<Rightarrow> Inl ''not a record''),
      cp_sha256 = (\<lambda>label d. label),
      cp_now = (\<lambda>s. ''unix:0.000000000'')\<rparr>"

lemma memory_listing: "reflp others \<Longrightarrow> listing others P (map_of s) (map_of s) (filter P (remdups (map fst s)))"
proof -
  assume "reflp others"
  then have now: "moment others (map_of s) (map_of s) (map_of s)" by (simp add: moment_def reflp_def)
  have "k \<in> fst ` set s \<longleftrightarrow> map_of s k \<noteq> None" for k by (simp add: map_of_eq_None_iff)
  with now show ?thesis unfolding listing_def by auto
qed

lemma memory_laws:
  assumes "reflp others" "transp others"
  shows "store_laws memory_store map_of others"
proof -
  have refl: "others c c" for c using assms(1) by (rule reflpD)
  have self: "\<exists>e. moment others c c e \<and> e = c" for c using refl by (auto simp: moment_def)
  have "get_law memory_store map_of others"
    unfolding get_law_def memory_store_def using refl by (auto simp: moment_def split: option.splits)
  moreover have "head_law memory_store map_of others"
    unfolding head_law_def memory_store_def using refl by (auto simp: moment_def)
  moreover have "list_law memory_store map_of others"
    unfolding list_law_def memory_store_def using refl memory_listing [OF assms(1)] by auto
  moreover have "create_law memory_store map_of others"
    unfolding create_law_def memory_store_def using refl by auto
  moreover have "put_law memory_store map_of others"
    unfolding put_law_def memory_store_def using refl by auto
  ultimately show ?thesis using assms by (simp add: store_laws_def)
qed

lemma memory_hypotheses:
  "protocol_store memory_publisher map_of" "shared_store memory_publisher map_of grows"
  "manifest_codec memory_publisher" "manifest_types memory_publisher"
proof -
  have store: "cp_store memory_publisher = memory_store" by (simp add: memory_publisher_def)
  show "protocol_store memory_publisher map_of" unfolding protocol_store_def store
    by (rule memory_laws) (auto intro: reflpI transpI)
  show "shared_store memory_publisher map_of grows" unfolding shared_store_def store
    using memory_laws [of grows] grows_refl grows_trans by (blast intro: reflpI transpI)
  show "manifest_codec memory_publisher" by (auto simp: manifest_codec_def memory_publisher_def manifest_fits_def)
  show "manifest_types memory_publisher" by (auto simp: manifest_types_def memory_publisher_def split: document.splits if_splits)
qed

section \<open>Sample publications\<close>

definition sample_grant :: partition_lease_grant where
  "sample_grant =
     \<lparr>lg_key = \<lparr>lk_namespace = ''prod'', lk_view_id = ''totals'', lk_stream_id = ''orders'', lk_partition_id = 0\<rparr>,
      lg_owner_id = ''worker-a'', lg_owner_epoch = 1, lg_expires_at_unix_ms = 100\<rparr>"

definition sample_write :: "nat \<Rightarrow> document state_object_write" where
  "sample_write version = projr (state_write_new_fenced ''agg'' 0 version ''rows'' (claim_from_grant sample_grant) (Payload ''rows''))"

definition sample_manifest :: "nat \<Rightarrow> checkpoint_manifest" where
  "sample_manifest version =
     \<lparr>cm_schema_version = 1, cm_checkpoint_version = version,
      cm_input_ranges = [\<lparr>ir_stream_id = ''orders'', ir_partition_id = 0, ir_start_offset_inclusive = 0,
         ir_end_offset_exclusive = 10 * (version + 1)\<rparr>],
      cm_state_objects = [sw_object_ref (sample_write version)], cm_output_objects = [],
      cm_parent_checkpoint = (if version = 0 then None else Some (version - 1)), cm_created_at = ''2026-01-01'',
      cm_relation_id = None, cm_relation_version = None, cm_schema_fingerprint = None\<rparr>"

abbreviation sample_run :: "nat \<Rightarrow> memory \<Rightarrow> (leased_checkpoint_error, unit) result \<times> memory" where
  "sample_run version \<equiv> leased_publish (leased_new memory_publisher) sample_grant 99 [sample_write version] [] (sample_manifest version)"

lemma sample_facts:
  "manifest_fits (sample_manifest 0)" "manifest_fits (sample_manifest 1)"
  "list_all state_write_ok [sample_write 0]" "list_all output_write_ok []"
  by code_simp+

lemma leased_new_publisher: "lp_publisher (leased_new pb) = pb"
  by (simp add: leased_new_def)

section \<open>Properties\<close>

text \<open>
  C10: A leased publication, whatever it returns and whatever other publishers do meanwhile, changes the
  store only by steps of the commit protocol. When it returns \<open>Ok\<close>, the lease had not expired and covers the
  manifest, no newer claim for the partition was published when it started, and the manifest is published
  on top of its parent with the state and output bytes of this call.
\<close>

theorem leased_publish_commits:
  assumes "protocol_store (lp_publisher lp) objects" and "manifest_codec (lp_publisher lp)" and "manifest_fits m"
    and "list_all state_write_ok ws" and "list_all output_write_ok os"
    and "leased_publish lp grant now ws os m s = (r, t)"
  shows "commit_steps (lp_publisher lp) (objects s) (objects t)
    \<and> (r = Inr () \<longrightarrow> lease_covers grant now m
         \<and> claim_current (lp_publisher lp) (objects s) {lk_partition_id (lg_key grant)} (claim_from_grant grant)
         \<and> committed (lp_publisher lp) (objects t) ws os m)"
  using leased_publish_run [OF assms(1-5)] assms(6) by (auto dest: movesD)

theorem leased_publish_commits_witness:
  "\<exists>t. sample_run 0 [] = (Inr (), t) \<and> committed memory_publisher (map_of t) [sample_write 0] [] (sample_manifest 0)"
proof -
  have "fst (sample_run 0 []) = Inr ()" by code_simp
  then obtain t where t: "sample_run 0 [] = (Inr (), t)" by (metis prod.collapse)
  show ?thesis using leased_publish_commits [of "leased_new memory_publisher" map_of, unfolded leased_new_publisher,
    OF memory_hypotheses(1,3) sample_facts(1,3,4) t] t by blast
qed

text \<open>The store after the first sample publication.\<close>

definition first_memory :: memory where
  "first_memory = snd (sample_run 0 [])"

lemma first_run: "sample_run 0 [] = (Inr (), first_memory)"
proof -
  have "fst (sample_run 0 []) = Inr ()" by code_simp
  then show ?thesis by (simp add: first_memory_def prod_eq_iff)
qed

text \<open>
  C3: A publication in production that returns \<open>Ok\<close> ran with validated store capabilities under an unexpired
  lease. The claim has a durable ownership record, when the call started no visible record and no published
  manifest of the partition had a newer or conflicting claim, and the manifest is published on top of its
  parent with the bytes of this call.
\<close>

theorem leased_production_commits:
  assumes "protocol_store (lp_publisher lp) objects" and "manifest_codec (lp_publisher lp)" and "manifest_fits m"
    and "list_all state_write_ok ws" and "list_all output_write_ok os"
    and "leased_publish_production lp grant now ws os m s = (Inr (), t)"
  shows "lp_production_authority_validated lp \<and> lease_covers grant now m
    \<and> owner_recorded (lp_publisher lp) (objects t) (lk_stream_id (lg_key grant)) (lk_partition_id (lg_key grant)) (claim_from_grant grant)
    \<and> records_current (lp_publisher lp) (objects s) (lk_stream_id (lg_key grant)) (lk_partition_id (lg_key grant)) (claim_from_grant grant)
    \<and> claim_current (lp_publisher lp) (objects s) {lk_partition_id (lg_key grant)} (claim_from_grant grant)
    \<and> committed (lp_publisher lp) (objects t) ws os m"
  using assms by (rule leased_production_run)

definition sample_capabilities :: authoritative_capabilities where
  "sample_capabilities = map (\<lambda>ns. (ns, local_development)) all_namespaces"

definition sample_epoch_record :: ownership_epoch_record where
  "sample_epoch_record =
     \<lparr>er_stream_id = ''orders'', er_partition_id = 0, er_owner_id = ''worker-a'', er_owner_epoch = 1, er_lease_identity = ''lease-a'',
      er_created_at = ''2026-01-01'', er_previous_epoch = None, er_previous_checkpoint_version = None\<rparr>"

definition sample_production :: "(memory, document) leased_checkpoint_publisher" where
  "sample_production = \<lparr>lp_publisher = memory_publisher, lp_production_authority_validated = True\<rparr>"

theorem leased_production_commits_witness:
  "leased_new_authoritative memory_publisher sample_capabilities = Inr sample_production
   \<and> (\<exists>s t k. create_ownership_epoch_record memory_publisher sample_epoch_record [] = (Inr k, s)
     \<and> leased_publish_production sample_production sample_grant 99 [sample_write 0] [] (sample_manifest 0) s = (Inr (), t)
     \<and> committed memory_publisher (map_of t) [sample_write 0] [] (sample_manifest 0))"
proof -
  let ?create = "create_ownership_epoch_record memory_publisher sample_epoch_record []"
  let ?run = "leased_publish_production sample_production sample_grant 99 [sample_write 0] [] (sample_manifest 0) (snd ?create)"
  have "isl (fst ?create) = False" by code_simp
  then obtain k where k: "?create = (Inr k, snd ?create)" by (metis isl_def prod.collapse sum.exhaust)
  have "fst ?run = Inr ()" by code_simp
  then have run: "?run = (Inr (), snd ?run)" by (simp add: prod_eq_iff)
  have auth: "validate_namespace sample_capabilities NsOutput = Inr local_development"
    "validate_namespace sample_capabilities NsOwnership = Inr local_development"
    "validate_checkpoint_publisher_authoritative_namespaces sample_capabilities = Inr ()" by code_simp+
  then have "leased_new_authoritative memory_publisher sample_capabilities = Inr sample_production"
    by (simp add: leased_new_authoritative_def publisher_new_authoritative_def sample_production_def)
  moreover have pb: "lp_publisher sample_production = memory_publisher" by (simp add: sample_production_def)
  have "committed memory_publisher (map_of (snd ?run)) [sample_write 0] [] (sample_manifest 0)"
    using leased_production_commits [of sample_production map_of, unfolded pb, OF memory_hypotheses(1,3) sample_facts(1,3,4) run] by blast
  ultimately show ?thesis using k run by blast
qed

text \<open>
  C4: Publication of a manifest refines the commit protocol. Every call takes steps of the protocol only and
  keeps the lineage of the store. After \<open>Ok\<close> the manifest and all objects it refers to are stored, and every
  earlier checkpoint version is published with input ranges inside those of the manifest.
\<close>

theorem publication_refines_protocol:
  assumes "protocol_store pb objects" and "manifest_codec pb" and "manifest_fits m" and "lineage pb (objects s)"
    and "publish_manifest pb m s = (r, t)"
  shows "commit_steps pb (objects s) (objects t) \<and> lineage pb (objects t)
    \<and> (r = Inr () \<longrightarrow> published pb (objects t) m \<and> refs_stored (objects t) m
         \<and> (\<forall>v \<le> cm_checkpoint_version m. \<exists>p. published pb (objects t) p \<and> cm_checkpoint_version p = v \<and> progress_kept m p))"
proof -
  have run: "commit_steps pb (objects s) (objects t)" "r = Inr () \<Longrightarrow> published pb (objects t) m \<and> refs_stored (objects t) m"
    using tripleD [OF publish_triple [OF assms(1-3)] assms(5)] by auto
  moreover have "lineage pb (objects t)" using lineage_steps [OF run(1) assms(4)] .
  ultimately show ?thesis using lineage_ancestor by blast
qed

theorem publication_refines_protocol_witness:
  "\<exists>ref s t. write_state_object memory_publisher (sample_write 1) first_memory = (Inr ref, s)
     \<and> publish_manifest memory_publisher (sample_manifest 1) s = (Inr (), t)
     \<and> published memory_publisher (map_of t) (sample_manifest 1)
     \<and> (\<exists>p. published memory_publisher (map_of t) p \<and> cm_checkpoint_version p = 0 \<and> progress_kept (sample_manifest 1) p)"
proof -
  let ?stored = "write_state_object memory_publisher (sample_write 1) first_memory"
  let ?run = "publish_manifest memory_publisher (sample_manifest 1) (snd ?stored)"
  have "isl (fst ?stored) = False" unfolding first_memory_def by code_simp
  then obtain ref where w: "?stored = (Inr ref, snd ?stored)" by (metis isl_def prod.collapse sum.exhaust)
  have "fst ?run = Inr ()" unfolding first_memory_def by code_simp
  then have run: "?run = (Inr (), snd ?run)" by (simp add: prod_eq_iff)
  have "commit_steps memory_publisher (map_of []) (map_of first_memory)"
    using movesD [OF leased_publish_run(1) [of "leased_new memory_publisher" map_of, unfolded leased_new_publisher,
      OF memory_hypotheses(1,3) sample_facts(1,3,4)] first_run] .
  moreover have "state_write_ok (sample_write 1)" by code_simp
  then have "commit_steps memory_publisher (map_of first_memory) (map_of (snd ?stored))"
    using movesD [OF write_moves(1) [OF memory_hypotheses(1)] w] unfolding state_write_ok_def by blast
  moreover have "lineage memory_publisher (map_of [])" by (simp add: lineage_def)
  ultimately have "lineage memory_publisher (map_of (snd ?stored))" by (blast intro: lineage_steps)
  from publication_refines_protocol [OF memory_hypotheses(1,3) sample_facts(2) this run]
  show ?thesis using w run by blast
qed

end
