(* ===== verification/Checkpoint_Reads.thy ===== *)
theory Checkpoint_Reads
  imports Checkpoint_Props
begin

text \<open>
  Properties of reading and of repeated publication: a version is published once, the listing is the whole
  chain, the latest manifest is the newest, and a plan for garbage collection spares what it retains.
\<close>

text \<open>A publication that returns \<open>Ok\<close> has created the object of its manifest.\<close>

lemma publish_created:
  assumes sh: "shared_store pb objects others" and run: "publish_manifest pb m s = (Inr u, t)"
  shows "\<exists>w b x. others (objects s) (objects w) \<and> os_create (cp_store pb) (as_str (manifest_object_key m)) b w = (Inr (), x)"
proof -
  obtain s1 s2 s3 b x where r: "preflight_manifest_publication pb m s = (Inr (), s1)"
      "validate_state_objects_exist pb m s1 = (Inr (), s2)" "validate_output_objects_exist pb m s2 = (Inr (), s3)"
      "os_create (cp_store pb) (as_str (manifest_object_key m)) b s3 = (Inr (), x)"
    using run by (auto simp: publish_manifest_def Let_def action_simps split: if_splits)
  have "others (objects s) (objects s3)"
    using movesD [OF list_moves(1) [OF sh] r(1)] movesD [OF check_moves(2) [OF sh] r(2)] movesD [OF check_moves(3) [OF sh] r(3)]
      store_others(2) [OF shared_laws [OF sh]] unfolding transp_def by blast
  with r(4) show ?thesis by blast
qed

text \<open>
  C11: A checkpoint version is published once. After a publication returned \<open>Ok\<close>, every later publication of
  the same version fails, by this or any other publisher, and the published manifest stays the only one of
  its version.
\<close>

theorem publish_once:
  assumes "protocol_store pb objects" and "manifest_codec pb" and "manifest_fits m" and "manifest_fits n"
    and "publish_manifest pb m s = (Inr (), t)" and "commit_steps pb (objects t) (objects u)"
    and "cm_checkpoint_version n = cm_checkpoint_version m" and "publish_manifest pb n u = (r, v)"
  shows "r \<noteq> Inr () \<and> published pb (objects v) m
    \<and> (\<forall>x. published pb (objects v) x \<longrightarrow> cm_checkpoint_version x = cm_checkpoint_version m \<longrightarrow> x = m)"
proof -
  note sh = protocol_shared [OF assms(1)]
  have "published pb (objects t) m" using tripleD [OF publish_triple [OF assms(1-3)] assms(5)] by simp
  then have mu: "published pb (objects u) m" using assms(6) by (blast intro: published_mono commit_steps_grows)
  have "commit_steps pb (objects u) (objects v)" using tripleD [OF publish_triple [OF assms(1,2,4)] assms(8)] by simp
  with mu have mv: "published pb (objects v) m" by (blast intro: published_mono commit_steps_grows)
  have "r \<noteq> Inr ()"
  proof
    assume "r = Inr ()"
    then obtain w b x where w: "commit_steps pb (objects u) (objects w)"
        "os_create (cp_store pb) (as_str (manifest_object_key n)) b w = (Inr (), x)"
      using publish_created [OF sh] assms(8) by blast
    then obtain e where e: "commit_steps pb (objects w) e" "e (as_str (manifest_object_key n)) = None"
      using store_create_ok [OF shared_laws [OF sh]] by blast
    then have "published pb e m" using mu w(1) by (blast intro: published_mono commit_steps_grows rtranclp_trans)
    then show False using e(2) assms(7) by (simp add: published_def manifest_object_key_def)
  qed
  then show ?thesis using mv published_key by blast
qed

text \<open>The memory after the state object of a version is written directly.\<close>

definition written_memory :: memory where
  "written_memory = snd (write_state_object memory_publisher (sample_write 0) [])"

theorem publish_once_witness:
  "\<exists>t r v. publish_manifest memory_publisher (sample_manifest 0) written_memory = (Inr (), t)
     \<and> publish_manifest memory_publisher (sample_manifest 0 \<lparr>cm_created_at := ''2026-01-02''\<rparr>) t = (r, v)
     \<and> r \<noteq> Inr () \<and> published memory_publisher (map_of v) (sample_manifest 0)"
proof -
  let ?n = "sample_manifest 0 \<lparr>cm_created_at := ''2026-01-02''\<rparr>"
  let ?first = "publish_manifest memory_publisher (sample_manifest 0) written_memory"
  have "fst ?first = Inr ()" unfolding written_memory_def by code_simp
  then have first: "?first = (Inr (), snd ?first)" by (simp add: prod_eq_iff)
  obtain r v where second: "publish_manifest memory_publisher ?n (snd ?first) = (r, v)" by (rule prod.exhaust)
  have "manifest_fits ?n" "cm_checkpoint_version ?n = cm_checkpoint_version (sample_manifest 0)" by code_simp+
  then show ?thesis
    using publish_once [OF memory_hypotheses(1,3) sample_facts(1) _ first rtranclp.rtrancl_refl _ second] first second by blast
qed

text \<open>
  C13: A listing of the published manifests that succeeds is the chain of all versions from zero, in order,
  each manifest keeping the input progress of the one before. It has every manifest that was published when
  the call started, and only manifests that are published when it returns.
\<close>

theorem listing_is_chain:
  assumes "shared_store pb objects others" and "list_published_manifests pb s = (Inr ms, t)"
  shows "map cm_checkpoint_version ms = [0..<length ms]
    \<and> (\<forall>m. published pb (objects s) m \<longrightarrow> m \<in> set ms) \<and> (\<forall>m \<in> set ms. published pb (objects t) m)
    \<and> (\<forall>i. Suc i < length ms \<longrightarrow> progress_kept (ms ! Suc i) (ms ! i))"
proof -
  note ms = listed_manifests [OF assms]
  have ok: "manifest_ok m" if "m \<in> set ms" for m using ms(1) that by (simp add: published_def)
  have version: "cm_checkpoint_version (ms ! i) = i" if "i < length ms" for i
    using ms(3) that by (metis add_0 diff_zero nth_map nth_upt)
  have "progress_kept (ms ! Suc i) (ms ! i)" if i: "Suc i < length ms" for i
  proof -
    have "cm_parent_checkpoint (ms ! Suc i) = Some i"
      using ok [of "ms ! Suc i"] version [OF i] i by (simp add: manifest_ok_def)
    then obtain p where p: "p \<in> set ms" "cm_checkpoint_version p = i" "progress_kept (ms ! Suc i) p"
      using lineage_check_iff [OF ok, of ms] ms(3,4) i by (metis distinct_upt nth_mem)
    then obtain j where "j < length ms" "p = ms ! j" by (auto simp: in_set_conv_nth)
    then have "p = ms ! i" using version p(2) by simp
    with p(3) show ?thesis by simp
  qed
  with ms show ?thesis by blast
qed

theorem listing_is_chain_witness:
  "\<exists>t. list_published_manifests memory_publisher first_memory = (Inr [sample_manifest 0], t)
     \<and> published memory_publisher (map_of t) (sample_manifest 0)"
proof -
  let ?run = "list_published_manifests memory_publisher first_memory"
  have "fst ?run = Inr [sample_manifest 0]" unfolding first_memory_def by code_simp
  then have run: "?run = (Inr [sample_manifest 0], snd ?run)" by (simp add: prod_eq_iff)
  show ?thesis using listing_is_chain [OF memory_hypotheses(2) run] run by auto
qed

text \<open>
  C12: The latest manifest, found by the marker or by the listing, is published with all objects it refers to
  and is at least as new as every manifest that was published when the call started; \<open>None\<close> is returned
  only if there was none.
\<close>

theorem latest_manifest_newest:
  assumes "shared_store pb objects others" and "manifest_types pb" and "latest_manifest pb s = (Inr found, t)"
  shows "case found of
      None \<Rightarrow> \<forall>n. \<not> published pb (objects s) n
    | Some m \<Rightarrow> published pb (objects t) m \<and> refs_stored (objects t) m
        \<and> (\<forall>n. published pb (objects s) n \<longrightarrow> cm_checkpoint_version n \<le> cm_checkpoint_version m)"
  using latest_found [OF assms] by (simp add: newest_def split: option.splits)

theorem latest_manifest_newest_witness:
  "\<exists>t. latest_manifest memory_publisher first_memory = (Inr (Some (sample_manifest 0)), t)
     \<and> refs_stored (map_of t) (sample_manifest 0)"
proof -
  let ?run = "latest_manifest memory_publisher first_memory"
  have "fst ?run = Inr (Some (sample_manifest 0))" unfolding first_memory_def by code_simp
  then have run: "?run = (Inr (Some (sample_manifest 0)), snd ?run)" by (simp add: prod_eq_iff)
  show ?thesis using latest_manifest_newest [OF memory_hypotheses(2,4) run] run by auto
qed

text \<open>
  C14: A plan for garbage collection retains the last versions of the chain, as many as the policy asks for,
  and no candidate is an object of a manifest of a retained version that was published when planning
  started. Executing a plan is refused and changes nothing.
\<close>

theorem gc_plan_keeps_referenced:
  assumes "shared_store pb objects others" and "plan_garbage_collection pb policy s = (Inr plan, t)"
  shows "(\<exists>n. gl_retained_manifest_versions plan = [n - gp_retain_latest_manifests policy..<n] \<and> 0 < gp_retain_latest_manifests policy
        \<and> (\<forall>m. published pb (objects s) m \<longrightarrow> cm_checkpoint_version m < n))
    \<and> (\<forall>d \<in> set (gl_candidates plan). \<forall>m. published pb (objects s) m \<longrightarrow>
        cm_checkpoint_version m \<in> set (gl_retained_manifest_versions plan) \<longrightarrow> gc_object_key d \<notin> snd ` set (object_refs m))
    \<and> execute_garbage_collection_plan plan t = (Inl GarbageCollectionCoordinationRequired, t)"
proof -
  let ?retained = "\<lambda>ms. drop (length ms - gp_retain_latest_manifests policy) ms"
  let ?refs = "\<lambda>ms. concat (map (\<lambda>m. map snd (object_refs m)) (?retained ms))"
  obtain ms u c1 v c2 where ms: "list_published_manifests pb s = (Inr ms, u)" and pos: "0 < gp_retain_latest_manifests policy"
      and c1: "add_unreferenced_candidates pb ''v1/state'' RawStateObject (?refs ms) [] u = (Inr c1, v)"
      and c2: "add_unreferenced_candidates pb ''v1/outputs'' OutputObject (?refs ms) c1 v = (Inr c2, t)"
      and plan: "plan = \<lparr>gl_retained_manifest_versions = map cm_checkpoint_version (?retained ms),
        gl_candidates = sort_key candidate_order c2\<rparr>"
    using assms(2) by (auto simp: plan_garbage_collection_def Let_def action_simps split: if_splits)
  note listed = listed_manifests [OF assms(1) ms]
  have versions: "map cm_checkpoint_version (?retained ms) = [length ms - gp_retain_latest_manifests policy..<length ms]"
    using listed(3) by (simp add: drop_map [symmetric])
  have index: "m = ms ! cm_checkpoint_version m \<and> cm_checkpoint_version m < length ms" if "published pb (objects s) m" for m
    using listed(2,3) that by (metis add_0 diff_zero in_set_conv_nth length_map length_upt nth_map nth_upt)
  have "gc_object_key d \<notin> set (?refs ms)" if "d \<in> set c2" for d
    using gc_candidates [OF c1] gc_candidates [OF c2 that] by (cases "d \<in> set c1") auto
  moreover have "snd ` set (object_refs m) \<subseteq> set (?refs ms)"
    if "published pb (objects s) m" "cm_checkpoint_version m \<in> set (map cm_checkpoint_version (?retained ms))" for m
  proof -
    have "m \<in> set (?retained ms)" using index [OF that(1)] that(2) unfolding versions
      by (auto simp: in_set_conv_nth intro!: exI [of _ "cm_checkpoint_version m - (length ms - gp_retain_latest_manifests policy)"])
    then show ?thesis by auto
  qed
  ultimately have "gc_object_key d \<notin> snd ` set (object_refs m)" if "d \<in> set c2" "published pb (objects s) m"
      "cm_checkpoint_version m \<in> set (map cm_checkpoint_version (?retained ms))" for d m
    using that by blast
  then have "\<forall>d \<in> set (gl_candidates plan). \<forall>m. published pb (objects s) m \<longrightarrow>
        cm_checkpoint_version m \<in> set (gl_retained_manifest_versions plan) \<longrightarrow> gc_object_key d \<notin> snd ` set (object_refs m)"
    by (simp add: plan)
  moreover have "gl_retained_manifest_versions plan = [length ms - gp_retain_latest_manifests policy..<length ms]"
    by (simp add: plan versions)
  ultimately show ?thesis using index pos by (auto simp: execute_garbage_collection_plan_def lift_def)
qed

theorem gc_plan_keeps_referenced_witness:
  "\<exists>plan t. plan_garbage_collection memory_publisher \<lparr>gp_retain_latest_manifests = 1\<rparr> first_memory = (Inr plan, t)
     \<and> (\<forall>d \<in> set (gl_candidates plan). \<forall>m. published memory_publisher (map_of first_memory) m \<longrightarrow>
        cm_checkpoint_version m \<in> set (gl_retained_manifest_versions plan) \<longrightarrow> gc_object_key d \<notin> snd ` set (object_refs m))"
proof -
  let ?run = "plan_garbage_collection memory_publisher \<lparr>gp_retain_latest_manifests = 1\<rparr> first_memory"
  have "isl (fst ?run) = False" unfolding first_memory_def by code_simp
  then obtain plan where run: "?run = (Inr plan, snd ?run)" by (metis isl_def prod.collapse sum.exhaust)
  show ?thesis using gc_plan_keeps_referenced [OF memory_hypotheses(2) run] run by blast
qed

text \<open>
  C24: Validation accepts exactly the manifests with schema version one and a timestamp whose parent is the
  previous version, whose input ranges are non-empty and strictly sorted by stream and partition, and whose
  state and output objects have different ids and carry the version and the key that their fields determine.
\<close>

theorem manifest_validate_exact:
  "manifest_validate m = Inr () \<longleftrightarrow> cm_schema_version m = 1 \<and> cm_created_at m \<noteq> []
     \<and> cm_parent_checkpoint m = (if cm_checkpoint_version m = 0 then None else Some (cm_checkpoint_version m - 1))
     \<and> cm_input_ranges m \<noteq> [] \<and> cm_state_objects m \<noteq> []
     \<and> list_all (\<lambda>r. ir_start_offset_inclusive r < ir_end_offset_exclusive r) (cm_input_ranges m)
     \<and> sorted_wrt (<) (map range_id (cm_input_ranges m))
     \<and> list_all (\<lambda>ref. sr_checkpoint_version ref = cm_checkpoint_version m
          \<and> state_object (sr_owner ref) (sr_partition_id ref) (cm_checkpoint_version m) (sr_object_id ref) = Inr (sr_object_key ref))
         (cm_state_objects m)
     \<and> list_all (\<lambda>ref. or_checkpoint_version ref = cm_checkpoint_version m
          \<and> output_object (or_stream_id ref) (or_partition_id ref) (cm_checkpoint_version m)
              (or_start_offset_inclusive ref) (or_end_offset_exclusive ref) (or_object_id ref) = Inr (or_object_key ref))
         (cm_output_objects m)
     \<and> distinct (map fst (object_refs m))"
  unfolding manifest_validate_iff manifest_ok_def list_all_iff by blast

end
