(* ===== verification/Spec2Isabelle.thy ===== *)
theory Spec2Isabelle
  imports Graph_Epoch Processed_Spans Epoch_Overlay Reconcile Reachability_Gc Source_Cut_Laws Codec_V2
    Object_Key_Props Checkpoint_Reads
begin

text \<open>
  A verification library for Velorix, an engine that keeps materialised views up to date from signed
  delta batches.

  \<^bold>\<open>The program and what is modelled.\<close> Sources ingest rows into partitions of relations; a source cut
  names the offsets that are published without a gap. Views are graphs of native operators: an epoch
  feeds batches of weighted rows (JSON key, JSON value, signed weight) into the graph, every operator
  updates its retained state and emits the change of its output, and an epoch that fails is rolled
  back to the checkpoint taken before it. Partitions are owned under leases with fencing epochs. A
  worker that holds a lease writes its state and output objects to an object store and publishes a manifest
  that refers to them; the manifests form a lineage of checkpoint versions that readers list and follow.

  \<^bold>\<open>Theories and sources\<close> (paths below \<open>src/crates\<close>):

  \<^item> \<open>Velorix_Prelude\<close>: \<open>Result\<close> and the \<open>?\<close> operator, checked 64- and 128-bit arithmetic, \<open>BTreeMap\<close> as a
    sorted association list behind the interface \<open>ordered_map\<close>, blank texts, sorting. \<open>Texts\<close>: methods of
    \<open>str\<close>.
  \<^item> \<open>Json\<close>, \<open>Codec\<close>, \<open>Codec_V2\<close>: JSON values, \<open>canonical_json\<close> (\<open>velorix-core/src/operator.rs\<close>) and the two
    row codecs of \<open>velorix-core/src/delta.rs\<close> (\<open>encode_kv_ordered\<close>, \<open>encode_kv_v2\<close>).
  \<^item> \<open>Delta\<close>: \<open>DeltaRecord\<close> and \<open>DeltaBatch\<close> of \<open>delta.rs\<close>: combine, inverse, diff, \<open>net_rows\<close>,
    \<open>net_row_count\<close>.
  \<^item> \<open>Join_State\<close>, \<open>Equi_Join\<close>: \<open>SideState\<close> and \<open>KeyedEquiJoin\<close> of \<open>operator.rs\<close>, with prepared epochs, overlays
    and restore. \<open>Incremental\<close> is the interface \<open>incremental_view\<close> that the stateful operators share.
  \<^item> \<open>Decimal\<close>, \<open>Aggregate\<close>: the decimal texts and \<open>KeyedSumCountAggregate\<close> of \<open>operator.rs\<close>.
  \<^item> \<open>Native_Common\<close>, \<open>Bag_Join\<close>, \<open>Outer_Join\<close>, \<open>Top_K\<close>, \<open>Native_Operators\<close>: the nine operators of
    \<open>velorix-core/src/native_operator.rs\<close> and the trait \<open>NativeDeltaOperator\<close>.
  \<^item> \<open>Native_Graph\<close>, \<open>Graph_Validation\<close>, \<open>Graph_Epoch\<close>: \<open>NativeOperatorGraph\<close> of the same file: construction,
    validation, epochs, checkpoint, restore and rollback. The graph functions take the method table of the
    trait as an argument; \<open>native_ops\<close> is the table of the operators of the crate.
  \<^item> \<open>Processed_Spans\<close>: \<open>velorix-core/src/processed_spans.rs\<close>. \<open>Epoch_Overlay\<close>:
    \<open>velorix-runtime/src/epoch_overlay.rs\<close>.
  \<^item> \<open>Lease\<close>: \<open>velorix-control/src/lease.rs\<close>. \<open>Reconcile\<close>: \<open>plan_reconcile\<close> of \<open>velorix-control/src/reconcile_plan.rs\<close>
    and the facts that \<open>velorix-k8s/src/worker_shard.rs\<close> builds for it. This theory joins the two.
  \<^item> \<open>Object_Key\<close>, \<open>Object_Key_Laws\<close>, \<open>Object_Key_Props\<close>: \<open>velorix-storage/src/object_key.rs\<close>, with the interface
    \<open>key_codec\<close> for the nine parsers that return the parts of a key.
  \<^item> \<open>Manifest\<close>, \<open>Ownership\<close>, \<open>Capability\<close>: \<open>manifest.rs\<close>, \<open>ownership.rs\<close> and \<open>capability.rs\<close> of
    \<open>velorix-storage/src\<close>.
  \<^item> \<open>Object_Store\<close>: calls to the object store as functions on a state, the laws of the store, and rules for
    sequences of calls. \<open>Checkpoint_Publisher\<close>: \<open>CheckpointPublisher\<close> of \<open>velorix-storage/src/state.rs\<close>, with
    \<open>state_store.rs\<close>, \<open>checkpoint_index.rs\<close> and \<open>gc.rs\<close>. \<open>Leased_Checkpoint\<close>:
    \<open>velorix-control/src/leased_checkpoint.rs\<close>.
  \<^item> \<open>Checkpoint_Lineage\<close>: the commit protocol as a step relation on the objects of the store.
    \<open>Checkpoint_Laws\<close>, \<open>Checkpoint_Refinement\<close>, \<open>Checkpoint_Listing\<close>: what reads return, that writes are steps of the
    protocol, and what the listing and the latest manifest show. \<open>Checkpoint_Props\<close>, \<open>Checkpoint_Reads\<close>: the
    properties, evaluated on a store in memory.
  \<^item> \<open>Reachability_Gc\<close>: \<open>velorix-storage/src/reachability_gc.rs\<close>.
  \<^item> \<open>Source_Cut\<close> and \<open>Source_Cut_Laws\<close>: \<open>velorix-meta/src/source_cut.rs\<close>.

  Every struct is a record (or, where the source derives an order or clones a trait object, a datatype),
  every method a function that takes the state and returns the new state and the result; an early return
  or \<open>?\<close> is a branch of the result type. A method that changes \<open>self\<close> before it fails returns the changed
  state together with the error. A panic is \<open>None\<close> or the left side of a unit result, and a theorem that
  a call returns rules it out.

  \<^bold>\<open>What the theorems show.\<close> Consolidation keeps the net weight of every row and fails only on real
  overflow. For join, semi join, anti join, left and full join, ranked window, and grouped sum and count,
  and for every sequence of input batches that is accepted, the emitted deltas add up to the view of all
  the input. Each of these is an instance of \<open>incremental_view\<close>. Prepared and direct epochs of a join agree. Saved
  states restore exactly, except for the states of the left join and of the ranking operator that the
  findings describe. Graph validation accepts exactly the acyclic graphs over known ports. Every epoch
  returns; a successful one advances the epoch and keeps the invariants; a failed one leaves the
  checkpoint as it was, for operators that keep the contract \<open>rollback_contract\<close>, which is interpreted on
  the operators of the crate, and not for the ranking operator. Row encodings are injective where the
  theorems say so and collide where the findings say so. Processed spans refine sets of ordinals, an
  overlay refines direct mutation of the map, leases are fenced and can be taken over, no stale
  worker is left running by reconciliation, collected objects are unreachable and have
  been so at every mark for the grace period, and a snapshot of
  source cuts lists exactly the publications of the requested relations in the canonical form that
  guarded publication demands. Object keys that are built can be parsed back, with one exception that a finding
  describes, and the keys of ingest batches sort by offset. Publication of a manifest refines the commit
  protocol, also when other publishers run between any two of its calls: a version is published once, on top
  of its parent, with its objects stored and without losing input progress. A leased publication commits only
  what the lease covers and only when no newer claim was visible at its start. A listing is the whole chain
  of versions, the latest manifest is at least as new as all that were published when the call
  started, and a plan for garbage collection spares the objects of the retained manifests.

  \<^bold>\<open>Numbers, bounds and loops.\<close> Weights are integers with the checked \<open>i64\<close> and \<open>i128\<close> operations of the
  source written out; unsigned counters are naturals with their checked or wrapping increments; the second
  codec works on words. Loops are structural recursion, or have a termination proof where they are not (Kahn's
  algorithm in the validation, the traversal of references, the variable-length integers). The one
  exception is the work queue of an epoch, a \<open>partial_function\<close>, since it would run forever on a cyclic
  graph; that it returns on every validated graph is a theorem. No fuel is used.

  \<^bold>\<open>Parameters.\<close> How \<open>serde_json\<close> prints numbers and strings is the parameter \<open>serde\<close>, with its documented
  behaviour as the hypothesis \<open>serde_ok\<close>; \<open>serde_ref\<close> is a concrete printer that satisfies it. The
  closures of operators (predicates, projections, join functions, null extension, ranking keys) are
  parameters of the operators, as in the source.

  The iteration order of hash sets is the argument \<open>ord\<close> with the hypothesis \<open>hash_order\<close>.

  The object store is a record of functions with the hypothesis \<open>store_laws\<close>: the documented behaviour of the
  \<open>object_store\<close> crate, with changes by other clients around every call. \<open>shared_store\<close> says that the other
  clients delete and replace no durable object, and \<open>protocol_store\<close> that they take steps of the commit
  protocol, as the writes of the publisher are shown to do. The functions of \<open>serde_json\<close> on manifests
  and records, SHA-256 and the clock are fields of the publisher; \<open>manifest_codec\<close> says that a printed
  manifest is read back and \<open>manifest_types\<close> that a manifest that was read has values of its Rust types. The store in
  memory of \<open>Checkpoint_Props\<close> satisfies all of these. Requests that the source runs concurrently, with
  \<open>buffer_unordered\<close>, are made in order; the changes of other clients between them are arbitrary.

  \<^bold>\<open>Not modelled.\<close>
  \<^item> The planner (\<open>velorix-core/src/view_plan\<close>, \<open>view_contract.rs\<close>, \<open>standing_program.rs\<close>,
    \<open>operator_contract.rs\<close>) works on the syntax trees of \<open>sqlparser\<close>; the view runtime of \<open>velorix-runtime\<close>,
    with two more operators of the trait, interprets its plans. Arrow states (\<open>arrow_state\<close>, \<open>delta_to_arrow.rs\<close>)
    are values of the Arrow library.
  \<^item> Ingest logs, registries and runtime objects (\<open>velorix-storage\<close>), the metadata stores and their replication
    (\<open>velorix-meta\<close>), ingest publication (\<open>velorix-control\<close>), and the programs \<open>velorix-api\<close>,
    \<open>velorix-cli\<close>, \<open>velorix-k8s\<close> and \<open>velorix-ingest-writer\<close> are mostly asynchronous input and output.
  \<^item> Of the checkpoint publisher: another state store than the raw one, retention, garbage collection and
    recovery transition records, and the inspection and repair of checkpoints. Of the capabilities: the probe
    of a live store.
  \<^item> Pure code that the development does not reach yet: relation schemas and policies in \<open>velorix-core\<close>; the
    join index, window partitions, recursive frontier and expressions in \<open>velorix-runtime\<close>; readiness in
    \<open>velorix-control\<close>.
  \<^item> Clocks are arguments. Allocation and memory limits are not modelled.
\<close>

section \<open>Leases and reconciliation\<close>

text \<open>
  C18: A worker that runs after reconciliation is not stale. After any sequence of lease calls, when the
  facts are built from the lease that is current, the worker left running has a later epoch than every
  grant ever issued for the partition, or the same epoch and the same owner.
\<close>

theorem reconciled_worker_fences:
  assumes "lease_reach ls gs" and "lease_current ls key now = Inr lease"
    and "worker_after desired (facts_from_observations lease epoch_record running) = Some w"
    and "h \<in> set gs" and "lg_key h = key"
  shows "lg_owner_epoch h < wf_owner_epoch w
    \<or> (lg_owner_epoch h = wf_owner_epoch w \<and> lg_owner_id h = wf_owner_id w)"
proof -
  obtain c where c: "lease = Some c" "lg_owner_id c = wf_owner_id w" "lg_owner_epoch c = wf_owner_epoch w"
    using assms(3) by (auto simp: worker_after_authorised authorised_def facts_from_observations_def)
  with assms(2) have "ls key = Some c" by (auto simp: lease_current_def res_simps split: option.splits if_splits)
  with lease_reach_fenced [OF assms(1,4)] assms(5) have "fenced c h" by simp
  with c show ?thesis by (simp add: fenced_def)
qed

definition sample_view :: velorix_view where
  "sample_view = \<lparr>vv_api_version = ''v1'', vv_kind = ''VelorixView'',
     vv_metadata = \<lparr>cm_name = ''v'', cm_namespace = ''n'', cm_generation = 1\<rparr>, vv_spec_version = 1,
     vv_spec = \<lparr>sp_view_id = ''v'', sp_worker = \<lparr>wi_stream_id = ''s'', wi_partition_id = 0, wi_owner_id = ''a''\<rparr>\<rparr>,
     vv_status = \<lparr>vs_observed_generation = None, vs_observed_checkpoint_version = None,
                  vs_observed_owner_epoch = None, vs_conditions = []\<rparr>\<rparr>"

definition sample_record :: ownership_epoch_record where
  "sample_record = \<lparr>er_stream_id = ''s'', er_partition_id = 0, er_owner_id = ''a'', er_owner_epoch = 1,
     er_lease_identity = ''l'', er_created_at = ''t'', er_previous_epoch = None, er_previous_checkpoint_version = None\<rparr>"

theorem reconciled_worker_fences_witness:
  "\<exists>ls g w. acquire_or_renew (\<lambda>_. None) (sample_request ''a'' 0) = (ls, Inr g)
     \<and> lease_current ls sample_key 5 = Inr (Some g)
     \<and> worker_after sample_view (facts_from_observations (Some g) (Some sample_record) None) = Some w
     \<and> lg_owner_epoch g \<le> wf_owner_epoch w"
proof -
  have valid: "validate_key sample_key = Inr ()" "validate_owner_id ''a'' = Inr ()" by code_simp+
  define g where "g = \<lparr>lg_key = sample_key, lg_owner_id = ''a'', lg_owner_epoch = 1, lg_expires_at_unix_ms = 10\<rparr>"
  define ls where "ls = (\<lambda>_. None)(sample_key := Some g)"
  define w where "w = \<lparr>wf_owner_id = ''a'', wf_owner_epoch = 1\<rparr>"
  have a: "acquire_or_renew (\<lambda>_. None) (sample_request ''a'' 0) = (ls, Inr g)"
    using valid by (simp add: acquire_or_renew_def sample_request_def u64_checked_add_def ok_or_def next_grant_def g_def ls_def)
  have b: "lease_current ls sample_key 5 = Inr (Some g)"
    using valid by (simp add: lease_current_def ls_def g_def)
  have c: "worker_after sample_view (facts_from_observations (Some g) (Some sample_record) None) = Some w"
    by (simp add: worker_after_authorised authorised_def facts_from_observations_def sample_view_def sample_record_def g_def w_def)
  have "lg_owner_epoch g \<le> wf_owner_epoch w"
    using reconciled_worker_fences [OF lease_reach.acquired [OF lease_reach.start a] b c, of g] by (auto simp: g_def)
  with a b c show ?thesis by blast
qed

end
